(* ===== verification/Prelude.thy ===== *)
theory Prelude
  imports "HOL-Library.Word" "HOL-Library.AList" "HOL-Library.Multiset"
    "HOL-Library.List_Lexorder" "HOL-Library.Char_ord"
begin

section \<open>Shared vocabulary of the development\<close>

text \<open>
  This theory holds what every component of the model shares:
  \<^item> the machine integers of the source (\<open>u8\<close>, \<open>u32\<close>, \<open>u64\<close> at their width; \<open>usize\<close> is a
    natural number and the places where it could wrap write the reduction out);
  \<^item> \<open>exec\<close>, the outcome of a call that may panic or may not return;
  \<^item> the standard collections the source uses: \<open>HashMap\<close> as an association list without
    repeated keys, \<open>BTreeMap\<close> as one that is also sorted, \<open>BinaryHeap\<close> as a list from which
    a greatest element is popped. The locale \<open>kv_map\<close> states the contract both maps
    promise and is interpreted on each of them;
  \<^item> the locales \<open>invariant_system\<close> and \<open>monotone_system\<close>, which lift one-step facts about a
    component to every sequence of events, and are interpreted on the components.
\<close>

unbundle bit_operations_syntax

named_theorems exec_simps \<open>rewriting of outcomes and of their composition\<close>
named_theorems map_simps \<open>lookups after updates of the association-list maps\<close>
named_theorems frame_simps \<open>what an operation leaves unchanged\<close>

type_synonym u8 = "8 word"
type_synonym u32 = "32 word"
type_synonym u64 = "64 word"
type_synonym i64 = "64 word" \<comment> \<open>two's complement, read with \<open>sint\<close>\<close>
type_synonym usize = nat

subsection \<open>Outcomes\<close>

text \<open>
  \<open>Return x\<close>: the call returns \<open>x\<close>. \<open>Panic p\<close>: it panics. \<open>Diverge\<close>: it never returns
  (an endless loop or an await that is never woken).
\<close>

datatype panic = RemByZero | Unreachable | UnwrapNone | ExpectFailed | AssertFailed | PanicCall

datatype 'a exec = Return 'a | Panic panic | Diverge

fun exec_bind :: "'a exec \<Rightarrow> ('a \<Rightarrow> 'b exec) \<Rightarrow> 'b exec" where
  "exec_bind (Return x) f = f x"
| "exec_bind (Panic p) f = Panic p"
| "exec_bind Diverge f = Diverge"

fun exec_of_option :: "panic \<Rightarrow> 'a option \<Rightarrow> 'a exec" where
  "exec_of_option p (Some x) = Return x"
| "exec_of_option p None = Panic p"

lemma exec_bind_eq_Return [exec_simps]:
  "exec_bind m f = Return y \<longleftrightarrow> (\<exists>x. m = Return x \<and> f x = Return y)"
  by (cases m) auto

lemma exec_bind_eq_Diverge:
  "exec_bind m f = Diverge \<longleftrightarrow> m = Diverge \<or> (\<exists>x. m = Return x \<and> f x = Diverge)"
  by (cases m) auto

lemma exec_of_option_eq_Diverge [simp]: "exec_of_option p m \<noteq> Diverge"
  by (cases m) auto

lemma exec_bind_ReturnE:
  assumes "exec_bind m f = Return y"
  obtains x where "m = Return x" and "f x = Return y"
  using assms by (auto simp: exec_bind_eq_Return)

lemma exec_bind_return [simp]: "exec_bind m Return = m"
  by (cases m) auto

lemma exec_bind_assoc [exec_simps]:
  "exec_bind (exec_bind m f) g = exec_bind m (\<lambda>x. exec_bind (f x) g)"
  by (cases m) auto

lemma exec_of_option_eq_Return [exec_simps]:
  "exec_of_option p m = Return x \<longleftrightarrow> m = Some x"
  by (cases m) auto

text \<open>A sequence of events, each handled by \<open>step\<close>; it stops where a handler does not return.\<close>

fun run_exec :: "('e \<Rightarrow> 's \<Rightarrow> 's exec) \<Rightarrow> 'e list \<Rightarrow> 's \<Rightarrow> 's exec" where
  "run_exec step [] s = Return s"
| "run_exec step (e # es) s = exec_bind (step e s) (run_exec step es)"

lemma run_exec_append:
  "run_exec step (es @ fs) s = exec_bind (run_exec step es s) (run_exec step fs)"
proof (induction es arbitrary: s)
  case (Cons e es)
  then have "run_exec step (es @ fs) = (\<lambda>s. exec_bind (run_exec step es s) (run_exec step fs))"
    by blast
  then show ?case by (simp add: exec_bind_assoc)
qed simp

locale invariant_system =
  fixes step :: "'e \<Rightarrow> 's \<Rightarrow> 's exec"
    and invar :: "'s \<Rightarrow> bool"
  assumes step_invar: "invar s \<Longrightarrow> step e s = Return t \<Longrightarrow> invar t"
begin

lemma run_invar: "invar s \<Longrightarrow> run_exec step es s = Return t \<Longrightarrow> invar t"
  by (induction es arbitrary: s) (auto simp: exec_bind_eq_Return dest: step_invar)

end

text \<open>A component whose state only moves up in \<open>below\<close> while the invariant holds.\<close>

locale monotone_system = invariant_system step invar
  for step :: "'e \<Rightarrow> 's \<Rightarrow> 's exec" and invar :: "'s \<Rightarrow> bool" +
  fixes below :: "'s \<Rightarrow> 's \<Rightarrow> bool"
  assumes below_refl: "below s s"
    and below_trans: "below s t \<Longrightarrow> below t u \<Longrightarrow> below s u"
    and step_below: "invar s \<Longrightarrow> step e s = Return t \<Longrightarrow> below s t"
begin

lemma run_below: "invar s \<Longrightarrow> run_exec step es s = Return t \<Longrightarrow> below s t"
proof (induction es arbitrary: s)
  case Nil
  then show ?case by (simp add: below_refl)
next
  case (Cons e es)
  from Cons.prems(2) obtain u where u: "step e s = Return u" "run_exec step es u = Return t"
    by (auto simp: exec_bind_eq_Return)
  from Cons.prems(1) u(1) have "below s u" and "invar u"
    by (auto intro: step_below step_invar)
  with u(2) Cons.IH [of u] show ?case by (blast intro: below_trans)
qed

end

text \<open>
  A loop that climbs from a value to the one stored above it, with no bound of its own: it
  returns from every value if the stored ones do not form a cycle.
\<close>

locale parent_walk =
  fixes above :: "'n \<Rightarrow> 'n option"
    and stored :: "'n set"
    and walk :: "'n \<Rightarrow> 'r option"
  assumes above_stored: "above n = Some p \<Longrightarrow> p \<in> stored"
    and finite_stored: "finite stored"
    and walk_top: "above n = None \<Longrightarrow> walk n \<noteq> None"
    and walk_up: "above n = Some p \<Longrightarrow> walk p \<noteq> None \<Longrightarrow> walk n \<noteq> None"
begin

lemma walk_stored_returns:
  assumes "acyclic {(p, n). n \<in> stored \<and> above n = Some p}" and "n \<in> stored"
  shows "walk n \<noteq> None"
proof -
  let ?R = "{(p, n). n \<in> stored \<and> above n = Some p}"
  have "?R \<subseteq> stored \<times> stored" using above_stored by auto
  then have "finite ?R" using finite_stored finite_subset by blast
  then have "wf ?R" using assms(1) finite_acyclic_wf by blast
  then show ?thesis using assms(2)
  proof (induction n rule: wf_induct_rule)
    case (less n)
    show ?case
    proof (cases "above n")
      case (Some p)
      then show ?thesis using less.IH [of p] less.prems above_stored walk_up by blast
    qed (rule walk_top)
  qed
qed

lemma walk_returns:
  assumes "acyclic {(p, n). n \<in> stored \<and> above n = Some p}"
  shows "walk n \<noteq> None"
  using walk_stored_returns [OF assms] above_stored walk_top walk_up by (cases "above n") blast+

end

subsection \<open>HashMap\<close>

type_synonym ('k, 'v) hash_map = "('k \<times> 'v) list"

definition hm_get :: "'k \<Rightarrow> ('k, 'v) hash_map \<Rightarrow> 'v option" where
  "hm_get k m = map_of m k"

definition hm_insert :: "'k \<Rightarrow> 'v \<Rightarrow> ('k, 'v) hash_map \<Rightarrow> ('k, 'v) hash_map" where
  "hm_insert k v m = AList.update k v m"

definition hm_remove :: "'k \<Rightarrow> ('k, 'v) hash_map \<Rightarrow> ('k, 'v) hash_map" where
  "hm_remove k m = AList.delete k m"

definition hm_values :: "('k, 'v) hash_map \<Rightarrow> 'v list" where
  "hm_values m = map snd m"

definition hm_wf :: "('k, 'v) hash_map \<Rightarrow> bool" where
  "hm_wf m \<longleftrightarrow> distinct (map fst m)"

subsection \<open>BTreeMap\<close>

type_synonym ('k, 'v) btree_map = "('k \<times> 'v) list"

fun bt_insert :: "'k::linorder \<Rightarrow> 'v \<Rightarrow> ('k, 'v) btree_map \<Rightarrow> ('k, 'v) btree_map" where
  "bt_insert k v [] = [(k, v)]"
| "bt_insert k v ((k', v') # m) =
     (if k < k' then (k, v) # (k', v') # m
      else if k = k' then (k, v) # m
      else (k', v') # bt_insert k v m)"

definition bt_get :: "'k \<Rightarrow> ('k, 'v) btree_map \<Rightarrow> 'v option" where
  "bt_get k m = map_of m k"

definition bt_remove :: "'k \<Rightarrow> ('k, 'v) btree_map \<Rightarrow> ('k, 'v) btree_map" where
  "bt_remove k m = filter (\<lambda>(k', _). k' \<noteq> k) m"

text \<open>\<open>BTreeMap::split_off\<close>, the part with keys at least \<open>k\<close> that it returns.\<close>

definition bt_split_off :: "'k::linorder \<Rightarrow> ('k, 'v) btree_map \<Rightarrow> ('k, 'v) btree_map" where
  "bt_split_off k m = filter (\<lambda>(k', _). k \<le> k') m"

definition bt_wf :: "('k::linorder, 'v) btree_map \<Rightarrow> bool" where
  "bt_wf m \<longleftrightarrow> sorted (map fst m) \<and> distinct (map fst m)"

text \<open>\<open>entry(k).or_insert(d)\<close>: the value at \<open>k\<close>, and the map with \<open>d\<close> there if there was none.\<close>

definition bt_entry_or :: "'k::linorder \<Rightarrow> 'v \<Rightarrow> ('k, 'v) btree_map \<Rightarrow> 'v \<times> ('k, 'v) btree_map" where
  "bt_entry_or k d m = (case bt_get k m of Some v \<Rightarrow> (v, m) | None \<Rightarrow> (d, bt_insert k d m))"

subsection \<open>The contract of a map, and its two providers\<close>

locale kv_map =
  fixes get :: "'k \<Rightarrow> 'm \<Rightarrow> 'v option"
    and put :: "'k \<Rightarrow> 'v \<Rightarrow> 'm \<Rightarrow> 'm"
    and del :: "'k \<Rightarrow> 'm \<Rightarrow> 'm"
    and none :: "'m"
    and invar :: "'m \<Rightarrow> bool"
  assumes get_none: "get k none = None"
    and get_put: "invar m \<Longrightarrow> get k' (put k v m) = (if k' = k then Some v else get k' m)"
    and get_del: "invar m \<Longrightarrow> get k' (del k m) = (if k' = k then None else get k' m)"
    and invar_none: "invar none"
    and invar_put: "invar m \<Longrightarrow> invar (put k v m)"
    and invar_del: "invar m \<Longrightarrow> invar (del k m)"
begin

text \<open>Two updates of one key: the later one wins, as repeated \<open>insert\<close> calls do.\<close>

lemma get_put_put: "invar m \<Longrightarrow> get k' (put k w (put k v m)) = get k' (put k w m)"
  by (simp add: get_put invar_put)

lemma get_del_put: "invar m \<Longrightarrow> k' \<noteq> k \<Longrightarrow> get k' (del k (put k v m)) = get k' m"
  by (simp add: get_put get_del invar_put)

lemma put_keeps_keys: "invar m \<Longrightarrow> get k' m \<noteq> None \<Longrightarrow> get k' (put k v m) \<noteq> None"
  by (simp add: get_put)

end

lemma hm_wf_nil [simp]: "hm_wf []"
  by (simp add: hm_wf_def)

lemma hm_get_nil [simp]: "hm_get k [] = None"
  by (simp add: hm_get_def)

lemma hm_get_insert [map_simps]:
  "hm_get k' (hm_insert k v m) = (if k' = k then Some v else hm_get k' m)"
  by (simp add: hm_get_def hm_insert_def update_conv')

lemma hm_wf_insert [map_simps, intro]: "hm_wf m \<Longrightarrow> hm_wf (hm_insert k v m)"
  by (simp add: hm_wf_def hm_insert_def distinct_update)

lemma hm_wf_remove [map_simps, intro]: "hm_wf m \<Longrightarrow> hm_wf (hm_remove k m)"
  by (simp add: hm_wf_def hm_remove_def distinct_delete)

lemma hm_get_remove [map_simps]:
  "hm_get k' (hm_remove k m) = (if k' = k then None else hm_get k' m)"
  by (simp add: hm_get_def hm_remove_def delete_conv')

interpretation hm: kv_map hm_get hm_insert hm_remove "[]" hm_wf
  by unfold_locales (auto simp: map_simps)

lemma length_hm_insert [map_simps]:
  "length (hm_insert k v m) = (if hm_get k m = None then Suc (length m) else length m)"
  by (induction m) (auto simp: hm_insert_def hm_get_def)

lemma hm_get_eq_None: "hm_get k m = None \<longleftrightarrow> k \<notin> fst ` set m"
  by (simp add: hm_get_def map_of_eq_None_iff)

lemma hm_get_SomeD: "hm_get k m = Some v \<Longrightarrow> (k, v) \<in> set m"
  by (simp add: hm_get_def map_of_SomeD)

lemma hm_get_Some_iff: "hm_wf m \<Longrightarrow> hm_get k m = Some v \<longleftrightarrow> (k, v) \<in> set m"
  by (simp add: hm_get_def hm_wf_def)

text \<open>The length of a well-formed map is the number of its keys.\<close>

lemma hm_length_card: "hm_wf m \<Longrightarrow> length m = card (fst ` set m)"
  by (metis distinct_card hm_wf_def length_map list.set_map)

lemma hm_insert_pairs: "set (hm_insert k v m) \<subseteq> insert (k, v) (set m)"
  by (induction m) (auto simp: hm_insert_def)

lemma keys_hm_insert [map_simps]: "fst ` set (hm_insert k v m) = insert k (fst ` set m)"
  by (auto simp: hm_insert_def dom_update simp flip: dom_map_of_conv_image_fst simp: update_conv')

lemma bt_get_nil [simp]: "bt_get k [] = None"
  by (simp add: bt_get_def)

lemma bt_wf_nil [simp]: "bt_wf []"
  by (simp add: bt_wf_def)

lemma bt_get_insert [map_simps]:
  "bt_get k' (bt_insert k v m) = (if k' = k then Some v else bt_get k' m)"
  by (induction k v m rule: bt_insert.induct) (auto simp: bt_get_def)

lemma keys_bt_insert [map_simps]: "set (map fst (bt_insert k v m)) = insert k (set (map fst m))"
  by (induction k v m rule: bt_insert.induct) auto

lemma bt_wf_insert [map_simps, intro]: "bt_wf m \<Longrightarrow> bt_wf (bt_insert k v m)"
proof (induction k v m rule: bt_insert.induct)
  case (1 k v)
  then show ?case by (simp add: bt_wf_def)
next
  case (2 k v k' v' m)
  have keys: "fst ` set (bt_insert k v m) = insert k (fst ` set m)"
    using keys_bt_insert [of k v m] by simp
  show ?case
  proof (cases "k < k' \<or> k = k'")
    case True
    with "2.prems" show ?thesis by (auto simp: bt_wf_def)
  next
    case False
    with "2.IH" "2.prems" have "bt_wf (bt_insert k v m)" by (auto simp: bt_wf_def)
    with False "2.prems" keys show ?thesis by (auto simp: bt_wf_def)
  qed
qed

lemma bt_get_filter:
  "bt_get k (filter (\<lambda>(k', _). P k') m) = (if P k then bt_get k m else None)"
  by (induction m) (auto simp: bt_get_def)

lemma bt_get_remove [map_simps]:
  "bt_get k' (bt_remove k m) = (if k' = k then None else bt_get k' m)"
  using bt_get_filter [of k' "\<lambda>x. x \<noteq> k" m] by (auto simp: bt_remove_def)

lemma bt_get_split_off [map_simps]:
  "bt_get k' (bt_split_off k m) = (if k \<le> k' then bt_get k' m else None)"
  using bt_get_filter [of k' "\<lambda>x. k \<le> x" m] by (auto simp: bt_split_off_def)

lemma bt_wf_filter: "bt_wf m \<Longrightarrow> bt_wf (filter P m)"
  by (auto simp: bt_wf_def distinct_map_filter sorted_filter)

lemma bt_wf_remove [map_simps, intro]: "bt_wf m \<Longrightarrow> bt_wf (bt_remove k m)"
  by (simp add: bt_remove_def bt_wf_filter)

lemma bt_wf_split_off [map_simps, intro]: "bt_wf m \<Longrightarrow> bt_wf (bt_split_off k m)"
  by (simp add: bt_split_off_def bt_wf_filter)

interpretation bt: kv_map bt_get bt_insert bt_remove "[]" bt_wf
  by unfold_locales (auto simp: map_simps)

lemma bt_get_eq_None: "bt_get k m = None \<longleftrightarrow> k \<notin> fst ` set m"
  by (simp add: bt_get_def map_of_eq_None_iff)

subsection \<open>BinaryHeap\<close>

text \<open>
  \<open>push\<close> adds an element; \<open>pop\<close> takes out an element whose key no other exceeds. Which of
  several greatest elements comes out first is left open by the standard library; the model
  takes the earliest one pushed.
\<close>

fun heap_pop :: "('a \<Rightarrow> 'k::linorder) \<Rightarrow> 'a list \<Rightarrow> ('a \<times> 'a list) option" where
  "heap_pop key [] = None"
| "heap_pop key (x # xs) =
     (case heap_pop key xs of
        None \<Rightarrow> Some (x, xs)
      | Some (y, ys) \<Rightarrow> if key y \<le> key x then Some (x, xs) else Some (y, x # ys))"

definition heap_push :: "'a \<Rightarrow> 'a list \<Rightarrow> 'a list" where
  "heap_push x xs = xs @ [x]"

lemma heap_pop_None [simp]: "heap_pop key xs = None \<longleftrightarrow> xs = []"
  by (cases xs) (auto split: option.splits prod.splits)

lemma heap_pop_mset: "heap_pop key xs = Some (y, ys) \<Longrightarrow> mset xs = add_mset y (mset ys)"
  by (induction xs arbitrary: y ys) (auto split: option.splits prod.splits if_splits)

lemma heap_pop_max: "heap_pop key xs = Some (y, ys) \<Longrightarrow> x \<in> set xs \<Longrightarrow> key x \<le> key y"
  by (induction xs arbitrary: y ys) (fastforce split: option.splits prod.splits if_splits)+

lemma heap_pop_length: "heap_pop key xs = Some (y, ys) \<Longrightarrow> length xs = Suc (length ys)"
  by (metis heap_pop_mset size_add_mset size_mset)

lemma mset_heap_push [simp]: "mset (heap_push x xs) = add_mset x (mset xs)"
  by (simp add: heap_push_def)

subsection \<open>Big-endian bytes of a u64\<close>

definition u64_to_be_bytes :: "u64 \<Rightarrow> u8 list" where
  "u64_to_be_bytes v = map (\<lambda>k. ucast (drop_bit k v)) [56, 48, 40, 32, 24, 16, 8, 0]"

definition u64_from_be_bytes :: "u8 list \<Rightarrow> u64" where
  "u64_from_be_bytes bs = foldl (\<lambda>acc b. push_bit 8 acc OR ucast b) 0 bs"

lemma length_u64_to_be_bytes [simp]: "length (u64_to_be_bytes v) = 8"
  by (simp add: u64_to_be_bytes_def)

lemma be_bytes_step:
  "push_bit 8 (drop_bit (k + 8) v) OR ucast (ucast (drop_bit k v) :: u8) = drop_bit k (v :: u64)"
proof (rule bit_word_eqI)
  fix n
  assume "n < LENGTH(64)"
  then show "bit (push_bit 8 (drop_bit (k + 8) v) OR ucast (ucast (drop_bit k v) :: u8)) n
      = bit (drop_bit k v) n"
    by (cases "n < 8") (auto simp: bit_simps dest: bit_imp_le_length)
qed

lemma u64_from_to_be_bytes [simp]: "u64_from_be_bytes (u64_to_be_bytes v) = v"
proof -
  have top: "drop_bit 64 v = 0"
    by (rule bit_word_eqI) (auto simp: bit_simps dest: bit_imp_le_length)
  show ?thesis
    using be_bytes_step [of 56 v] be_bytes_step [of 48 v] be_bytes_step [of 40 v]
      be_bytes_step [of 32 v] be_bytes_step [of 24 v] be_bytes_step [of 16 v]
      be_bytes_step [of 8 v] be_bytes_step [of 0 v] top
    by (simp add: u64_from_be_bytes_def u64_to_be_bytes_def)
qed

lemma u64_to_be_bytes_inject [simp]: "u64_to_be_bytes v = u64_to_be_bytes w \<longleftrightarrow> v = w"
  by (metis u64_from_to_be_bytes)

subsection \<open>The greatest of a list, as \<open>Iterator::max_by_key\<close> returns it\<close>

fun list_max :: "'a::linorder list \<Rightarrow> 'a option" where
  "list_max [] = None"
| "list_max (x # xs) = (case list_max xs of None \<Rightarrow> Some x | Some y \<Rightarrow> Some (max x y))"

lemma list_max_None [simp]: "list_max xs = None \<longleftrightarrow> xs = []"
  by (cases xs) (auto split: option.splits)

lemma list_max_in: "list_max xs = Some y \<Longrightarrow> y \<in> set xs"
  by (induction xs arbitrary: y) (auto split: option.splits simp: max_def)

lemma list_max_ge: "list_max xs = Some y \<Longrightarrow> x \<in> set xs \<Longrightarrow> x \<le> y"
  by (induction xs arbitrary: y) (auto split: option.splits simp: le_max_iff_disj)

subsection \<open>Counting up to a bound\<close>

lemma unat_Suc_below: "x < y \<Longrightarrow> unat (x + 1) = Suc (unat x)" for x y :: "'a::len word"
proof -
  assume "x < y"
  moreover have "unat y < 2 ^ LENGTH('a)" by (rule unsigned_less)
  ultimately have "Suc (unat x) < 2 ^ LENGTH('a)" unfolding word_less_nat_alt by linarith
  then show ?thesis by (simp add: unat_word_ariths)
qed

end
