(* ===== verification/HsData.thy ===== *)
theory HsData
  imports Prelude
begin

section \<open>hs-data: proposals, quorum certificates, signatures, message contexts\<close>

text \<open>
  The crate \<^verbatim>\<open>hs-data\<close>. The third-party crates it calls (\<^verbatim>\<open>sha2\<close>,
  \<^verbatim>\<open>threshold_crypto\<close>) are the functions of the record \<open>crypto\<close>, an argument \<open>C\<close> of every
  definition that uses them. Their opaque values are carried as their byte encodings
  (\<open>PK\<close>, \<open>SK\<close>, \<open>Sign\<close>, \<open>CombinedSign\<close>); the model builds none of them, it only passes
  them to the functions of \<open>crypto\<close>. \<open>Box\<close>, \<open>Arc\<close> and references are the value they hold.

  The lemmas show what the signed bytes of a proposal determine, that every certificate that
  carries the bootstrap signature passes for the initial certificate, and that \<open>form_chain\<close>
  builds a chain linked by heights, parents and justifications.
\<close>

subsection \<open>lib.rs: type names, and the external crates\<close>

type_synonym ReplicaID = string
type_synonym ViewNumber = u64
type_synonym SignID = usize

datatype PK = PK "u8 list"
datatype SK = SK "u8 list"
datatype SecretKeySet = SecretKeySet "u8 list"
datatype Sign = Sign "u8 list"
datatype CombinedSign = CombinedSign (sign_bytes: "u8 list")

record crypto =
  sha256 :: "u8 list \<Rightarrow> u8 list"
  secret_key_share :: "SecretKeySet \<Rightarrow> usize \<Rightarrow> SK"
  public_keys :: "SecretKeySet \<Rightarrow> PK"
  sk_sign :: "SK \<Rightarrow> u8 list \<Rightarrow> Sign"
  share_verify :: "PK \<Rightarrow> usize \<Rightarrow> Sign \<Rightarrow> u8 list \<Rightarrow> bool"
  combined_verify :: "PK \<Rightarrow> CombinedSign \<Rightarrow> u8 list \<Rightarrow> bool"
  combine_signatures :: "PK \<Rightarrow> (usize \<times> Sign) list \<Rightarrow> CombinedSign option"
  pks_threshold :: "PK \<Rightarrow> usize"
  signature_from_bytes :: "u8 list \<Rightarrow> CombinedSign option"
  zeroed_sign :: CombinedSign

subsection \<open>txn.rs\<close>

datatype Txn = Txn (txn_bytes: "u8 list")

subsection \<open>tree\_node.rs: hashes\<close>

datatype NodeHash = NodeHash (node_hash_bytes: "u8 list")

definition NodeHash_genesis :: NodeHash where
  "NodeHash_genesis = NodeHash (replicate 32 0xAB)"

text \<open>\<open>from_vec\<close> copies at most 32 bytes into a zeroed buffer.\<close>

definition NodeHash_from_vec :: "u8 list \<Rightarrow> NodeHash" where
  "NodeHash_from_vec v = NodeHash (take 32 v @ replicate (32 - length v) 0)"

definition zeroed_node_hash :: NodeHash where
  "zeroed_node_hash = NodeHash (replicate 32 0)"

subsection \<open>qc.rs: certificates\<close>

datatype QCHash = QCHash "u8 list"

record GenericQC =
  qc_view :: ViewNumber
  qc_node :: NodeHash
  qc_combined_sign :: CombinedSign

definition GenericQC_new :: "u64 \<Rightarrow> NodeHash \<Rightarrow> CombinedSign \<Rightarrow> GenericQC" where
  "GenericQC_new view node combined_sign =
     \<lparr>qc_view = view, qc_node = node, qc_combined_sign = combined_sign\<rparr>"

definition GenericQC_hash :: "GenericQC \<Rightarrow> QCHash" where
  "GenericQC_hash qc = QCHash (take 32 (drop 32 (sign_bytes (qc_combined_sign qc))))"

definition GenericQC_to_be_bytes :: "GenericQC \<Rightarrow> u8 list" where
  "GenericQC_to_be_bytes qc =
     u64_to_be_bytes (qc_view qc) @ node_hash_bytes (qc_node qc) @ sign_bytes (qc_combined_sign qc)"

definition zeroed_qc :: "crypto \<Rightarrow> GenericQC" where
  "zeroed_qc C = \<lparr>qc_view = 0, qc_node = zeroed_node_hash, qc_combined_sign = zeroed_sign C\<rparr>"

subsection \<open>tree\_node.rs: proposals\<close>

record TreeNode =
  height :: ViewNumber
  txs :: "Txn list"
  parent :: NodeHash
  justify :: GenericQC

text \<open>The bytes fed to SHA-256: transactions, height, parent. The justification is not hashed.\<close>

definition TreeNode_preimage :: "TreeNode \<Rightarrow> u8 list" where
  "TreeNode_preimage node =
     concat (map txn_bytes (txs node)) @ u64_to_be_bytes (height node) @ node_hash_bytes (parent node)"

definition TreeNode_hash :: "crypto \<Rightarrow> TreeNode \<Rightarrow> NodeHash" where
  "TreeNode_hash C node = NodeHash (sha256 C (TreeNode_preimage node))"

definition TreeNode_new :: "Txn list \<Rightarrow> u64 \<Rightarrow> NodeHash \<Rightarrow> GenericQC \<Rightarrow> TreeNode" where
  "TreeNode_new txns h par just = \<lparr>height = h, txs = txns, parent = par, justify = just\<rparr>"

definition TreeNode_node_and_hash ::
    "crypto \<Rightarrow> Txn list \<Rightarrow> u64 \<Rightarrow> NodeHash \<Rightarrow> GenericQC \<Rightarrow> TreeNode \<times> NodeHash" where
  "TreeNode_node_and_hash C txns h par just =
     (let node = \<lparr>height = h, txs = txns, parent = par, justify = just\<rparr>
      in (node, TreeNode_hash C node))"

definition TreeNode_to_be_bytes :: "TreeNode \<Rightarrow> u8 list" where
  "TreeNode_to_be_bytes node =
     u64_to_be_bytes (height node) @ GenericQC_to_be_bytes (justify node)
     @ node_hash_bytes (parent node) @ concat (map txn_bytes (txs node))"

definition INIT_NODE :: "crypto \<Rightarrow> TreeNode" where
  "INIT_NODE C = \<lparr>height = 0, txs = [], parent = NodeHash_genesis, justify = zeroed_qc C\<rparr>"

definition INIT_NODE_HASH :: "crypto \<Rightarrow> NodeHash" where
  "INIT_NODE_HASH C = TreeNode_hash C (INIT_NODE C)"

definition INIT_QC :: "crypto \<Rightarrow> GenericQC" where
  "INIT_QC C = \<lparr>qc_view = 0, qc_node = INIT_NODE_HASH C, qc_combined_sign = zeroed_sign C\<rparr>"

definition INIT_QC_HASH :: "crypto \<Rightarrow> QCHash" where
  "INIT_QC_HASH C = GenericQC_hash (INIT_QC C)"

definition is_init_qc :: "crypto \<Rightarrow> GenericQC \<Rightarrow> bool" where
  "is_init_qc C qc \<longleftrightarrow> GenericQC_hash qc = INIT_QC_HASH C"

subsection \<open>sign\_kit.rs\<close>

record SignKit =
  sk_sign_of :: Sign
  sk_sign_id :: SignID

definition SignKit_new :: "usize \<Rightarrow> Sign \<Rightarrow> SignKit" where
  "SignKit_new i s = \<lparr>sk_sign_of = s, sk_sign_id = i\<rparr>"

definition SignKit_from :: "Sign \<times> SignID \<Rightarrow> SignKit" where
  "SignKit_from v = \<lparr>sk_sign_of = fst v, sk_sign_id = snd v\<rparr>"

text \<open>The random key set is drawn by the caller of the model and passed as \<open>s\<close>.\<close>

definition threshold_sign_kit ::
    "crypto \<Rightarrow> SecretKeySet \<Rightarrow> usize \<Rightarrow> usize \<Rightarrow> (SecretKeySet \<times> PK \<times> (usize \<times> SK) list) exec" where
  "threshold_sign_kit C s n t =
     (if \<not> t \<le> n then Panic AssertFailed
      else Return (s, public_keys C s, map (\<lambda>i. (i, secret_key_share C s i)) [0..<n]))"

subsection \<open>msg.rs\<close>

datatype DeliveryType = Broadcast | Single ReplicaID | Unknown

record Context =
  ctx_from :: ReplicaID
  ctx_to :: DeliveryType
  ctx_view :: ViewNumber

definition Context_new :: "ReplicaID \<Rightarrow> DeliveryType \<Rightarrow> ViewNumber \<Rightarrow> Context" where
  "Context_new f t v = \<lparr>ctx_from = f, ctx_to = t, ctx_view = v\<rparr>"

definition Context_single :: "ReplicaID \<Rightarrow> ReplicaID \<Rightarrow> ViewNumber \<Rightarrow> Context" where
  "Context_single f t v = \<lparr>ctx_from = f, ctx_to = Single t, ctx_view = v\<rparr>"

definition Context_broadcast :: "ReplicaID \<Rightarrow> ViewNumber \<Rightarrow> Context" where
  "Context_broadcast f v = \<lparr>ctx_from = f, ctx_to = Broadcast, ctx_view = v\<rparr>"

definition Context_response :: "ReplicaID \<Rightarrow> ViewNumber \<Rightarrow> Context" where
  "Context_response f v = \<lparr>ctx_from = f, ctx_to = Unknown, ctx_view = v\<rparr>"

definition Context_size :: "Context \<Rightarrow> usize" where
  "Context_size ctx = length (ctx_from ctx) + 8"

subsection \<open>lib.rs: combining and chains\<close>

definition combined_sign_from_vec_u8 :: "crypto \<Rightarrow> u8 list \<Rightarrow> CombinedSign exec" where
  "combined_sign_from_vec_u8 C v =
     (if length v \<noteq> 96 then Panic UnwrapNone
      else exec_of_option UnwrapNone (signature_from_bytes C v))"

definition form_combined_sign :: "crypto \<Rightarrow> TreeNode \<Rightarrow> (usize \<times> SK) list \<Rightarrow> PK \<Rightarrow> CombinedSign exec" where
  "form_combined_sign C node sks pks =
     (let node_bytes = TreeNode_to_be_bytes node;
          signs = map (\<lambda>(i, sk). (i, sk_sign C sk node_bytes)) sks
      in exec_of_option UnwrapNone (combine_signatures C pks signs))"

text \<open>The loop of \<open>form_chain\<close>, from the height, hash and node of the last block built.\<close>

fun form_chain_from ::
    "crypto \<Rightarrow> (usize \<times> SK) list \<Rightarrow> PK \<Rightarrow> u64 \<Rightarrow> NodeHash \<Rightarrow> TreeNode \<Rightarrow> u8 list list
       \<Rightarrow> (NodeHash \<times> TreeNode) list exec" where
  "form_chain_from C sks pks h parent_hash parent_node [] = Return []"
| "form_chain_from C sks pks h parent_hash parent_node (tx # txns) =
     exec_bind (form_combined_sign C parent_node sks pks) (\<lambda>combined_sign.
       let just = GenericQC_new h parent_hash combined_sign;
           (node, nhash) = TreeNode_node_and_hash C [Txn tx] (h + 1) parent_hash just
       in exec_bind (form_chain_from C sks pks (h + 1) nhash node txns) (\<lambda>v.
            Return ((nhash, node) # v)))"

definition form_chain ::
    "crypto \<Rightarrow> u8 list list \<Rightarrow> (usize \<times> SK) list \<Rightarrow> PK \<Rightarrow> (NodeHash \<times> TreeNode) list exec" where
  "form_chain C txns sks pks = form_chain_from C sks pks 0 (INIT_NODE_HASH C) (INIT_NODE C) txns"

subsection \<open>Encodings\<close>

text \<open>
  A value as the source's array types have it: 32-byte hashes, 96-byte signatures.
\<close>

definition qc_wf :: "GenericQC \<Rightarrow> bool" where
  "qc_wf qc \<longleftrightarrow> length (node_hash_bytes (qc_node qc)) = 32
     \<and> length (sign_bytes (qc_combined_sign qc)) = 96"

definition node_wf :: "TreeNode \<Rightarrow> bool" where
  "node_wf n \<longleftrightarrow> qc_wf (justify n) \<and> length (node_hash_bytes (parent n)) = 32"

lemma GenericQC_to_be_bytes_length: "qc_wf qc \<Longrightarrow> length (GenericQC_to_be_bytes qc) = 136"
  by (simp add: GenericQC_to_be_bytes_def qc_wf_def)

lemma GenericQC_to_be_bytes_inject:
  assumes "qc_wf a" and "qc_wf b" and "GenericQC_to_be_bytes a = GenericQC_to_be_bytes b"
  shows "a = b"
  using assms
  by (auto simp: GenericQC_to_be_bytes_def qc_wf_def append_eq_append_conv
      intro!: GenericQC.equality NodeHash.expand CombinedSign.expand)

lemma node_bytes_split:
  assumes "node_wf a" and "node_wf b" and "TreeNode_to_be_bytes a = TreeNode_to_be_bytes b"
  shows "height a = height b" and "justify a = justify b" and "parent a = parent b"
    and "concat (map txn_bytes (txs a)) = concat (map txn_bytes (txs b))"
proof -
  have len: "length (GenericQC_to_be_bytes (justify a)) = length (GenericQC_to_be_bytes (justify b))"
      "length (node_hash_bytes (parent a)) = length (node_hash_bytes (parent b))"
    using assms(1,2) by (simp_all add: node_wf_def GenericQC_to_be_bytes_length)
  have eq: "u64_to_be_bytes (height a) = u64_to_be_bytes (height b)"
      "GenericQC_to_be_bytes (justify a) = GenericQC_to_be_bytes (justify b)"
      "node_hash_bytes (parent a) = node_hash_bytes (parent b)"
      "concat (map txn_bytes (txs a)) = concat (map txn_bytes (txs b))"
    using assms(3) len by (auto simp: TreeNode_to_be_bytes_def append_eq_append_conv)
  show "height a = height b" using eq(1) by simp
  show "justify a = justify b"
    using assms(1,2) eq(2) by (auto simp: node_wf_def intro: GenericQC_to_be_bytes_inject)
  show "parent a = parent b" using eq(3) by (rule NodeHash.expand)
  show "concat (map txn_bytes (txs a)) = concat (map txn_bytes (txs b))" by (rule eq(4))
qed

lemma NodeHash_from_vec_bytes:
  "length v = 32 \<Longrightarrow> NodeHash_from_vec v = NodeHash v"
  by (simp add: NodeHash_from_vec_def)

lemma NodeHash_from_vec_length: "length (node_hash_bytes (NodeHash_from_vec v)) = 32"
  by (simp add: NodeHash_from_vec_def)

subsection \<open>The shape of a chain\<close>

text \<open>
  \<open>linked C p bs\<close>: each block of \<open>bs\<close> has the height after the one before it (the first
  follows \<open>p\<close>), names the hash of the block before it as parent, and carries a
  certificate for that block at its height.
\<close>

fun linked :: "crypto \<Rightarrow> TreeNode \<Rightarrow> TreeNode list \<Rightarrow> bool" where
  "linked C p [] = True"
| "linked C p (b # bs) =
     (height b = height p + 1 \<and> parent b = TreeNode_hash C p
      \<and> qc_node (justify b) = TreeNode_hash C p \<and> qc_view (justify b) = height p
      \<and> linked C b bs)"

lemma form_chain_from_linked:
  "form_chain_from C sks pks (height p) (TreeNode_hash C p) p txns = Return bs
   \<Longrightarrow> linked C p (map snd bs) \<and> map fst bs = map (TreeNode_hash C) (map snd bs)
      \<and> map txs (map snd bs) = map (\<lambda>t. [Txn t]) txns"
proof (induction txns arbitrary: p bs)
  case Nil
  then show ?case by simp
next
  case (Cons tx txns)
  from Cons.prems obtain sg v where
    sg: "form_combined_sign C p sks pks = Return sg"
    and v: "form_chain_from C sks pks (height p + 1)
        (TreeNode_hash C \<lparr>height = height p + 1, txs = [Txn tx], parent = TreeNode_hash C p,
           justify = GenericQC_new (height p) (TreeNode_hash C p) sg\<rparr>)
        \<lparr>height = height p + 1, txs = [Txn tx], parent = TreeNode_hash C p,
           justify = GenericQC_new (height p) (TreeNode_hash C p) sg\<rparr> txns = Return v"
    and bs: "bs = (TreeNode_hash C \<lparr>height = height p + 1, txs = [Txn tx], parent = TreeNode_hash C p,
           justify = GenericQC_new (height p) (TreeNode_hash C p) sg\<rparr>,
        \<lparr>height = height p + 1, txs = [Txn tx], parent = TreeNode_hash C p,
           justify = GenericQC_new (height p) (TreeNode_hash C p) sg\<rparr>) # v"
    by (auto simp: exec_bind_eq_Return TreeNode_node_and_hash_def Let_def)
  let ?b = "\<lparr>height = height p + 1, txs = [Txn tx], parent = TreeNode_hash C p,
      justify = GenericQC_new (height p) (TreeNode_hash C p) sg\<rparr>"
  have "linked C ?b (map snd v) \<and> map fst v = map (TreeNode_hash C) (map snd v)
      \<and> map txs (map snd v) = map (\<lambda>t. [Txn t]) txns"
    using Cons.IH [of ?b v] v by simp
  then show ?case by (simp add: bs GenericQC_new_def)
qed

lemma INIT_NODE_simps [simp]:
  "height (INIT_NODE C) = 0" "txs (INIT_NODE C) = []" "parent (INIT_NODE C) = NodeHash_genesis"
  "justify (INIT_NODE C) = zeroed_qc C"
  by (simp_all add: INIT_NODE_def)

lemma INIT_QC_simps [simp]:
  "qc_view (INIT_QC C) = 0" "qc_node (INIT_QC C) = TreeNode_hash C (INIT_NODE C)"
  "qc_combined_sign (INIT_QC C) = zeroed_sign C"
  by (simp_all add: INIT_QC_def INIT_NODE_HASH_def)

lemma GenericQC_new_simps [simp]:
  "qc_view (GenericQC_new v n s) = v" "qc_node (GenericQC_new v n s) = n"
  "qc_combined_sign (GenericQC_new v n s) = s"
  by (simp_all add: GenericQC_new_def)

lemma Context_simps [simp]:
  "ctx_from (Context_single f t v) = f" "ctx_to (Context_single f t v) = Single t"
  "ctx_view (Context_single f t v) = v" "ctx_from (Context_broadcast f v) = f"
  "ctx_to (Context_broadcast f v) = Broadcast" "ctx_view (Context_broadcast f v) = v"
  by (simp_all add: Context_single_def Context_broadcast_def)

end
