(* ===== verification/CryptoKit.thy ===== *)
theory CryptoKit
  imports HsData
begin

section \<open>cryptokit: signing and checking votes and certificates\<close>

text \<open>
  The crate \<^verbatim>\<open>cryptokit\<close>: \<open>DefaultSignaturer\<close>, the only implementation of the trait
  \<open>Signaturer\<close>, over the functions of \<open>crypto\<close>.

  What the protocol relies on of the threshold scheme is stated as predicates on \<open>crypto\<close>,
  used as hypotheses where a theorem needs them: \<open>share_sound\<close> (a share made with a key of the
  set verifies under its index) and \<open>combine_sound\<close> (more than \<open>t\<close> valid shares of distinct
  indices combine, and the result verifies under the set's public key), which is what the
  documentation of \<^verbatim>\<open>threshold_crypto\<close> promises for a key set of threshold \<open>t\<close>.
\<close>

datatype SignErr = InsufficientSigns usize usize

record DefaultSignaturer =
  sg_sign_id :: SignID
  sg_pks :: PK
  sg_sks :: SK

definition DefaultSignaturer_new :: "usize \<Rightarrow> PK \<Rightarrow> SK \<Rightarrow> DefaultSignaturer" where
  "DefaultSignaturer_new i pks sks = \<lparr>sg_sign_id = i, sg_pks = pks, sg_sks = sks\<rparr>"

text \<open>The signaturer that belongs to a share of a key set.\<close>

definition key_of :: "crypto \<Rightarrow> SecretKeySet \<Rightarrow> usize \<Rightarrow> DefaultSignaturer" where
  "key_of C s i = DefaultSignaturer_new i (public_keys C s) (secret_key_share C s i)"

definition signaturer_sign :: "crypto \<Rightarrow> DefaultSignaturer \<Rightarrow> TreeNode \<Rightarrow> SignKit" where
  "signaturer_sign C sg node =
     SignKit_new (sg_sign_id sg) (sk_sign C (sg_sks sg) (TreeNode_to_be_bytes node))"

definition signaturer_combine_partial_sign ::
    "crypto \<Rightarrow> DefaultSignaturer \<Rightarrow> SignKit list \<Rightarrow> SignErr + CombinedSign" where
  "signaturer_combine_partial_sign C sg partial_signs =
     (let voters = map (\<lambda>kit. (sk_sign_id kit, sk_sign_of kit)) partial_signs;
          voter_num = length voters
      in case combine_signatures C (sg_pks sg) voters of
           Some s \<Rightarrow> Inr s
         | None \<Rightarrow> Inl (InsufficientSigns (pks_threshold C (sg_pks sg)) voter_num))"

definition signaturer_validate_vote :: "crypto \<Rightarrow> DefaultSignaturer \<Rightarrow> TreeNode \<Rightarrow> SignKit \<Rightarrow> bool" where
  "signaturer_validate_vote C sg prop vote =
     share_verify C (sg_pks sg) (sk_sign_id vote) (sk_sign_of vote) (TreeNode_to_be_bytes prop)"

definition signaturer_validate_qc :: "crypto \<Rightarrow> DefaultSignaturer \<Rightarrow> TreeNode \<Rightarrow> CombinedSign \<Rightarrow> bool" where
  "signaturer_validate_qc C sg qcn combined_sign =
     combined_verify C (sg_pks sg) combined_sign (TreeNode_to_be_bytes qcn)"

subsection \<open>What threshold signatures promise\<close>

definition share_sound :: "crypto \<Rightarrow> SecretKeySet \<Rightarrow> bool" where
  "share_sound C s \<longleftrightarrow>
     (\<forall>i m. share_verify C (public_keys C s) i (sk_sign C (secret_key_share C s i) m) m)"

definition combine_sound :: "crypto \<Rightarrow> PK \<Rightarrow> bool" where
  "combine_sound C pks \<longleftrightarrow>
     (\<forall>m shares. distinct (map fst shares) \<and> pks_threshold C pks < length shares
        \<and> (\<forall>(i, sh) \<in> set shares. share_verify C pks i sh m)
        \<longrightarrow> (\<exists>sg. combine_signatures C pks shares = Some sg \<and> combined_verify C pks sg m))"

text \<open>A signer's own vote passes its check, and a quorum of checked votes yields a valid certificate.\<close>

lemma own_vote_valid:
  assumes "share_sound C s"
    and "sg = DefaultSignaturer_new i (public_keys C s) (secret_key_share C s i)"
  shows "signaturer_validate_vote C sg node (signaturer_sign C sg node)"
  using assms by (simp add: share_sound_def signaturer_validate_vote_def signaturer_sign_def
      DefaultSignaturer_new_def SignKit_new_def)

lemma quorum_of_votes_valid:
  assumes "combine_sound C (sg_pks sg)"
    and "distinct (map sk_sign_id kits)"
    and "pks_threshold C (sg_pks sg) < length kits"
    and "\<And>kit. kit \<in> set kits \<Longrightarrow> signaturer_validate_vote C sg node kit"
  shows "\<exists>s. signaturer_combine_partial_sign C sg kits = Inr s \<and> signaturer_validate_qc C sg node s"
proof -
  let ?shares = "map (\<lambda>kit. (sk_sign_id kit, sk_sign_of kit)) kits"
  have "distinct (map fst ?shares)" using assms(2) by (simp add: comp_def)
  moreover have "\<forall>(i, sh) \<in> set ?shares.
      share_verify C (sg_pks sg) i sh (TreeNode_to_be_bytes node)"
    using assms(4) by (auto simp: signaturer_validate_vote_def)
  ultimately obtain s where "combine_signatures C (sg_pks sg) ?shares = Some s"
      and "combined_verify C (sg_pks sg) s (TreeNode_to_be_bytes node)"
    using assms(1,3) unfolding combine_sound_def by fastforce
  then show ?thesis
    by (simp add: signaturer_combine_partial_sign_def signaturer_validate_qc_def)
qed

text \<open>The blocks of \<open>form_chain\<close> carry certificates that verify.\<close>

fun certified :: "crypto \<Rightarrow> PK \<Rightarrow> TreeNode \<Rightarrow> TreeNode list \<Rightarrow> bool" where
  "certified C pks p [] = True"
| "certified C pks p (b # bs) =
     (combined_verify C pks (qc_combined_sign (justify b)) (TreeNode_to_be_bytes p)
      \<and> certified C pks b bs)"

lemma form_combined_sign_sound:
  assumes "combine_sound C (public_keys C s)" and "share_sound C s"
    and "pks_threshold C (public_keys C s) < n"
  shows "\<exists>sg. form_combined_sign C node (map (\<lambda>i. (i, secret_key_share C s i)) [0..<n])
          (public_keys C s) = Return sg
      \<and> combined_verify C (public_keys C s) sg (TreeNode_to_be_bytes node)"
proof -
  let ?m = "TreeNode_to_be_bytes node"
  let ?shares = "map (\<lambda>i. (i, sk_sign C (secret_key_share C s i) ?m)) [0..<n]"
  have "distinct (map fst ?shares)" and "pks_threshold C (public_keys C s) < length ?shares"
    using assms(3) by (simp_all add: comp_def)
  moreover have "\<forall>(i, sh) \<in> set ?shares. share_verify C (public_keys C s) i sh ?m"
    using assms(2) by (auto simp: share_sound_def)
  ultimately obtain sg where "combine_signatures C (public_keys C s) ?shares = Some sg"
      and "combined_verify C (public_keys C s) sg ?m"
    using assms(1) unfolding combine_sound_def by blast
  then show ?thesis by (simp add: form_combined_sign_def comp_def)
qed

lemma form_chain_from_total:
  assumes "combine_sound C (public_keys C s)" and "share_sound C s"
    and "pks_threshold C (public_keys C s) < n"
  shows "\<exists>bs. form_chain_from C (map (\<lambda>i. (i, secret_key_share C s i)) [0..<n])
        (public_keys C s) h ph p txns = Return bs \<and> certified C (public_keys C s) p (map snd bs)"
proof (induction txns arbitrary: h ph p)
  case Nil
  then show ?case by simp
next
  case (Cons tx txns)
  obtain sg where sg: "form_combined_sign C p (map (\<lambda>i. (i, secret_key_share C s i)) [0..<n])
          (public_keys C s) = Return sg"
      "combined_verify C (public_keys C s) sg (TreeNode_to_be_bytes p)"
    using form_combined_sign_sound [OF assms] by blast
  let ?b = "\<lparr>height = h + 1, txs = [Txn tx], parent = ph, justify = GenericQC_new h ph sg\<rparr>"
  obtain bs where "form_chain_from C (map (\<lambda>i. (i, secret_key_share C s i)) [0..<n])
        (public_keys C s) (h + 1) (TreeNode_hash C ?b) ?b txns = Return bs"
      "certified C (public_keys C s) ?b (map snd bs)"
    using Cons.IH by blast
  with sg show ?case by (simp add: TreeNode_node_and_hash_def Let_def)
qed

end
