(* ===== verification/ToyCrypto.thy ===== *)
theory ToyCrypto
  imports CryptoKit
begin

section \<open>A concrete instance of the external functions\<close>

text \<open>
  \<open>toy\<close> instantiates the parameter \<open>crypto\<close> by small executable functions: the digest of a
  proposal is its height, a share is the key followed by the message, and a combined signature
  is derived from the first eight bytes of the message. It is no secure scheme; it meets the
  hypotheses on \<open>crypto\<close> that the properties make, and the examples of the development run on it.
\<close>

definition toy_digest :: "u8 list \<Rightarrow> u8 list" where
  "toy_digest bs = replicate 24 1 @ take 8 (drop (length bs - 40) bs)"

fun toy_combine :: "PK \<Rightarrow> (usize \<times> Sign) list \<Rightarrow> CombinedSign option" where
  "toy_combine (PK b) shares =
     (if 2 < length shares
      then (case shares of
              (i, Sign x) # _ \<Rightarrow> Some (CombinedSign (replicate 88 1 @ take 8 (drop (Suc (length b)) x)))
            | [] \<Rightarrow> None)
      else None)"

fun toy_share_verify :: "PK \<Rightarrow> usize \<Rightarrow> Sign \<Rightarrow> u8 list \<Rightarrow> bool" where
  "toy_share_verify (PK b) i (Sign x) m = (x = b @ [word_of_nat i] @ m)"

fun toy_sk_sign :: "SK \<Rightarrow> u8 list \<Rightarrow> Sign" where
  "toy_sk_sign (SK k) m = Sign (k @ m)"

fun toy_secret_key_share :: "SecretKeySet \<Rightarrow> usize \<Rightarrow> SK" where
  "toy_secret_key_share (SecretKeySet b) i = SK (b @ [word_of_nat i])"

fun toy_public_keys :: "SecretKeySet \<Rightarrow> PK" where
  "toy_public_keys (SecretKeySet b) = PK b"

definition toy :: crypto where
  "toy = \<lparr>sha256 = toy_digest, secret_key_share = toy_secret_key_share,
     public_keys = toy_public_keys, sk_sign = toy_sk_sign, share_verify = toy_share_verify,
     combined_verify = (\<lambda>_ s m. s = CombinedSign (replicate 88 1 @ take 8 m)),
     combine_signatures = toy_combine, pks_threshold = (\<lambda>_. 2),
     signature_from_bytes = (\<lambda>v. if length v = 96 then Some (CombinedSign v) else None),
     zeroed_sign = CombinedSign (replicate 96 0)\<rparr>"

definition toy_keys :: SecretKeySet where
  "toy_keys = SecretKeySet [7]"

definition toy_signaturer :: "usize \<Rightarrow> DefaultSignaturer" where
  "toy_signaturer i = DefaultSignaturer_new i (public_keys toy toy_keys) (secret_key_share toy toy_keys i)"

lemma toy_simps [simp]:
  "sha256 toy = toy_digest" "secret_key_share toy = toy_secret_key_share"
  "public_keys toy = toy_public_keys" "sk_sign toy = toy_sk_sign"
  "share_verify toy = toy_share_verify"
  "combined_verify toy pks s m \<longleftrightarrow> s = CombinedSign (replicate 88 1 @ take 8 m)"
  "combine_signatures toy = toy_combine" "pks_threshold toy pks = 2"
  "zeroed_sign toy = CombinedSign (replicate 96 0)"
  by (simp_all add: toy_def)

lemma toy_share_sound: "share_sound toy s"
  by (cases s) (simp add: share_sound_def)

lemma toy_combine_sound: "combine_sound toy pks"
proof -
  have "\<exists>sg. toy_combine pks shares = Some sg \<and> sg = CombinedSign (replicate 88 1 @ take 8 m)"
    if len: "2 < length shares" and ver: "\<forall>(i, sh) \<in> set shares. toy_share_verify pks i sh m" for m shares
  proof -
    obtain b where pks: "pks = PK b" by (cases pks)
    obtain i sh rest where shares: "shares = (i, sh) # rest"
      using len by (cases shares) auto
    obtain x where sh: "sh = Sign x" by (cases sh)
    have "x = b @ [word_of_nat i] @ m" using ver by (simp add: shares sh pks)
    then show ?thesis using len by (simp add: pks shares sh)
  qed
  then show ?thesis by (simp add: combine_sound_def)
qed

lemma toy_hash:
  assumes "length (node_hash_bytes (parent n)) = 32"
  shows "TreeNode_hash toy n = NodeHash (replicate 24 1 @ u64_to_be_bytes (height n))"
proof -
  have "length (TreeNode_preimage n) - 40 = length (concat (map txn_bytes (txs n)))"
    using assms by (simp add: TreeNode_preimage_def)
  then show ?thesis by (simp add: TreeNode_hash_def toy_digest_def TreeNode_preimage_def)
qed

lemma toy_hash_inject:
  "length (node_hash_bytes (parent a)) = 32 \<Longrightarrow> length (node_hash_bytes (parent b)) = 32
   \<Longrightarrow> TreeNode_hash toy a = TreeNode_hash toy b \<longleftrightarrow> height a = height b"
  by (simp add: toy_hash)

text \<open>A short honest chain over the initial node.\<close>

definition toy_block :: "u64 \<Rightarrow> NodeHash \<Rightarrow> u64 \<Rightarrow> TreeNode" where
  "toy_block h par jh =
     \<lparr>height = h, txs = [Txn [ucast h]], parent = par,
      justify = \<lparr>qc_view = jh, qc_node = par,
        qc_combined_sign = CombinedSign (replicate 88 1 @ u64_to_be_bytes jh)\<rparr>\<rparr>"

definition toy_hash_of :: "u64 \<Rightarrow> NodeHash" where
  "toy_hash_of h = NodeHash (replicate 24 1 @ u64_to_be_bytes h)"

lemma toy_hash_of_length [simp]: "length (node_hash_bytes (toy_hash_of h)) = 32"
  by (simp add: toy_hash_of_def)

lemma toy_hash_of_inject [simp]: "toy_hash_of h = toy_hash_of k \<longleftrightarrow> h = k"
  by (simp add: toy_hash_of_def)

lemma toy_block_hash [simp]:
  "length (node_hash_bytes par) = 32 \<Longrightarrow> TreeNode_hash toy (toy_block h par jh) = toy_hash_of h"
  by (simp add: toy_hash toy_block_def toy_hash_of_def)

lemma toy_init_hash_of [simp]: "TreeNode_hash toy (INIT_NODE toy) = toy_hash_of 0"
  by (simp add: toy_hash toy_hash_of_def NodeHash_genesis_def)

lemma toy_hash_of_special [simp]:
  "NodeHash_genesis \<noteq> toy_hash_of h" "zeroed_node_hash \<noteq> toy_hash_of h"
proof -
  have "hd (node_hash_bytes (toy_hash_of h)) = 1"
    by (simp add: toy_hash_of_def hd_append)
  moreover have "hd (node_hash_bytes NodeHash_genesis) = 0xAB" "hd (node_hash_bytes zeroed_node_hash) = 0"
    by (simp_all add: NodeHash_genesis_def zeroed_node_hash_def)
  ultimately show "NodeHash_genesis \<noteq> toy_hash_of h" "zeroed_node_hash \<noteq> toy_hash_of h"
    by auto
qed

lemma toy_block_simps [simp]:
  "height (toy_block h par jh) = h" "parent (toy_block h par jh) = par"
  "qc_node (justify (toy_block h par jh)) = par" "qc_view (justify (toy_block h par jh)) = jh"
  by (simp_all add: toy_block_def)

text \<open>On the example scheme every chain is free of collisions: a hash is a height.\<close>

lemma toy_linked_hashes:
  "linked toy p bs \<Longrightarrow> length (node_hash_bytes (parent p)) = 32 \<Longrightarrow> TreeNode_hash toy p = toy_hash_of (height p)
   \<Longrightarrow> map (TreeNode_hash toy) bs = map (\<lambda>k. toy_hash_of (height p + 1 + of_nat k)) [0..<length bs]"
proof (induction bs arbitrary: p)
  case (Cons b bs)
  then have "length (node_hash_bytes (parent b)) = 32" "height b = height p + 1" by simp_all
  moreover from this have "TreeNode_hash toy b = toy_hash_of (height b)" by (simp add: toy_hash toy_hash_of_def)
  ultimately show ?case
    using Cons.IH [of b] Cons.prems(1)
    by (simp add: upt_conv_Cons map_Suc_upt [symmetric] comp_def add.assoc del: upt_Suc)
qed simp

end
