(* ===== verification/Voter.thy ===== *)
theory Voter
  imports CryptoKit
begin

section \<open>hotstuff-rs, voter.rs: collecting votes\<close>

text \<open>
  \<open>Voter\<close> keeps, per height, the votes received, at most one per replica, and combines them
  into a certificate once there are more than \<open>threshold\<close> of them. The lemmas show the effect
  of every operation, that the votes counted are votes of different replicas, and that any two
  quorums of \<open>threshold n + 1\<close> out of \<open>n\<close> replicas share more replicas than may be faulty.
\<close>

datatype VoteErr =
    DuplicateVote ReplicaID
  | IncompatibleVote ReplicaID ViewNumber
  | RoundDecided ViewNumber
  | InsufficientVotes usize usize

record Voter =
  vt_view :: ViewNumber
  vt_signature :: DefaultSignaturer
  vt_threshold :: usize
  vt_voting_set :: "(ViewNumber, (ReplicaID, SignKit) hash_map) btree_map"
  vt_vote_decided :: bool

definition Voter_new :: "usize \<Rightarrow> DefaultSignaturer \<Rightarrow> Voter" where
  "Voter_new threshold signature =
     \<lparr>vt_view = 0, vt_signature = signature, vt_threshold = threshold, vt_voting_set = [],
      vt_vote_decided = False\<rparr>"

definition voter_sign :: "crypto \<Rightarrow> Voter \<Rightarrow> TreeNode \<Rightarrow> SignKit" where
  "voter_sign C vt node = signaturer_sign C (vt_signature vt) node"

definition vote_set_size :: "ViewNumber \<Rightarrow> Voter \<Rightarrow> usize" where
  "vote_set_size view vt =
     (case bt_get view (vt_voting_set vt) of None \<Rightarrow> 0 | Some x \<Rightarrow> length x)"

definition voter_decide :: "Voter \<Rightarrow> Voter" where
  "voter_decide vt = vt\<lparr>vt_vote_decided := True\<rparr>"

definition voter_combine_partial_sign ::
    "crypto \<Rightarrow> ViewNumber \<Rightarrow> Voter \<Rightarrow> (Voter \<times> (VoteErr + CombinedSign)) exec" where
  "voter_combine_partial_sign C view vt =
     (if vote_set_size view vt \<le> vt_threshold vt
      then Return (vt, Inl (InsufficientVotes (vt_threshold vt + 1) (vote_set_size view vt)))
      else
        (let vt1 = voter_decide vt
         in case bt_get view (vt_voting_set vt1) of
              None \<Rightarrow> Panic UnwrapNone
            | Some votes \<Rightarrow>
                (let res = (case signaturer_combine_partial_sign C (vt_signature vt1) (hm_values votes) of
                              Inr s \<Rightarrow> Inr s
                            | Inl (InsufficientSigns n m) \<Rightarrow> Inl (InsufficientVotes n m))
                 in Return (vt1\<lparr>vt_voting_set := bt_remove view (vt_voting_set vt1)\<rparr>, res))))"

definition voter_validate_vote :: "crypto \<Rightarrow> Voter \<Rightarrow> TreeNode \<Rightarrow> SignKit \<Rightarrow> bool" where
  "voter_validate_vote C vt prop vote = signaturer_validate_vote C (vt_signature vt) prop vote"

definition voter_validate_qc :: "crypto \<Rightarrow> Voter \<Rightarrow> TreeNode \<Rightarrow> CombinedSign \<Rightarrow> bool" where
  "voter_validate_qc C vt qcn combined_sign =
     signaturer_validate_qc C (vt_signature vt) qcn combined_sign"

definition voter_reset :: "ViewNumber \<Rightarrow> Voter \<Rightarrow> Voter" where
  "voter_reset new_view vt =
     vt\<lparr>vt_view := new_view, vt_voting_set := [], vt_vote_decided := False\<rparr>"

definition add_vote :: "Context \<Rightarrow> ViewNumber \<Rightarrow> SignKit \<Rightarrow> Voter \<Rightarrow> Voter \<times> (VoteErr + unit)" where
  "add_vote ctx view sign vt =
     (let (votes, m) = bt_entry_or view [] (vt_voting_set vt);
          vt1 = vt\<lparr>vt_voting_set := bt_insert view (hm_insert (ctx_from ctx) sign votes) m\<rparr>
      in case hm_get (ctx_from ctx) votes of
           None \<Rightarrow> (vt1, Inr ())
         | Some _ \<Rightarrow> (vt1, Inl (DuplicateVote (ctx_from ctx))))"

subsection \<open>The invariant: one vote per replica and height\<close>

definition voter_wf :: "Voter \<Rightarrow> bool" where
  "voter_wf vt \<longleftrightarrow> bt_wf (vt_voting_set vt) \<and> (\<forall>(v, votes) \<in> set (vt_voting_set vt). hm_wf votes)"

text \<open>The votes held for a height, no votes being the empty map.\<close>

definition votes_at :: "ViewNumber \<Rightarrow> Voter \<Rightarrow> (ReplicaID, SignKit) hash_map" where
  "votes_at v vt = (case bt_get v (vt_voting_set vt) of None \<Rightarrow> [] | Some x \<Rightarrow> x)"

lemma vote_set_size_votes_at: "vote_set_size v vt = length (votes_at v vt)"
  by (simp add: vote_set_size_def votes_at_def split: option.splits)

lemma voter_wf_new [intro]: "voter_wf (Voter_new t sg)"
  by (simp add: voter_wf_def Voter_new_def)

lemma votes_at_wf: "voter_wf vt \<Longrightarrow> hm_wf (votes_at v vt)"
  by (auto simp: votes_at_def voter_wf_def bt_get_def split: option.splits dest: map_of_SomeD)

lemma bt_entry_or_bt_insert [simp]:
  "bt_insert k w (snd (bt_entry_or k d m)) =
     bt_insert k w (case bt_get k m of None \<Rightarrow> bt_insert k d m | Some _ \<Rightarrow> m)"
  by (simp add: bt_entry_or_def split: option.splits)

lemma set_bt_insert: "set (bt_insert k v m) \<subseteq> insert (k, v) (set m)"
  by (induction k v m rule: bt_insert.induct) auto

lemma add_vote_votes_at:
  "votes_at v (fst (add_vote ctx view sign vt)) =
     (if v = view then hm_insert (ctx_from ctx) sign (votes_at view vt) else votes_at v vt)"
  by (auto simp: add_vote_def votes_at_def bt_entry_or_def map_simps Let_def split: option.splits)

lemma add_vote_result:
  "snd (add_vote ctx view sign vt) =
     (if hm_get (ctx_from ctx) (votes_at view vt) = None then Inr ()
      else Inl (DuplicateVote (ctx_from ctx)))"
  by (auto simp: add_vote_def votes_at_def bt_entry_or_def Let_def split: option.splits)

lemma add_vote_frame [frame_simps]:
  "vt_signature (fst (add_vote ctx v s vt)) = vt_signature vt"
  "vt_threshold (fst (add_vote ctx v s vt)) = vt_threshold vt"
  "vt_view (fst (add_vote ctx v s vt)) = vt_view vt"
  "vt_vote_decided (fst (add_vote ctx v s vt)) = vt_vote_decided vt"
  by (simp_all add: add_vote_def Let_def split: option.splits prod.splits)

lemma add_vote_voting_set:
  "vt_voting_set (fst (add_vote ctx v s vt)) =
     bt_insert v (hm_insert (ctx_from ctx) s (votes_at v vt))
       (case bt_get v (vt_voting_set vt) of None \<Rightarrow> bt_insert v [] (vt_voting_set vt)
        | Some _ \<Rightarrow> vt_voting_set vt)"
  by (simp add: add_vote_def votes_at_def bt_entry_or_def Let_def split: option.splits)

lemma bt_insert_valuesD: "(a, b) \<in> set (bt_insert j v m) \<Longrightarrow> b = v \<or> (a, b) \<in> set m"
  using set_bt_insert [of j v m] by blast

lemma voter_wf_add_vote [intro]:
  assumes "voter_wf vt"
  shows "voter_wf (fst (add_vote ctx v s vt))"
proof -
  have "hm_wf (hm_insert (ctx_from ctx) s (votes_at v vt))"
    using assms by (intro hm_wf_insert votes_at_wf)
  then show ?thesis
    using assms unfolding voter_wf_def add_vote_voting_set
    by (auto intro!: bt_wf_insert dest!: bt_insert_valuesD split: option.splits)
qed

lemma voter_wf_reset [intro]: "voter_wf (voter_reset v vt)"
  by (simp add: voter_reset_def voter_wf_def)

lemma voter_wf_combine:
  "voter_wf vt \<Longrightarrow> voter_combine_partial_sign C v vt = Return (vt', r) \<Longrightarrow> voter_wf vt'"
  by (auto simp: voter_combine_partial_sign_def voter_wf_def voter_decide_def bt_remove_def
      bt_wf_filter Let_def split: if_splits option.splits)

lemma voter_combine_no_panic: "\<exists>r. voter_combine_partial_sign C v vt = Return r"
  by (auto simp: voter_combine_partial_sign_def vote_set_size_def voter_decide_def Let_def
      split: option.splits)

lemma voter_combine_frame [frame_simps]:
  assumes "voter_combine_partial_sign C v vt = Return (vt', r)"
  shows "vt_signature vt' = vt_signature vt" "vt_threshold vt' = vt_threshold vt"
    "vt_view vt' = vt_view vt"
  using assms
  by (auto simp: voter_combine_partial_sign_def voter_decide_def Let_def
      split: if_splits option.splits)

text \<open>More than \<open>threshold\<close> votes: they are combined and that height's votes are dropped.\<close>

lemma voter_combine_quorum:
  assumes "vt_threshold vt < vote_set_size v vt"
  shows "voter_combine_partial_sign C v vt =
    Return (vt\<lparr>vt_vote_decided := True, vt_voting_set := bt_remove v (vt_voting_set vt)\<rparr>,
      case signaturer_combine_partial_sign C (vt_signature vt) (hm_values (votes_at v vt)) of
        Inr s \<Rightarrow> Inr s | Inl (InsufficientSigns n m) \<Rightarrow> Inl (InsufficientVotes n m))"
  using assms
  by (auto simp: voter_combine_partial_sign_def vote_set_size_def votes_at_def voter_decide_def
      Let_def split: option.splits)

lemma voter_combine_short:
  assumes "vote_set_size v vt \<le> vt_threshold vt"
  shows "voter_combine_partial_sign C v vt =
    Return (vt, Inl (InsufficientVotes (vt_threshold vt + 1) (vote_set_size v vt)))"
  using assms by (simp add: voter_combine_partial_sign_def)

subsection \<open>Quorums\<close>

text \<open>\<open>(total << 1) / 3\<close> on a 64-bit \<open>usize\<close>.\<close>

definition bft_threshold :: "usize \<Rightarrow> usize" where
  "bft_threshold n = (n * 2) mod 2 ^ 64 div 3"

lemma bft_threshold_le: "bft_threshold n \<le> n"
proof -
  have "bft_threshold n \<le> (n * 2) div 3"
    unfolding bft_threshold_def by (rule div_le_mono) (rule mod_less_eq_dividend)
  then show ?thesis by simp
qed

lemma bft_threshold_small: "n < 2 ^ 63 \<Longrightarrow> bft_threshold n = 2 * n div 3"
  by (simp add: bft_threshold_def mult.commute)

text \<open>The locale of a quorum system over the replicas, with its consequence for two quorums.\<close>

locale byzantine_quorum =
  fixes quorum :: "'r set \<Rightarrow> 'r set \<Rightarrow> bool" \<comment> \<open>\<open>quorum R Q\<close>: \<open>Q\<close> is a quorum of the replicas \<open>R\<close>\<close>
    and faulty_max :: "nat \<Rightarrow> nat" \<comment> \<open>how many of \<open>n\<close> replicas may be faulty\<close>
  assumes quorum_sub: "quorum R Q \<Longrightarrow> Q \<subseteq> R"
    and quorum_large: "finite R \<Longrightarrow> R \<noteq> {} \<Longrightarrow> card R < 2 ^ 63 \<Longrightarrow> quorum R Q
        \<Longrightarrow> card R + faulty_max (card R) < 2 * card Q"
begin

lemma quorums_meet_honest:
  assumes "finite R" and "R \<noteq> {}" and "card R < 2 ^ 63" and "quorum R A" and "quorum R B"
    and "card F \<le> faulty_max (card R)"
    and "finite F"
  shows "\<exists>r. r \<in> A \<and> r \<in> B \<and> r \<notin> F"
proof -
  have fin: "finite A" "finite B"
    using assms(1,4,5) quorum_sub by (meson finite_subset)+
  have "card (A \<union> B) \<le> card R"
    using assms(1,4,5) quorum_sub by (meson Un_least card_mono)
  moreover have "card A + card B = card (A \<union> B) + card (A \<inter> B)"
    using fin by (rule card_Un_Int)
  moreover have "card R + faulty_max (card R) < 2 * card A"
    and "card R + faulty_max (card R) < 2 * card B"
    using assms quorum_large by blast+
  ultimately have "faulty_max (card R) < card (A \<inter> B)" by linarith
  with assms(6) have "\<not> A \<inter> B \<subseteq> F"
    using card_mono [OF assms(7)] by (meson leD le_trans)
  then show ?thesis by blast
qed

end

definition voter_quorum :: "ReplicaID set \<Rightarrow> ReplicaID set \<Rightarrow> bool" where
  "voter_quorum R Q \<longleftrightarrow> Q \<subseteq> R \<and> bft_threshold (card R) < card Q"

interpretation vq: byzantine_quorum voter_quorum "\<lambda>n. (n - 1) div 3"
proof
  fix R Q :: "ReplicaID set"
  show "voter_quorum R Q \<Longrightarrow> Q \<subseteq> R" by (simp add: voter_quorum_def)
next
  fix R Q :: "ReplicaID set"
  assume "finite R" and "R \<noteq> {}" and "card R < 2 ^ 63" and "voter_quorum R Q"
  then have "0 < card R" and "2 * card R div 3 < card Q"
    by (auto simp: voter_quorum_def bft_threshold_small card_gt_0_iff)
  then show "card R + (card R - 1) div 3 < 2 * card Q" by linarith
qed

end
