(* ===== verification/DataProps.thy ===== *)
theory DataProps
  imports ToyCrypto Voter
begin

section \<open>hs-data and cryptokit: what is signed, and chains\<close>

text \<open>
  The properties of the data crates that the protocol rests on: which content a signature
  fixes, and that the chain builder \<open>form_chain\<close> yields a chain that the replicas accept.
\<close>

text \<open>The signed bytes fix a proposal up to the boundaries between its transactions: two
  well-formed proposals with the same signed bytes have the same height, certificate and parent,
  the same concatenated transactions, and therefore the same hash; and they are equal if
  their transactions have the same lengths.\<close>

lemma signed_bytes_bind_content:
  assumes "node_wf a" and "node_wf b" and "TreeNode_to_be_bytes a = TreeNode_to_be_bytes b"
  shows "height a = height b \<and> justify a = justify b \<and> parent a = parent b
    \<and> TreeNode_hash C a = TreeNode_hash C b
    \<and> (map (length \<circ> txn_bytes) (txs a) = map (length \<circ> txn_bytes) (txs b) \<longrightarrow> a = b)"
proof -
  note eq = node_bytes_split [OF assms]
  have "txs a = txs b" if "map (length \<circ> txn_bytes) (txs a) = map (length \<circ> txn_bytes) (txs b)"
  proof -
    have "map txn_bytes (txs a) = map txn_bytes (txs b)"
    proof (rule concat_injective [OF eq(4)])
      show "length (map txn_bytes (txs a)) = length (map txn_bytes (txs b))"
        using arg_cong [OF that, of length] by simp
      show "\<forall>(x, y) \<in> set (zip (map txn_bytes (txs a)) (map txn_bytes (txs b))). length x = length y"
        using that by (auto simp: list_eq_iff_nth_eq set_zip)
    qed
    then show ?thesis by (metis list.inj_map_strong Txn.expand)
  qed
  then show ?thesis
    using eq by (simp add: TreeNode_hash_def TreeNode_preimage_def)
qed

lemma signed_bytes_bind_content_example:
  "TreeNode_hash toy (toy_block 2 (toy_hash_of 1) 1) = TreeNode_hash toy
     (TreeNode_new [Txn [], Txn [2]] 2 (toy_hash_of 1) (justify (toy_block 2 (toy_hash_of 1) 1)))"
  using signed_bytes_bind_content [of "toy_block 2 (toy_hash_of 1) 1"
      "TreeNode_new [Txn [], Txn [2]] 2 (toy_hash_of 1) (justify (toy_block 2 (toy_hash_of 1) 1))" toy]
  by (simp add: node_wf_def qc_wf_def TreeNode_new_def TreeNode_to_be_bytes_def toy_block_def)

text \<open>\<open>form_chain\<close> is total and right. With the key shares of a key set of threshold below
  the number of replicas, for every list of transactions it returns one block per transaction, in order, each under its
  own hash, linked over the initial node by height, parent and certificate, and every certificate verifies.\<close>

lemma form_chain_correct:
  assumes "combine_sound C (public_keys C s)" and "share_sound C s" and "pks_threshold C (public_keys C s) < n"
    and "threshold_sign_kit C s n t = Return (s', pks, sks)"
  shows "\<exists>bs. form_chain C txns sks pks = Return bs \<and> length bs = length txns
    \<and> linked C (INIT_NODE C) (map snd bs) \<and> certified C pks (INIT_NODE C) (map snd bs)
    \<and> map fst bs = map (TreeNode_hash C \<circ> snd) bs \<and> map (txs \<circ> snd) bs = map (\<lambda>t. [Txn t]) txns"
proof -
  have keys: "pks = public_keys C s" "sks = map (\<lambda>i. (i, secret_key_share C s i)) [0..<n]"
    using assms(4) by (auto simp: threshold_sign_kit_def split: if_splits)
  obtain bs where bs: "form_chain C txns sks pks = Return bs" "certified C pks (INIT_NODE C) (map snd bs)"
    using form_chain_from_total [OF assms(1-3), of 0 "INIT_NODE_HASH C" "INIT_NODE C" txns]
    by (auto simp: form_chain_def keys)
  have "linked C (INIT_NODE C) (map snd bs) \<and> map fst bs = map (TreeNode_hash C) (map snd bs)
      \<and> map txs (map snd bs) = map (\<lambda>t. [Txn t]) txns"
    using form_chain_from_linked [of C sks pks "INIT_NODE C" txns bs] bs(1)
    by (simp add: form_chain_def INIT_NODE_HASH_def)
  moreover from this have "length bs = length txns" by (metis length_map)
  ultimately show ?thesis using bs by (simp add: comp_def)
qed

lemma form_chain_correct_example:
  "\<exists>bs. form_chain toy [[1], [2], [3]] (map (\<lambda>i. (i, secret_key_share toy toy_keys i)) [0..<4]) (PK [7]) = Return bs
    \<and> length bs = 3 \<and> linked toy (INIT_NODE toy) (map snd bs)"
  using form_chain_correct [of toy toy_keys 4 3 toy_keys "PK [7]"
      "map (\<lambda>i. (i, secret_key_share toy toy_keys i)) [0..<4]" "[[1], [2], [3]]"]
  by (auto simp: toy_combine_sound toy_share_sound threshold_sign_kit_def toy_keys_def)

subsection \<open>Quorums of votes\<close>

definition voters :: "ViewNumber \<Rightarrow> Voter \<Rightarrow> ReplicaID set" where
  "voters v vt = fst ` set (votes_at v vt)"

lemma combined_is_quorum:
  assumes "voter_combine_partial_sign C v vt = Return (vt', Inr sg)" and "voter_wf vt"
    and "vt_threshold vt = bft_threshold (card R)" and "voters v vt \<subseteq> R"
  shows "voter_quorum R (voters v vt)"
proof -
  have "bft_threshold (card R) < vote_set_size v vt"
    using assms(1,3) voter_combine_short [of v vt C] by (cases "vote_set_size v vt \<le> vt_threshold vt") auto
  then show ?thesis
    using assms(2,4) hm_length_card [OF votes_at_wf [OF assms(2)]]
    by (simp add: voter_quorum_def voters_def vote_set_size_votes_at)
qed

text \<open>C4: any two certificates have an honest voter in common. If two voters with the threshold of
  the replicas \<open>R\<close>, \<open>(|R| << 1) / 3\<close>, each combine their votes at some height into a signature, and
  at most \<open>(|R| - 1) / 3\<close> replicas are faulty, then a replica that is not faulty has a vote in
  both sets.\<close>

theorem certificates_share_honest_voter:
  assumes "finite R" and "R \<noteq> {}" and "card R < 2 ^ 63" and "F \<subseteq> R" and "card F \<le> (card R - 1) div 3"
    and "voter_wf a" and "vt_threshold a = bft_threshold (card R)" and "voters v a \<subseteq> R"
    and "voter_wf b" and "vt_threshold b = bft_threshold (card R)" and "voters w b \<subseteq> R"
    and "voter_combine_partial_sign C v a = Return (a', Inr sa)"
    and "voter_combine_partial_sign C w b = Return (b', Inr sb)"
  shows "\<exists>r. r \<notin> F \<and> hm_get r (votes_at v a) \<noteq> None \<and> hm_get r (votes_at w b) \<noteq> None"
proof -
  have "\<exists>r. r \<in> voters v a \<and> r \<in> voters w b \<and> r \<notin> F"
    by (rule vq.quorums_meet_honest [OF assms(1-3) combined_is_quorum [OF assms(12,6-8)]
          combined_is_quorum [OF assms(13,9-11)] assms(5)])
      (use assms(1,4) finite_subset in blast)
  then show ?thesis by (auto simp: voters_def hm_get_def map_of_eq_None_iff)
qed

definition toy_voter :: "ReplicaID list \<Rightarrow> Voter" where
  "toy_voter rs = (Voter_new 2 (toy_signaturer 0))\<lparr>vt_voting_set := [(5, map (\<lambda>r. (r, SignKit_new 0 (Sign [7, 0]))) rs)]\<rparr>"

theorem certificates_share_honest_voter_witness:
  "\<exists>r. r \<notin> {''B''} \<and> hm_get r (votes_at 5 (toy_voter [''A'', ''B'', ''C''])) \<noteq> None
    \<and> hm_get r (votes_at 5 (toy_voter [''D'', ''C'', ''B''])) \<noteq> None"
proof -
  have votes: "votes_at 5 (toy_voter rs) = map (\<lambda>r. (r, SignKit_new 0 (Sign [7, 0]))) rs" for rs
    by (simp add: votes_at_def toy_voter_def bt_get_def)
  have wf: "voter_wf (toy_voter rs)" if "distinct rs" for rs
    using that by (simp add: voter_wf_def toy_voter_def bt_wf_def hm_wf_def comp_def)
  have comb: "\<exists>x s. voter_combine_partial_sign toy 5 (toy_voter rs) = Return (x, Inr s)" if "length rs = 3" for rs
  proof -
    obtain r rs' where "rs = r # rs'" "length rs' = 2" using \<open>length rs = 3\<close> by (cases rs) auto
    then show ?thesis
      by (simp add: voter_combine_partial_sign_def vote_set_size_def voter_decide_def
          signaturer_combine_partial_sign_def toy_voter_def Voter_new_def bt_get_def hm_values_def
          toy_signaturer_def DefaultSignaturer_new_def toy_keys_def SignKit_new_def comp_def)
  qed
  obtain x s y u where c: "voter_combine_partial_sign toy 5 (toy_voter [''A'', ''B'', ''C'']) = Return (x, Inr s)"
      "voter_combine_partial_sign toy 5 (toy_voter [''D'', ''C'', ''B'']) = Return (y, Inr u)"
    using comb [of "[''A'', ''B'', ''C'']"] comb [of "[''D'', ''C'', ''B'']"] by auto
  have t: "vt_threshold (toy_voter rs) = bft_threshold (card {''A'', ''B'', ''C'', ''D''})" for rs
    by (simp add: toy_voter_def Voter_new_def bft_threshold_def)
  show ?thesis
    by (rule certificates_share_honest_voter [OF _ _ _ _ _ wf t _ wf t _ c])
      (simp_all add: voters_def votes)
qed

end
