(* ===== verification/SafetyStorage.thy ===== *)
theory SafetyStorage
  imports Voter
begin

section \<open>hotstuff-rs, machine.rs: messages of the machine and the storage it relies on\<close>

text \<open>
  The data types of \<^verbatim>\<open>safety/machine.rs\<close> and the trait \<open>SafetyStorage\<close>. A trait is a
  record of its operations over an abstract state; an implementation is a value of that record
  (\<open>hss_safety_storage\<close> in the theory \<^verbatim>\<open>HssStorage\<close>). The locale \<open>safety_storage\<close> is the contract:
  an invariant every operation keeps, and the \<open>progress\<close> relation every operation respects
  (the lock, the view and the last commit only move up, and no proposal is forgotten).
\<close>

record Snapshot =
  ss_view :: ViewNumber
  ss_leader :: "ReplicaID option"
  ss_qc_high :: GenericQC
  ss_leaf :: TreeNode
  ss_locked_node :: TreeNode
  ss_last_committed :: ViewNumber

datatype SafetyEvent =
    RequestSnapshot
  | RecvProposal Context TreeNode
  | RecvSign Context TreeNode SignKit
  | RecvNewViewMsg Context GenericQC
  | ViewChange ReplicaID ViewNumber
  | Propose Context TreeNode GenericQC
  | NewTx "Txn list"
  | NewLeader Context ReplicaID
  | BranchSync Context "TreeNode list"

datatype Ready =
    ReadyNil
  | InternalState Context Snapshot
  | NewProposal Context TreeNode
  | UpdateQCHigh Context TreeNode
  | Signature Context TreeNode SignKit
  | CommitState Context TreeNode
  | BranchSyncDone TreeNode
  | ProposalReachConsensus ViewNumber

datatype SafetyErr =
    InvalidViewNumber u64
  | InvalidLeader ReplicaID
  | VoterError VoteErr
  | CorruptedVote
  | CorruptedQC
  | InternalErr string

record 's SafetyStorage =
  st_flush :: "'s \<Rightarrow> ('s \<times> (SafetyErr + unit)) exec"
  append_new_node :: "TreeNode \<Rightarrow> 's \<Rightarrow> 's"
  append_new_qc :: "GenericQC \<Rightarrow> 's \<Rightarrow> 's"
  get_node :: "NodeHash \<Rightarrow> 's \<Rightarrow> TreeNode option"
  find_three_chain :: "TreeNode \<Rightarrow> 's \<Rightarrow> TreeNode list"
  is_consecutive_three_chain :: "TreeNode list \<Rightarrow> 's \<Rightarrow> bool"
  is_conflicting :: "TreeNode \<Rightarrow> TreeNode \<Rightarrow> 's \<Rightarrow> bool exec"
  get_qc_high :: "'s \<Rightarrow> GenericQC"
  update_qc_high :: "TreeNode \<Rightarrow> GenericQC \<Rightarrow> 's \<Rightarrow> 's"
  get_leaf :: "'s \<Rightarrow> TreeNode"
  update_leaf :: "TreeNode \<Rightarrow> 's \<Rightarrow> 's"
  get_locked_node :: "'s \<Rightarrow> TreeNode"
  update_locked_node :: "TreeNode \<Rightarrow> 's \<Rightarrow> 's"
  get_view :: "'s \<Rightarrow> ViewNumber"
  increase_view :: "ViewNumber \<Rightarrow> 's \<Rightarrow> 's"
  commit :: "TreeNode \<Rightarrow> 's \<Rightarrow> 's"
  get_last_committed :: "'s \<Rightarrow> TreeNode"
  get_vheight :: "'s \<Rightarrow> ViewNumber"
  update_vheight :: "ViewNumber \<Rightarrow> 's \<Rightarrow> ViewNumber \<times> 's"
  hotstuff_status :: "'s \<Rightarrow> Snapshot"

subsection \<open>The contract\<close>

definition progress :: "'s SafetyStorage \<Rightarrow> 's \<Rightarrow> 's \<Rightarrow> bool" where
  "progress S s t \<longleftrightarrow>
     height (get_locked_node S s) \<le> height (get_locked_node S t)
     \<and> get_view S s \<le> get_view S t
     \<and> height (get_last_committed S s) \<le> height (get_last_committed S t)
     \<and> (\<forall>h. get_node S h s \<noteq> None \<longrightarrow> get_node S h t \<noteq> None)"

lemma progress_refl [simp, intro]: "progress S s s"
  by (simp add: progress_def)

lemma progress_trans: "progress S s t \<Longrightarrow> progress S t u \<Longrightarrow> progress S s u"
  unfolding progress_def by (meson order.trans)

lemma progress_known: "progress S s t \<Longrightarrow> get_node S h s \<noteq> None \<Longrightarrow> get_node S h t \<noteq> None"
  by (simp add: progress_def)

text \<open>
  The part of the contract the event handlers of the machine use. It leaves \<open>increase_view\<close>
  out, so a store can promise it together with a fixed view number.
\<close>

locale safety_storage_core =
  fixes C :: crypto
    and S :: "'s SafetyStorage"
    and invar :: "'s \<Rightarrow> bool"
  assumes invar_append_new_node: "invar s \<Longrightarrow> invar (append_new_node S n s)"
    and invar_append_new_qc: "invar s \<Longrightarrow> invar (append_new_qc S qc s)"
    and invar_update_qc_high:
      "invar s \<Longrightarrow> get_node S (qc_node qc) s \<noteq> None \<Longrightarrow> invar (update_qc_high S n qc s)"
    and invar_update_leaf: "invar s \<Longrightarrow> invar (update_leaf S n s)"
    and invar_update_locked_node:
      "invar s \<Longrightarrow> get_node S (TreeNode_hash C n) s \<noteq> None \<Longrightarrow> invar (update_locked_node S n s)"
    and invar_commit:
      "invar s \<Longrightarrow> get_node S (TreeNode_hash C n) s \<noteq> None \<Longrightarrow> invar (commit S n s)"
    and invar_update_vheight: "invar s \<Longrightarrow> invar (snd (update_vheight S v s))"
    and progress_append_new_node: "invar s \<Longrightarrow> progress S s (append_new_node S n s)"
    and progress_append_new_qc: "invar s \<Longrightarrow> progress S s (append_new_qc S qc s)"
    and progress_update_qc_high: "invar s \<Longrightarrow> progress S s (update_qc_high S n qc s)"
    and progress_update_leaf: "invar s \<Longrightarrow> progress S s (update_leaf S n s)"
    and progress_update_locked_node:
      "invar s \<Longrightarrow> height (get_locked_node S s) \<le> height n \<Longrightarrow> progress S s (update_locked_node S n s)"
    and progress_commit: "invar s \<Longrightarrow> progress S s (commit S n s)"
    and progress_update_vheight: "invar s \<Longrightarrow> progress S s (snd (update_vheight S v s))"
    and three_chain_hd:
      "find_three_chain S n s = b # bs \<Longrightarrow> get_node S (qc_node (justify n)) s = Some b"
    and three_chain_known:
      "invar s \<Longrightarrow> b \<in> set (find_three_chain S n s) \<Longrightarrow> get_node S (TreeNode_hash C b) s \<noteq> None"
    and consecutive_length: "is_consecutive_three_chain S bs s \<Longrightarrow> length bs = 3"
    and leaf_known: "invar s \<Longrightarrow> get_node S (TreeNode_hash C (get_leaf S s)) s \<noteq> None"

text \<open>The whole contract: the view moves up as well.\<close>

locale safety_storage = safety_storage_core C S invar
  for C :: crypto and S :: "'s SafetyStorage" and invar :: "'s \<Rightarrow> bool" +
  assumes invar_increase_view: "invar s \<Longrightarrow> invar (increase_view S v s)"
    and progress_increase_view: "invar s \<Longrightarrow> progress S s (increase_view S v s)"

text \<open>A store whose invariant also keeps the proposal of the best certificate at hand.\<close>

locale safety_storage_qc = safety_storage C S invar
  for C :: crypto and S :: "'s SafetyStorage" and invar :: "'s \<Rightarrow> bool" +
  assumes qc_high_known: "invar s \<Longrightarrow> get_node S (qc_node (get_qc_high S s)) s \<noteq> None"

end
