(* ===== verification/PmData.thy ===== *)
theory PmData
  imports SafetyStorage
begin

section \<open>pacemaker, data.rs and liveness\_storage.rs: messages between replicas\<close>

text \<open>
  Timeout certificates, the messages replicas exchange (\<open>PeerEvent\<close>), and the trait
  \<open>LivenessStorage\<close> as a record of operations. The locale \<open>liveness_storage\<close> extends the
  contract of \<open>safety_storage\<close>: the two traits are two faces of one store, so the view, leaf and
  certificate operations agree and every liveness operation keeps the invariant and
  \<open>progress\<close>; and no operation but \<open>increase_view\<close> touches the view.
\<close>

datatype SignType = Partial SignKit | Combined CombinedSign

record TimeoutCertificate =
  tc_from :: ReplicaID
  tc_view :: ViewNumber
  tc_view_sign :: SignType
  tc_qc_high :: GenericQC

text \<open>\<open>PartialEq\<close> and \<open>Hash\<close> of certificates look at the view and the sender only.\<close>

definition tc_eq :: "TimeoutCertificate \<Rightarrow> TimeoutCertificate \<Rightarrow> bool" where
  "tc_eq a b \<longleftrightarrow> tc_view a = tc_view b \<and> tc_from a = tc_from b"

definition TimeoutCertificate_new ::
    "ReplicaID \<Rightarrow> ViewNumber \<Rightarrow> SignKit \<Rightarrow> GenericQC \<Rightarrow> TimeoutCertificate" where
  "TimeoutCertificate_new f v sign qc =
     \<lparr>tc_from = f, tc_view = v, tc_view_sign = Partial sign, tc_qc_high = qc\<rparr>"

definition TimeoutCertificate_compressed ::
    "ReplicaID \<Rightarrow> ViewNumber \<Rightarrow> CombinedSign \<Rightarrow> GenericQC \<Rightarrow> TimeoutCertificate" where
  "TimeoutCertificate_compressed f v sign qc =
     \<lparr>tc_from = f, tc_view = v, tc_view_sign = Combined sign, tc_qc_high = qc\<rparr>"

text \<open>A \<open>HashSet\<close> of certificates: \<open>insert\<close> keeps the element already there.\<close>

type_synonym tc_set = "TimeoutCertificate list"

definition tc_set_insert :: "TimeoutCertificate \<Rightarrow> tc_set \<Rightarrow> tc_set" where
  "tc_set_insert tc tcs = (if \<exists>t \<in> set tcs. tc_eq t tc then tcs else tcs @ [tc])"

fun partial_kit :: "TimeoutCertificate \<Rightarrow> SignKit option" where
  "partial_kit tc = (case tc_view_sign tc of Partial ps \<Rightarrow> Some ps | Combined _ \<Rightarrow> None)"

definition combine_time_certificates ::
    "crypto \<Rightarrow> DefaultSignaturer \<Rightarrow> ReplicaID \<Rightarrow> ViewNumber \<Rightarrow> GenericQC \<Rightarrow> tc_set
       \<Rightarrow> TimeoutCertificate option" where
  "combine_time_certificates C signaturer replica view qc_high tcs =
     (case signaturer_combine_partial_sign C signaturer (List.map_filter partial_kit tcs) of
        Inr s \<Rightarrow> Some (TimeoutCertificate_compressed [] view s qc_high)
      | Inl _ \<Rightarrow> None)"

datatype BranchSyncStrategy = Grow ViewNumber usize

record BranchData =
  bd_data :: "TreeNode list"

datatype SyncStatus = Success | ProposalNonExists

datatype PeerEvent =
    Ping Context string
  | PeNewProposal Context TreeNode
  | AcceptProposal Context TreeNode "SignKit option"
  | NewView Context GenericQC
  | Timeout Context TimeoutCertificate
  | BranchSyncRequest Context BranchSyncStrategy
  | BranchSyncResponse Context BranchSyncStrategy "BranchData option" SyncStatus

datatype LivenessStorageErr =
    InvalidTC ViewNumber
  | DuplicatedData
  | StaleData ViewNumber ViewNumber
  | InvalidBranch BranchData
  | FailedToFlush

type_synonym new_views = "(ReplicaID, GenericQC) hash_map"

text \<open>
  \<open>new_view_set(view)\<close> hands out a mutable reference to the map of a view, which it creates if
  needed: the operation takes the change made through the reference and returns the map after
  it with the store.
\<close>

record 's LivenessStorage =
  ls_flush :: "'s \<Rightarrow> ('s \<times> (LivenessStorageErr + unit)) exec"
  append_tc :: "TimeoutCertificate \<Rightarrow> 's \<Rightarrow> 's \<times> (LivenessStorageErr + ViewNumber)"
  is_reach_threshold :: "ViewNumber \<Rightarrow> 's \<Rightarrow> bool"
  ls_update_qc_high :: "TreeNode \<Rightarrow> GenericQC \<Rightarrow> 's \<Rightarrow> 's \<times> (LivenessStorageErr + unit)"
  fetch_branch :: "BranchSyncStrategy \<Rightarrow> 's \<Rightarrow> LivenessStorageErr + BranchData"
  is_qc_node_exists :: "GenericQC \<Rightarrow> 's \<Rightarrow> bool"
  ls_get_locked_node :: "'s \<Rightarrow> TreeNode"
  ls_get_leaf :: "'s \<Rightarrow> TreeNode"
  ls_increase_view :: "ViewNumber \<Rightarrow> 's \<Rightarrow> 's"
  new_view_set :: "ViewNumber \<Rightarrow> (new_views \<Rightarrow> new_views) \<Rightarrow> 's \<Rightarrow> new_views \<times> 's"
  clean_new_view_set :: "ViewNumber \<Rightarrow> 's \<Rightarrow> 's"
  get_threshold :: "'s \<Rightarrow> usize"

locale liveness_storage = safety_storage C S invar
  for C :: crypto and S :: "'s SafetyStorage" and invar :: "'s \<Rightarrow> bool" +
  fixes L :: "'s LivenessStorage"
  assumes invar_flush: "invar s \<Longrightarrow> ls_flush L s = Return (t, r) \<Longrightarrow> invar t"
    and progress_flush: "invar s \<Longrightarrow> ls_flush L s = Return (t, r) \<Longrightarrow> progress S s t"
    and invar_append_tc: "invar s \<Longrightarrow> invar (fst (append_tc L tc s))"
    and progress_append_tc: "invar s \<Longrightarrow> progress S s (fst (append_tc L tc s))"
    and invar_ls_update_qc_high: "invar s \<Longrightarrow> invar (fst (ls_update_qc_high L n qc s))"
    and progress_ls_update_qc_high: "invar s \<Longrightarrow> progress S s (fst (ls_update_qc_high L n qc s))"
    and increase_view_agrees: "ls_increase_view L v s = increase_view S v s"
    and get_view_increase_view: "get_view S (increase_view S v s) = max (get_view S s) v"
    and invar_new_view_set: "invar s \<Longrightarrow> (\<And>m. hm_wf m \<Longrightarrow> hm_wf (f m))
        \<Longrightarrow> invar (snd (new_view_set L v f s))"
    and progress_new_view_set: "invar s \<Longrightarrow> progress S s (snd (new_view_set L v f s))"
    and invar_clean_new_view_set: "invar s \<Longrightarrow> invar (clean_new_view_set L v s)"
    and progress_clean_new_view_set: "invar s \<Longrightarrow> progress S s (clean_new_view_set L v s)"
    and fixed_view: "safety_storage_core C S (\<lambda>s. invar s \<and> get_view S s = v)"
    and view_flush: "ls_flush L s = Return (t, r) \<Longrightarrow> get_view S t = get_view S s"
    and view_append_tc: "get_view S (fst (append_tc L tc s)) = get_view S s"
    and view_ls_update_qc_high: "get_view S (fst (ls_update_qc_high L n qc s)) = get_view S s"
    and view_new_view_set: "get_view S (snd (new_view_set L v f s)) = get_view S s"
    and view_clean_new_view_set: "get_view S (clean_new_view_set L v s) = get_view S s"

end
