(* ===== verification/Machine.thy ===== *)
theory Machine
  imports SafetyStorage
begin

section \<open>hotstuff-rs, machine.rs: the safety machine\<close>

text \<open>
  \<open>Machine<S>\<close> and its implementation of the trait \<open>Safety\<close>, one definition per method, over any
  storage \<open>S\<close>. A method returns the machine it leaves behind and its \<open>Result\<close> (\<open>Inl\<close> is
  \<open>Err\<close>). A method that calls \<open>is_conflicting\<close> may fail to return where that walk does.

  In the context of \<open>safety_storage\<close> every handler is shown to keep the storage invariant and
  the voter's, to respect \<open>progress\<close>, and never to panic; the functional behaviour of the
  branches is stated for any storage.
\<close>

record 's Machine =
  m_storage :: 's
  m_voter :: Voter
  m_total :: usize
  m_self_id :: ReplicaID
  m_leader_id :: "ReplicaID option"

definition Machine_new :: "Voter \<Rightarrow> ReplicaID \<Rightarrow> usize \<Rightarrow> ReplicaID option \<Rightarrow> 's \<Rightarrow> 's Machine" where
  "Machine_new vt self_id n leader_id s =
     \<lparr>m_storage = s, m_voter = vt, m_total = n, m_self_id = self_id, m_leader_id = leader_id\<rparr>"

definition on_storage :: "('s \<Rightarrow> 's) \<Rightarrow> 's Machine \<Rightarrow> 's Machine" where
  "on_storage f m = m\<lparr>m_storage := f (m_storage m)\<rparr>"

definition m_threshold :: "'s Machine \<Rightarrow> usize" where
  "m_threshold m = bft_threshold (m_total m)"

definition form_update_qc_high :: "'s SafetyStorage \<Rightarrow> 's Machine \<Rightarrow> Ready" where
  "form_update_qc_high S m =
     UpdateQCHigh (Context_response (m_self_id m) (get_view S (m_storage m))) (get_leaf S (m_storage m))"

definition verify_proposal ::
    "crypto \<Rightarrow> 's SafetyStorage \<Rightarrow> GenericQC \<Rightarrow> 's Machine \<Rightarrow> SafetyErr + Ready" where
  "verify_proposal C S just m =
     (case get_node S (qc_node just) (m_storage m) of
        Some qcn \<Rightarrow>
          (if \<not> is_init_qc C just then
             (let valid = voter_validate_qc C (m_voter m) qcn (qc_combined_sign just)
              in if \<not> valid then Inl CorruptedQC else Inr ReadyNil)
           else Inr ReadyNil)
      | None \<Rightarrow> Inl CorruptedQC)"

definition make_leaf :: "crypto \<Rightarrow> 's SafetyStorage \<Rightarrow> Txn list \<Rightarrow> 's Machine \<Rightarrow> TreeNode" where
  "make_leaf C S cmds m =
     (let prev_leaf = get_leaf S (m_storage m);
          par = TreeNode_hash C prev_leaf;
          just = get_qc_high S (m_storage m);
          (node, _) = TreeNode_node_and_hash C cmds (get_view S (m_storage m)) par just
      in node)"

definition on_commit :: "'s SafetyStorage \<Rightarrow> TreeNode \<Rightarrow> 's Machine \<Rightarrow> 's Machine \<times> (SafetyErr + Ready)" where
  "on_commit S to_commit m =
     (let m1 = on_storage (commit S to_commit) m
      in (m1, Inr (CommitState (Context_response (m_self_id m1) (get_view S (m_storage m1)))
                     (get_last_committed S (m_storage m1)))))"

definition update_nodes ::
    "'s SafetyStorage \<Rightarrow> TreeNode \<Rightarrow> 's Machine \<Rightarrow> ('s Machine \<times> (SafetyErr + Ready)) exec" where
  "update_nodes S node m =
     (let chain = find_three_chain S node (m_storage m);
          m1 = (case chain of
                  b_3 # _ \<Rightarrow> on_storage (update_qc_high S b_3 (justify node)) m
                | [] \<Rightarrow> m);
          m2 = (case chain of
                  _ # b_2 # _ \<Rightarrow>
                    (let locked = get_locked_node S (m_storage m1)
                     in if height b_2 > height locked
                        then on_storage (update_locked_node S b_2) m1 else m1)
                | _ \<Rightarrow> m1)
      in if is_consecutive_three_chain S chain (m_storage m2)
         then (case chain of [] \<Rightarrow> Panic UnwrapNone | _ \<Rightarrow> Return (on_commit S (last chain) m2))
         else Return (m2, Inr ReadyNil))"

definition safe_node :: "'s SafetyStorage \<Rightarrow> TreeNode \<Rightarrow> TreeNode \<Rightarrow> 's Machine \<Rightarrow> bool exec" where
  "safe_node S node justify_node m =
     (let locked = get_locked_node S (m_storage m)
      in exec_bind (is_conflicting S node locked (m_storage m)) (\<lambda>conflicting.
           let b = height justify_node > height locked
           in Return (\<not> conflicting \<or> b)))"

definition on_beat ::
    "crypto \<Rightarrow> 's SafetyStorage \<Rightarrow> Txn list \<Rightarrow> 's Machine \<Rightarrow> 's Machine \<times> (SafetyErr + Ready)" where
  "on_beat C S cmds m =
     (let prop = make_leaf C S cmds m;
          m1 = on_storage (update_leaf S prop) m;
          ctx = Context_broadcast (m_self_id m1) (get_view S (m_storage m1));
          sign_kit = voter_sign C (m_voter m1) prop;
          (vt, _) = add_vote ctx (height prop) sign_kit (m_voter m1)
      in (m1\<lparr>m_voter := vt\<rparr>, Inr (NewProposal ctx prop)))"

definition on_recv_vote ::
    "crypto \<Rightarrow> 's SafetyStorage \<Rightarrow> Context \<Rightarrow> TreeNode \<Rightarrow> SignKit \<Rightarrow> 's Machine
       \<Rightarrow> ('s Machine \<times> (SafetyErr + Ready)) exec" where
  "on_recv_vote C S ctx prop sign m =
     (if \<not> voter_validate_vote C (m_voter m) prop sign then Return (m, Inl CorruptedVote)
      else case add_vote ctx (height prop) sign (m_voter m) of
        (vt, Inl e) \<Rightarrow> Return (m\<lparr>m_voter := vt\<rparr>, Inr ReadyNil)
      | (vt, Inr _) \<Rightarrow>
          (let m1 = m\<lparr>m_voter := vt\<rparr>
           in if vote_set_size (height prop) (m_voter m1) > m_threshold m1
              then exec_bind (voter_combine_partial_sign C (height prop) (m_voter m1)) (\<lambda>(vt2, res).
                let m2 = m1\<lparr>m_voter := vt2\<rparr>
                in case res of
                     Inr combined_sign \<Rightarrow>
                       (let prop_hash = TreeNode_hash C (get_leaf S (m_storage m2));
                            qc = GenericQC_new (get_view S (m_storage m2)) prop_hash combined_sign;
                            m3 = on_storage (update_qc_high S prop qc) m2
                        in Return (m3, Inr (ProposalReachConsensus (qc_view qc))))
                   | Inl e \<Rightarrow> Return (m2, Inl (VoterError e)))
              else Return (m1, Inr ReadyNil)))"

text \<open>
  The guard shared by \<open>on_recv_proposal\<close> and \<open>on_branch_sync\<close>:
  \<open>prop.height() > vheight && safe_node(prop, prev_node)\<close>, with the short circuit.
\<close>

definition acceptable :: "'s SafetyStorage \<Rightarrow> TreeNode \<Rightarrow> TreeNode \<Rightarrow> 's Machine \<Rightarrow> bool exec" where
  "acceptable S prop prev_node m =
     (if height prop > get_vheight S (m_storage m) then safe_node S prop prev_node m else Return False)"

definition accept_node :: "'s SafetyStorage \<Rightarrow> TreeNode \<Rightarrow> 's Machine \<Rightarrow> 's Machine" where
  "accept_node S prop m =
     (let m1 = on_storage (append_new_node S prop) m
      in on_storage (\<lambda>s. snd (update_vheight S (height prop) s)) m1)"

definition on_recv_proposal ::
    "crypto \<Rightarrow> 's SafetyStorage \<Rightarrow> Context \<Rightarrow> TreeNode \<Rightarrow> GenericQC \<Rightarrow> 's Machine
       \<Rightarrow> ('s Machine \<times> (SafetyErr + Ready)) exec" where
  "on_recv_proposal C S ctx prop just m =
     (case verify_proposal C S just m of
        Inl e \<Rightarrow> Return (m, Inl e)
      | Inr ready \<Rightarrow>
          exec_bind
            (case get_node S (qc_node (justify prop)) (m_storage m) of
               Some prev_node \<Rightarrow>
                 exec_bind (acceptable S prop prev_node m) (\<lambda>ok.
                   if ok then
                     (let m1 = accept_node S prop m;
                          sign_kit = voter_sign C (m_voter m1) prop
                      in Return (m1, Signature
                           (Context_single (m_self_id m1) (ctx_from ctx) (get_view S (m_storage m1)))
                           prop sign_kit))
                   else Return (m, ready))
             | None \<Rightarrow> Return (on_storage (append_new_qc S (justify prop)) m, ready))
            (\<lambda>(m1, ready1).
               exec_bind (update_nodes S prop m1) (\<lambda>(m2, _). Return (m2, Inr ready1))))"

definition on_view_change ::
    "'s SafetyStorage \<Rightarrow> ReplicaID \<Rightarrow> ViewNumber \<Rightarrow> 's Machine \<Rightarrow> 's Machine \<times> (SafetyErr + Ready)" where
  "on_view_change S leader view m =
     (if view > get_view S (m_storage m) then
        (let m1 = m\<lparr>m_leader_id := Some leader, m_voter := voter_reset view (m_voter m)\<rparr>;
             m2 = on_storage (increase_view S view) m1
         in (m2, Inr (form_update_qc_high S m2)))
      else (m, Inr ReadyNil))"

definition take_snapshot :: "'s SafetyStorage \<Rightarrow> 's Machine \<Rightarrow> Snapshot" where
  "take_snapshot S m = (hotstuff_status S (m_storage m))\<lparr>ss_leader := m_leader_id m\<rparr>"

text \<open>The loop of \<open>on_branch_sync\<close>: it stops at the first proposal whose certificate is rejected.\<close>

fun branch_sync_loop ::
    "crypto \<Rightarrow> 's SafetyStorage \<Rightarrow> TreeNode list \<Rightarrow> 's Machine \<Rightarrow> 's Machine exec" where
  "branch_sync_loop C S [] m = Return m"
| "branch_sync_loop C S (prop # branch) m =
     (case verify_proposal C S (justify prop) m of
        Inl _ \<Rightarrow> Return m
      | Inr _ \<Rightarrow>
          exec_bind
            (case get_node S (qc_node (justify prop)) (m_storage m) of
               Some prev_node \<Rightarrow>
                 exec_bind (acceptable S prop prev_node m) (\<lambda>ok.
                   Return (if ok then accept_node S prop m else m))
             | None \<Rightarrow> Return m)
            (\<lambda>m1. exec_bind (update_nodes S prop m1) (\<lambda>(m2, _). branch_sync_loop C S branch m2)))"

definition on_branch_sync ::
    "crypto \<Rightarrow> 's SafetyStorage \<Rightarrow> TreeNode list \<Rightarrow> 's Machine \<Rightarrow> ('s Machine \<times> (SafetyErr + Ready)) exec" where
  "on_branch_sync C S branch m =
     exec_bind (branch_sync_loop C S branch m) (\<lambda>m1.
       Return (m1, Inr (BranchSyncDone (get_leaf S (m_storage m1)))))"

fun process_safety_event ::
    "crypto \<Rightarrow> 's SafetyStorage \<Rightarrow> SafetyEvent \<Rightarrow> 's Machine \<Rightarrow> ('s Machine \<times> (SafetyErr + Ready)) exec" where
  "process_safety_event C S RequestSnapshot m =
     Return (m, Inr (InternalState (Context_broadcast (m_self_id m) (get_view S (m_storage m)))
                       (take_snapshot S m)))"
| "process_safety_event C S (RecvProposal ctx proposal) m =
     on_recv_proposal C S ctx proposal (justify proposal) m"
| "process_safety_event C S (RecvSign ctx node sign) m = on_recv_vote C S ctx node sign m"
| "process_safety_event C S (NewTx cmds) m = Return (on_beat C S cmds m)"
| "process_safety_event C S (RecvNewViewMsg ctx qc_high) m =
     (let m1 = (case get_node S (qc_node qc_high) (m_storage m) of
                  Some qcn \<Rightarrow> on_storage (update_qc_high S qcn qc_high) m
                | None \<Rightarrow> m)
      in Return (m1, Inr (form_update_qc_high S m1)))"
| "process_safety_event C S (NewLeader ctx leader) m =
     Return (if ctx_view ctx \<ge> get_view S (m_storage m) \<and> m_leader_id m = None
             then m\<lparr>m_leader_id := Some leader\<rparr> else m, Inr ReadyNil)"
| "process_safety_event C S (BranchSync ctx branch) m = on_branch_sync C S branch m"
| "process_safety_event C S (ViewChange l v) m = Return (m, Inr ReadyNil)"
| "process_safety_event C S (Propose ctx node qc) m = Return (m, Inr ReadyNil)"

text \<open>Everything an owner of the machine can call, as one step: an event, or a view change.\<close>

datatype machine_call = Event SafetyEvent | OnViewChange ReplicaID ViewNumber

fun machine_step :: "crypto \<Rightarrow> 's SafetyStorage \<Rightarrow> machine_call \<Rightarrow> 's Machine \<Rightarrow> 's Machine exec" where
  "machine_step C S (Event e) m = exec_bind (process_safety_event C S e m) (\<lambda>(m1, _). Return m1)"
| "machine_step C S (OnViewChange l v) m = Return (fst (on_view_change S l v m))"

lemma on_storage_simps [simp]:
  "m_storage (on_storage f m) = f (m_storage m)" "m_voter (on_storage f m) = m_voter m"
  "m_total (on_storage f m) = m_total m" "m_self_id (on_storage f m) = m_self_id m"
  "m_leader_id (on_storage f m) = m_leader_id m"
  by (simp_all add: on_storage_def)

lemma make_leaf_eq:
  "make_leaf C S cmds m =
     \<lparr>height = get_view S (m_storage m), txs = cmds,
      parent = TreeNode_hash C (get_leaf S (m_storage m)), justify = get_qc_high S (m_storage m)\<rparr>"
  by (simp add: make_leaf_def TreeNode_node_and_hash_def Let_def)

subsection \<open>Every handler keeps the storage's contract\<close>

definition machine_ok :: "('s \<Rightarrow> bool) \<Rightarrow> 's Machine \<Rightarrow> bool" where
  "machine_ok invar m \<longleftrightarrow> invar (m_storage m) \<and> voter_wf (m_voter m)"

text \<open>A machine that is well formed and has only moved up from \<open>m\<close>.\<close>

definition advanced :: "'s SafetyStorage \<Rightarrow> ('s \<Rightarrow> bool) \<Rightarrow> 's Machine \<Rightarrow> 's Machine \<Rightarrow> bool" where
  "advanced S invar m m1 \<longleftrightarrow> machine_ok invar m1 \<and> progress S (m_storage m) (m_storage m1)"

lemma advanced_refl: "machine_ok invar m \<Longrightarrow> advanced S invar m m"
  by (simp add: advanced_def)

lemma advanced_trans: "advanced S invar m m1 \<Longrightarrow> advanced S invar m1 m2 \<Longrightarrow> advanced S invar m m2"
  unfolding advanced_def by (blast intro: progress_trans)

lemma advanced_ok: "advanced S invar m m1 \<Longrightarrow> machine_ok invar m1"
  by (simp add: advanced_def)

lemma machine_ok_voter [simp]:
  "machine_ok invar (m\<lparr>m_voter := vt\<rparr>) \<longleftrightarrow> invar (m_storage m) \<and> voter_wf vt"
  "machine_ok invar (m\<lparr>m_leader_id := l\<rparr>) \<longleftrightarrow> machine_ok invar m"
  by (simp_all add: machine_ok_def)

context safety_storage_core
begin

lemma advanced_storage:
  assumes "machine_ok invar m" and "invar (f (m_storage m))" and "progress S (m_storage m) (f (m_storage m))"
  shows "advanced S invar m (on_storage f m)"
  using assms by (simp add: advanced_def machine_ok_def)

lemma advanced_update_qc_high:
  "machine_ok invar m \<Longrightarrow> get_node S (qc_node qc) (m_storage m) \<noteq> None
   \<Longrightarrow> advanced S invar m (on_storage (update_qc_high S n qc) m)"
  by (intro advanced_storage)
    (auto simp: machine_ok_def intro: invar_update_qc_high progress_update_qc_high)

lemma advanced_on_commit:
  "machine_ok invar m \<Longrightarrow> get_node S (TreeNode_hash C n) (m_storage m) \<noteq> None
   \<Longrightarrow> advanced S invar m (fst (on_commit S n m))"
  by (auto simp: on_commit_def Let_def machine_ok_def
      intro!: advanced_storage invar_commit progress_commit)

lemma advanced_accept_node:
  assumes "machine_ok invar m"
  shows "advanced S invar m (accept_node S prop m)"
proof -
  let ?m1 = "on_storage (append_new_node S prop) m"
  have step1: "advanced S invar m ?m1"
    using assms by (intro advanced_storage)
      (auto simp: machine_ok_def intro: invar_append_new_node progress_append_new_node)
  then have "advanced S invar ?m1 (on_storage (\<lambda>s. snd (update_vheight S (height prop) s)) ?m1)"
    by (intro advanced_storage)
      (auto simp: advanced_def machine_ok_def intro: invar_update_vheight progress_update_vheight)
  with step1 show ?thesis by (auto simp: accept_node_def Let_def intro: advanced_trans)
qed

lemma advanced_lock:
  assumes "machine_ok invar m" and "get_node S (TreeNode_hash C b) (m_storage m) \<noteq> None"
    and "height (get_locked_node S (m_storage m)) < height b"
  shows "advanced S invar m (on_storage (update_locked_node S b) m)"
  using assms by (intro advanced_storage)
    (auto simp: machine_ok_def intro: invar_update_locked_node progress_update_locked_node)

lemma update_nodes_advanced:
  assumes ok: "machine_ok invar m"
  shows "\<exists>m1 r. update_nodes S node m = Return (m1, Inr r) \<and> advanced S invar m m1"
proof -
  let ?chain = "find_three_chain S node (m_storage m)"
  define m1 where "m1 = (case ?chain of
      b_3 # _ \<Rightarrow> on_storage (update_qc_high S b_3 (justify node)) m | [] \<Rightarrow> m)"
  define m2 where "m2 = (case ?chain of
      _ # b_2 # _ \<Rightarrow> (if height b_2 > height (get_locked_node S (m_storage m1))
          then on_storage (update_locked_node S b_2) m1 else m1) | _ \<Rightarrow> m1)"
  have known: "b \<in> set ?chain \<Longrightarrow> get_node S (TreeNode_hash C b) (m_storage m) \<noteq> None" for b
    using ok three_chain_known by (auto simp: machine_ok_def)
  have adv1: "advanced S invar m m1"
  proof (cases ?chain)
    case (Cons b_3 bs)
    then have "get_node S (qc_node (justify node)) (m_storage m) = Some b_3" by (rule three_chain_hd)
    with ok Cons show ?thesis by (simp add: m1_def advanced_update_qc_high)
  qed (use ok in \<open>simp add: m1_def advanced_refl\<close>)
  have keep: "get_node S h (m_storage m) \<noteq> None \<Longrightarrow> get_node S h (m_storage m') \<noteq> None"
    if "advanced S invar m m'" for h m'
    using that by (simp add: advanced_def progress_def)
  have adv12: "advanced S invar m1 m2"
    using known keep [OF adv1] advanced_ok [OF adv1]
    by (auto simp: m2_def split: list.split intro: advanced_lock advanced_refl)
  have adv2: "advanced S invar m m2" using adv1 adv12 by (rule advanced_trans)
  show ?thesis
  proof (cases "is_consecutive_three_chain S ?chain (m_storage m2)")
    case True
    then have "length ?chain = 3" by (rule consecutive_length)
    then have ne: "?chain \<noteq> []" by auto
    then have "get_node S (TreeNode_hash C (last ?chain)) (m_storage m2) \<noteq> None"
      using known keep [OF adv2] by simp
    then have "advanced S invar m2 (fst (on_commit S (last ?chain) m2))"
      using adv2 by (intro advanced_on_commit) (auto dest: advanced_ok)
    with adv2 have "advanced S invar m (fst (on_commit S (last ?chain) m2))"
      by (rule advanced_trans)
    moreover have "update_nodes S node m = Return (on_commit S (last ?chain) m2)"
      using True ne unfolding update_nodes_def Let_def m1_def [symmetric] m2_def [symmetric]
      by (simp split: list.split)
    ultimately show ?thesis by (auto simp: on_commit_def Let_def)
  next
    case False
    then have "update_nodes S node m = Return (m2, Inr ReadyNil)"
      unfolding update_nodes_def Let_def m1_def [symmetric] m2_def [symmetric] by simp
    with adv2 show ?thesis by blast
  qed
qed

lemma update_nodes_ReturnD:
  assumes "machine_ok invar m" and "update_nodes S node m = Return (m1, r)"
  shows "advanced S invar m m1"
  using update_nodes_advanced [OF assms(1), of node] assms(2) by auto

lemma after_update_nodes:
  "advanced S invar m m2 \<Longrightarrow> update_nodes S prop m2 = Return (m1, r) \<Longrightarrow> advanced S invar m m1"
  by (meson advanced_ok advanced_trans update_nodes_ReturnD)

lemma on_beat_advanced:
  assumes "machine_ok invar m"
  shows "advanced S invar m (fst (on_beat C S cmds m))"
proof -
  have "advanced S invar m (on_storage (update_leaf S (make_leaf C S cmds m)) m)"
    using assms by (intro advanced_storage)
      (auto simp: machine_ok_def intro: invar_update_leaf progress_update_leaf)
  then show ?thesis
    by (auto simp: on_beat_def Let_def advanced_def machine_ok_def voter_wf_add_vote case_prod_unfold)
qed

lemma on_recv_vote_advanced:
  assumes "machine_ok invar m"
  shows "\<exists>m1 r. on_recv_vote C S ctx prop sign m = Return (m1, r) \<and> advanced S invar m m1"
proof (cases "voter_validate_vote C (m_voter m) prop sign")
  case False
  with assms show ?thesis by (simp add: on_recv_vote_def advanced_refl)
next
  case True
  obtain vt r where av: "add_vote ctx (height prop) sign (m_voter m) = (vt, r)" by fastforce
  have m1: "advanced S invar m (m\<lparr>m_voter := vt\<rparr>)"
    using assms av voter_wf_add_vote [of "m_voter m" ctx "height prop" sign]
    by (simp add: advanced_def machine_ok_def)
  obtain vt2 res where cb: "voter_combine_partial_sign C (height prop) vt = Return (vt2, res)"
    using voter_combine_no_panic [of C "height prop" vt] by fastforce
  let ?m2 = "m\<lparr>m_voter := vt2\<rparr>"
  have m2: "advanced S invar m ?m2"
    using m1 voter_wf_combine [OF _ cb] by (simp add: advanced_def machine_ok_def)
  have "advanced S invar ?m2 (on_storage (update_qc_high S prop
      (GenericQC_new v (TreeNode_hash C (get_leaf S (m_storage m))) sg)) ?m2)" for v sg
    using m2 leaf_known
    by (intro advanced_update_qc_high) (auto simp: advanced_def machine_ok_def)
  then have m3: "advanced S invar m (on_storage (update_qc_high S prop
      (GenericQC_new v (TreeNode_hash C (get_leaf S (m_storage m))) sg)) ?m2)" for v sg
    using m2 advanced_trans by blast
  show ?thesis
    using True av m1 m2 m3 cb
    by (auto simp: on_recv_vote_def Let_def split: sum.splits)
qed

text \<open>
  Accepting or not, the first half of \<open>on_recv_proposal\<close> and of one round of the branch loop
  leaves the machine advanced.
\<close>

lemma accept_or_not_advanced:
  "machine_ok invar m \<Longrightarrow> advanced S invar m (if ok then accept_node S prop m else m)"
  by (simp add: advanced_accept_node advanced_refl)

lemma advanced_append_new_qc:
  "machine_ok invar m \<Longrightarrow> advanced S invar m (on_storage (append_new_qc S qc) m)"
  by (intro advanced_storage)
    (auto simp: machine_ok_def intro: invar_append_new_qc progress_append_new_qc)

lemma on_recv_proposal_advanced:
  assumes ok: "machine_ok invar m"
    and ret: "on_recv_proposal C S ctx prop just m = Return (m1, r)"
  shows "advanced S invar m m1"
proof (cases "verify_proposal C S just m")
  case (Inl e)
  with ret ok show ?thesis by (simp add: on_recv_proposal_def advanced_refl)
next
  case (Inr ready)
  with ret ok show ?thesis
    by (auto simp: on_recv_proposal_def exec_bind_eq_Return Let_def split: option.splits if_splits
        intro: after_update_nodes advanced_accept_node advanced_refl advanced_append_new_qc)
qed

lemma branch_sync_loop_advanced:
  "machine_ok invar m \<Longrightarrow> branch_sync_loop C S branch m = Return m1 \<Longrightarrow> advanced S invar m m1"
proof (induction branch arbitrary: m)
  case Nil
  then show ?case by (simp add: advanced_refl)
next
  case (Cons p branch)
  show ?case
  proof (cases "verify_proposal C S (justify p) m")
    case (Inl e)
    with Cons.prems show ?thesis by (simp add: advanced_refl)
  next
    case (Inr ready)
    with Cons.prems obtain m3 where adv: "advanced S invar m m3"
      and rest: "branch_sync_loop C S branch m3 = Return m1"
      by (auto simp: exec_bind_eq_Return split: option.splits if_splits
          dest: after_update_nodes [OF advanced_accept_node] after_update_nodes [OF advanced_refl])
    then have "advanced S invar m3 m1" using Cons.IH advanced_ok by blast
    with adv show ?thesis by (rule advanced_trans)
  qed
qed

lemma process_safety_event_advanced:
  assumes ok: "machine_ok invar m" and ret: "process_safety_event C S e m = Return (m1, r)"
  shows "advanced S invar m m1"
proof (cases e)
  case (RecvSign ctx node sign)
  with ret on_recv_vote_advanced [OF ok, of ctx node sign] show ?thesis by auto
next
  case (NewTx cmds)
  with ret on_beat_advanced [OF ok, of cmds] show ?thesis by simp
next
  case (RecvNewViewMsg ctx qc)
  with ret ok show ?thesis
    by (auto simp: Let_def advanced_refl split: option.splits intro: advanced_update_qc_high)
next
  case (BranchSync ctx branch)
  with ret ok show ?thesis
    by (auto simp: on_branch_sync_def exec_bind_eq_Return intro: branch_sync_loop_advanced)
next
  case (RecvProposal ctx p)
  with ret ok show ?thesis by (auto intro: on_recv_proposal_advanced)
qed (use ok ret in \<open>auto simp: advanced_refl advanced_def split: if_splits\<close>)

end

context safety_storage
begin

lemma on_view_change_advanced:
  assumes "machine_ok invar m"
  shows "advanced S invar m (fst (on_view_change S leader view m))"
proof (cases "get_view S (m_storage m) < view")
  case True
  have "advanced S invar m (on_storage (increase_view S view)
      (m\<lparr>m_leader_id := Some leader, m_voter := voter_reset view (m_voter m)\<rparr>))"
    using assms by (auto simp: advanced_def machine_ok_def
        intro: invar_increase_view progress_increase_view)
  with True show ?thesis by (simp add: on_view_change_def Let_def)
qed (use assms in \<open>simp add: on_view_change_def advanced_refl\<close>)

lemma machine_step_advanced:
  "machine_ok invar m \<Longrightarrow> machine_step C S c m = Return m1 \<Longrightarrow> advanced S invar m m1"
  by (cases c) (auto simp: exec_bind_eq_Return on_view_change_advanced
      intro: process_safety_event_advanced)

end

end
