(* ===== verification/HssStorage.thy ===== *)
theory HssStorage
  imports PmData Machine
begin

section \<open>hss, lib.rs: the storage of a replica\<close>

text \<open>
  \<open>HotstuffStorage\<close>, the in-memory state with queues of data still to be made durable, and its
  implementations of \<open>SafetyStorage\<close> (\<open>hss_safety_storage\<close>) and \<open>LivenessStorage\<close>
  (\<open>hss_liveness_storage\<close>). The database connection and its writer task are the theory
  \<^verbatim>\<open>Persistor\<close>'s; here the backend is the channel that carries flush tasks to the writer.

  The interpretations at the end discharge both storage contracts for this store.
\<close>

subsection \<open>State\<close>

record InMemoryState =
  st_token :: string
  st_leaf :: TreeNode
  st_qc_high :: GenericQC
  st_vheight :: ViewNumber
  st_current_view :: ViewNumber
  st_committed_height :: ViewNumber
  st_last_commit :: TreeNode
  st_b_locked :: TreeNode

record HotStuffConfig =
  cf_token :: string
  cf_total :: usize
  cf_replica_id :: ReplicaID
  cf_peers_addr :: "(ReplicaID, string) hash_map"

definition conf_threshold :: "HotStuffConfig \<Rightarrow> usize" where
  "conf_threshold conf = bft_threshold (cf_total conf)"

text \<open>persistor.rs: the data of a flush and the channel to the writer.\<close>

record DirtyData =
  dd_combined_tc_queue :: "TimeoutCertificate list"
  dd_partial_tc_queue :: "TimeoutCertificate list"
  dd_prop_queue :: "TreeNode list"
  dd_justify_queue :: "GenericQC list"
  dd_state :: InMemoryState

datatype FlushTask = Async DirtyData | Sync DirtyData

definition FlushTask_asynch ::
    "TimeoutCertificate list \<Rightarrow> TimeoutCertificate list \<Rightarrow> TreeNode list \<Rightarrow> GenericQC list \<Rightarrow> InMemoryState \<Rightarrow> FlushTask" where
  [simp]: "FlushTask_asynch combined_tc_queue partial_tc_queue prop_queue justify_queue state =
     Async \<lparr>dd_combined_tc_queue = combined_tc_queue, dd_partial_tc_queue = partial_tc_queue,
       dd_prop_queue = prop_queue, dd_justify_queue = justify_queue, dd_state = state\<rparr>"

text \<open>
  The receiving end: still parked in the struct (\<open>recvr_tmp\<close> is \<open>Some\<close>), moved into the running
  writer task, or dropped with a writer that ended.
\<close>

datatype receiver = Parked | Running | Dropped

record MySQLStorage =
  my_conn_pool :: "string option"
  my_channel :: "FlushTask list"
  my_receiver :: receiver

definition MySQLStorage_new :: "string \<Rightarrow> MySQLStorage" where
  "MySQLStorage_new conn = \<lparr>my_conn_pool = Some conn, my_channel = [], my_receiver = Parked\<rparr>"

text \<open>
  \<open>sender.send(task).await\<close> on a channel of capacity 4: it waits for a free slot, for ever if
  the receiver is parked, and reports (ignored) failure if the receiver is gone.
\<close>

definition mysql_async_flush :: "FlushTask \<Rightarrow> MySQLStorage \<Rightarrow> MySQLStorage exec" where
  "mysql_async_flush task b =
     (case my_receiver b of
        Dropped \<Rightarrow> Return b
      | Running \<Rightarrow> Return (b\<lparr>my_channel := my_channel b @ [task]\<rparr>)
      | Parked \<Rightarrow> if length (my_channel b) < 4 then Return (b\<lparr>my_channel := my_channel b @ [task]\<rparr>)
                  else Diverge)"

record HotstuffStorage =
  hs_backend :: "MySQLStorage option"
  hs_state :: InMemoryState
  hs_conf :: HotStuffConfig
  hs_signaturer :: DefaultSignaturer
  hs_in_mem_queue :: "(NodeHash, TreeNode) hash_map"
  hs_tc_map :: "(ViewNumber, tc_set) btree_map"
  hs_new_view_set :: "(ViewNumber, new_views) btree_map"
  hs_combined_tc_queue :: "TimeoutCertificate list"
  hs_partial_tc_queue :: "TimeoutCertificate list"
  hs_prop_queue :: "TreeNode list"
  hs_justify_queue :: "GenericQC list"
  hs_dirty :: bool

definition HotstuffStorage_new ::
    "string \<Rightarrow> TreeNode \<Rightarrow> GenericQC \<Rightarrow> HotStuffConfig \<Rightarrow> DefaultSignaturer \<Rightarrow> MySQLStorage option
       \<Rightarrow> HotstuffStorage" where
  "HotstuffStorage_new token init_node init_qc conf signaturer backend =
     \<lparr>hs_backend = backend,
      hs_state = \<lparr>st_token = token, st_leaf = init_node, st_qc_high = init_qc, st_vheight = 0,
        st_current_view = 0, st_committed_height = 0, st_last_commit = init_node,
        st_b_locked = init_node\<rparr>,
      hs_conf = conf, hs_signaturer = signaturer, hs_in_mem_queue = [], hs_tc_map = [],
      hs_new_view_set = [], hs_combined_tc_queue = [], hs_partial_tc_queue = [],
      hs_prop_queue = [], hs_justify_queue = [], hs_dirty = False\<rparr>"

definition init_in_mem_storage ::
    "usize \<Rightarrow> TreeNode \<Rightarrow> NodeHash \<Rightarrow> GenericQC \<Rightarrow> ReplicaID \<Rightarrow> (ReplicaID, string) hash_map
       \<Rightarrow> DefaultSignaturer \<Rightarrow> HotstuffStorage" where
  "init_in_mem_storage n init_node init_node_hash init_qc self_id peers_addr signaturer =
     (let token = ''hotstuff_test'';
          conf = \<lparr>cf_token = token, cf_total = n, cf_replica_id = self_id, cf_peers_addr = peers_addr\<rparr>;
          hss = HotstuffStorage_new token init_node init_qc conf signaturer None
      in hss\<lparr>hs_in_mem_queue := hm_insert init_node_hash init_node (hs_in_mem_queue hss)\<rparr>)"

subsection \<open>Private operations\<close>

definition hss_get :: "NodeHash \<Rightarrow> HotstuffStorage \<Rightarrow> TreeNode option" where
  "hss_get node_hash s = hm_get node_hash (hs_in_mem_queue s)"

definition hss_insert :: "NodeHash \<Rightarrow> TreeNode \<Rightarrow> HotstuffStorage \<Rightarrow> HotstuffStorage" where
  "hss_insert node_hash p s =
     s\<lparr>hs_in_mem_queue := hm_insert node_hash p (hs_in_mem_queue s),
       hs_prop_queue := hs_prop_queue s @ [p]\<rparr>"

definition set_dirty :: "HotstuffStorage \<Rightarrow> HotstuffStorage" where
  "set_dirty s = s\<lparr>hs_dirty := True\<rparr>"

definition reset_dirty :: "HotstuffStorage \<Rightarrow> HotstuffStorage" where
  "reset_dirty s = s\<lparr>hs_dirty := False\<rparr>"

definition hss_threshold :: "HotstuffStorage \<Rightarrow> usize" where
  "hss_threshold s = bft_threshold (cf_total (hs_conf s))"

definition async_flush :: "HotstuffStorage \<Rightarrow> (HotstuffStorage \<times> (string + unit)) exec" where
  "async_flush s =
     (if \<not> hs_dirty s then Return (s, Inr ())
      else case hs_backend s of
        Some backend \<Rightarrow>
          (let task = FlushTask_asynch (hs_combined_tc_queue s) (hs_partial_tc_queue s) (hs_prop_queue s)
                 (hs_justify_queue s) (hs_state s);
               s1 = s\<lparr>hs_combined_tc_queue := [], hs_partial_tc_queue := [], hs_prop_queue := [],
                      hs_justify_queue := []\<rparr>
           in exec_bind (mysql_async_flush task backend) (\<lambda>b.
                Return (reset_dirty (s1\<lparr>hs_backend := Some b\<rparr>), Inr ())))
      | None \<Rightarrow> Return (s, Inr ()))"

definition compress_tc :: "crypto \<Rightarrow> HotstuffStorage \<Rightarrow> HotstuffStorage \<times> ViewNumber option" where
  "compress_tc C s =
     (let view = list_max (map fst (filter (\<lambda>(_, tcs). length tcs \<ge> conf_threshold (hs_conf s))
                   (hs_tc_map s)))
      in case view of
           None \<Rightarrow> (s, view)
         | Some v \<Rightarrow>
             (let removed = bt_get v (hs_tc_map s);
                  s1 = s\<lparr>hs_tc_map := bt_remove v (hs_tc_map s)\<rparr>;
                  combined = Option.bind removed
                    (combine_time_certificates C (hs_signaturer s1) [] v (st_qc_high (hs_state s1)))
              in (case combined of
                    None \<Rightarrow> s1
                  | Some ctc \<Rightarrow> s1\<lparr>hs_combined_tc_queue := hs_combined_tc_queue s1 @ [ctc]\<rparr>, view)))"

subsection \<open>SafetyStorage\<close>

definition hss_flush :: "HotstuffStorage \<Rightarrow> (HotstuffStorage \<times> (SafetyErr + unit)) exec" where
  "hss_flush s = exec_bind (async_flush s) (\<lambda>(s1, r).
     Return (s1, case r of Inl e \<Rightarrow> Inl (InternalErr e) | Inr u \<Rightarrow> Inr u))"

definition hss_append_new_node :: "crypto \<Rightarrow> TreeNode \<Rightarrow> HotstuffStorage \<Rightarrow> HotstuffStorage" where
  "hss_append_new_node C node s = (let h = TreeNode_hash C node in set_dirty (hss_insert h node s))"

definition hss_append_new_qc :: "GenericQC \<Rightarrow> HotstuffStorage \<Rightarrow> HotstuffStorage" where
  "hss_append_new_qc qc s = set_dirty (s\<lparr>hs_justify_queue := hs_justify_queue s @ [qc]\<rparr>)"

definition hss_find_three_chain :: "TreeNode \<Rightarrow> HotstuffStorage \<Rightarrow> TreeNode list" where
  "hss_find_three_chain node s =
     (case hss_get (qc_node (justify node)) s of
        None \<Rightarrow> []
      | Some b3 \<Rightarrow>
          b3 # (case hss_get (qc_node (justify b3)) s of
                  None \<Rightarrow> []
                | Some b2 \<Rightarrow>
                    b2 # (case hss_get (qc_node (justify b2)) s of None \<Rightarrow> [] | Some b1 \<Rightarrow> [b1])))"

definition hss_update_leaf :: "crypto \<Rightarrow> TreeNode \<Rightarrow> HotstuffStorage \<Rightarrow> HotstuffStorage" where
  "hss_update_leaf C new_leaf s =
     (let nhash = TreeNode_hash C new_leaf;
          s1 = s\<lparr>hs_state := (hs_state s)\<lparr>st_vheight := height new_leaf, st_leaf := new_leaf\<rparr>\<rparr>
      in set_dirty (hss_insert nhash (st_leaf (hs_state s1)) s1))"

definition hss_get_leaf :: "HotstuffStorage \<Rightarrow> TreeNode" where
  "hss_get_leaf s = st_leaf (hs_state s)"

definition hss_get_qc_high :: "HotstuffStorage \<Rightarrow> GenericQC" where
  "hss_get_qc_high s = st_qc_high (hs_state s)"

definition hss_update_qc_high ::
    "crypto \<Rightarrow> TreeNode \<Rightarrow> GenericQC \<Rightarrow> HotstuffStorage \<Rightarrow> HotstuffStorage" where
  "hss_update_qc_high C new_qc_node new_qc_high s =
     (case hss_get (qc_node (hss_get_qc_high s)) s of
        None \<Rightarrow> s
      | Some qcn \<Rightarrow>
          (if height new_qc_node > height qcn
           then
             (let s1 = s\<lparr>hs_state := (hs_state s)\<lparr>st_qc_high := new_qc_high\<rparr>\<rparr>;
                  s2 = hss_update_leaf C new_qc_node s1;
                  s3 = hss_append_new_qc new_qc_high s2
              in set_dirty s3)
           else s))"

text \<open>
  The loop of \<open>is_conflicting\<close>: from \<open>node\<close> up the parents while the height is above \<open>bh\<close>.
  Nothing in the code bounds it; it returns \<open>None\<close> here when it would not end.
\<close>

partial_function (option) conflict_walk ::
    "(NodeHash, TreeNode) hash_map \<Rightarrow> ViewNumber \<Rightarrow> TreeNode \<Rightarrow> TreeNode option" where
  "conflict_walk store bh node =
     (if height node > bh
      then (case hm_get (parent node) store of
              Some prev \<Rightarrow> conflict_walk store bh prev
            | None \<Rightarrow> Some node)
      else Some node)"

definition hss_is_conflicting :: "crypto \<Rightarrow> TreeNode \<Rightarrow> TreeNode \<Rightarrow> HotstuffStorage \<Rightarrow> bool exec" where
  "hss_is_conflicting C a0 b0 s =
     (let (a, b) = (if height a0 \<ge> height b0 then (a0, b0) else (b0, a0))
      in case conflict_walk (hs_in_mem_queue s) (height b) a of
           None \<Rightarrow> Diverge
         | Some node \<Rightarrow> Return (TreeNode_hash C node \<noteq> TreeNode_hash C b))"

definition hss_get_node :: "NodeHash \<Rightarrow> HotstuffStorage \<Rightarrow> TreeNode option" where
  "hss_get_node node_hash s = hss_get node_hash s"

definition hss_get_locked_node :: "HotstuffStorage \<Rightarrow> TreeNode" where
  "hss_get_locked_node s = st_b_locked (hs_state s)"

definition hss_update_locked_node :: "TreeNode \<Rightarrow> HotstuffStorage \<Rightarrow> HotstuffStorage" where
  "hss_update_locked_node node s = set_dirty (s\<lparr>hs_state := (hs_state s)\<lparr>st_b_locked := node\<rparr>\<rparr>)"

definition hss_get_last_committed :: "HotstuffStorage \<Rightarrow> TreeNode" where
  "hss_get_last_committed s = st_last_commit (hs_state s)"

definition hss_get_view :: "HotstuffStorage \<Rightarrow> ViewNumber" where
  "hss_get_view s = st_current_view (hs_state s)"

definition hss_increase_view :: "ViewNumber \<Rightarrow> HotstuffStorage \<Rightarrow> HotstuffStorage" where
  "hss_increase_view new_view s =
     set_dirty (s\<lparr>hs_state := (hs_state s)\<lparr>st_current_view := max (st_current_view (hs_state s)) new_view\<rparr>\<rparr>)"

definition hss_is_consecutive_three_chain :: "crypto \<Rightarrow> TreeNode list \<Rightarrow> HotstuffStorage \<Rightarrow> bool" where
  "hss_is_consecutive_three_chain C chain s =
     (case chain of
        [b_3, b_2, b] \<Rightarrow> parent b_3 = TreeNode_hash C b_2 \<and> parent b_2 = TreeNode_hash C b
      | _ \<Rightarrow> False)"

definition hss_get_vheight :: "HotstuffStorage \<Rightarrow> ViewNumber" where
  "hss_get_vheight s = st_vheight (hs_state s)"

definition hss_update_vheight :: "ViewNumber \<Rightarrow> HotstuffStorage \<Rightarrow> ViewNumber \<times> HotstuffStorage" where
  "hss_update_vheight vheight s =
     (let prev = st_vheight (hs_state s)
      in (prev, set_dirty (s\<lparr>hs_state := (hs_state s)\<lparr>st_vheight := max (st_vheight (hs_state s)) vheight\<rparr>\<rparr>)))"

text \<open>\<open>for h in committed_height + 1 ..= to\<close>, each round storing \<open>h\<close>.\<close>

definition commit_loop :: "ViewNumber \<Rightarrow> ViewNumber \<Rightarrow> ViewNumber" where
  "commit_loop committed to = foldl (\<lambda>_ h. word_of_nat h) committed [unat committed + 1 ..< Suc (unat to)]"

definition hss_commit :: "TreeNode \<Rightarrow> HotstuffStorage \<Rightarrow> HotstuffStorage" where
  "hss_commit to_commit s =
     (if st_committed_height (hs_state s) \<ge> height to_commit then s
      else
        set_dirty (s\<lparr>hs_state := (hs_state s)
          \<lparr>st_committed_height := commit_loop (st_committed_height (hs_state s)) (height to_commit),
           st_last_commit := to_commit\<rparr>\<rparr>))"

definition hss_hotstuff_status :: "HotstuffStorage \<Rightarrow> Snapshot" where
  "hss_hotstuff_status s =
     \<lparr>ss_view = st_current_view (hs_state s), ss_leader = None, ss_qc_high = st_qc_high (hs_state s),
      ss_leaf = st_leaf (hs_state s), ss_locked_node = st_b_locked (hs_state s),
      ss_last_committed = st_committed_height (hs_state s)\<rparr>"

definition hss_safety_storage :: "crypto \<Rightarrow> HotstuffStorage SafetyStorage" where
  "hss_safety_storage C =
     \<lparr>st_flush = hss_flush, append_new_node = hss_append_new_node C, append_new_qc = hss_append_new_qc,
      get_node = hss_get_node, find_three_chain = hss_find_three_chain,
      is_consecutive_three_chain = hss_is_consecutive_three_chain C,
      is_conflicting = hss_is_conflicting C, get_qc_high = hss_get_qc_high,
      update_qc_high = hss_update_qc_high C, get_leaf = hss_get_leaf, update_leaf = hss_update_leaf C,
      get_locked_node = hss_get_locked_node, update_locked_node = hss_update_locked_node,
      get_view = hss_get_view, increase_view = hss_increase_view, commit = hss_commit,
      get_last_committed = hss_get_last_committed, get_vheight = hss_get_vheight,
      update_vheight = hss_update_vheight, hotstuff_status = hss_hotstuff_status\<rparr>"

subsection \<open>LivenessStorage\<close>

definition hss_ls_flush :: "HotstuffStorage \<Rightarrow> (HotstuffStorage \<times> (LivenessStorageErr + unit)) exec" where
  "hss_ls_flush s = exec_bind (async_flush s) (\<lambda>(s1, r).
     Return (s1, case r of Inl e \<Rightarrow> Inl FailedToFlush | Inr u \<Rightarrow> Inr u))"

definition hss_append_tc ::
    "crypto \<Rightarrow> TimeoutCertificate \<Rightarrow> HotstuffStorage \<Rightarrow> HotstuffStorage \<times> (LivenessStorageErr + ViewNumber)" where
  "hss_append_tc C tc s =
     (let s1 = (case tc_view_sign tc of
                  Partial _ \<Rightarrow> s\<lparr>hs_partial_tc_queue := hs_partial_tc_queue s @ [tc]\<rparr>
                | Combined _ \<Rightarrow> s\<lparr>hs_combined_tc_queue := hs_combined_tc_queue s @ [tc]\<rparr>);
          s2 = set_dirty s1;
          (s3, r) = compress_tc C s2
      in (s3, Inr (case r of
                     Some v \<Rightarrow> v
                   | None \<Rightarrow> (if hss_get_view s3 = 0 then 0 else hss_get_view s3 - 1))))"

definition hss_is_reach_threshold :: "ViewNumber \<Rightarrow> HotstuffStorage \<Rightarrow> bool" where
  "hss_is_reach_threshold view s =
     (case bt_get view (hs_tc_map s) of
        None \<Rightarrow> False | Some tcs \<Rightarrow> length tcs \<ge> conf_threshold (hs_conf s))"

definition hss_ls_update_qc_high ::
    "crypto \<Rightarrow> TreeNode \<Rightarrow> GenericQC \<Rightarrow> HotstuffStorage \<Rightarrow> HotstuffStorage \<times> (LivenessStorageErr + unit)" where
  "hss_ls_update_qc_high C node qc s = (set_dirty (hss_update_qc_high C node qc s), Inr ())"

definition hss_fetch_branch :: "BranchSyncStrategy \<Rightarrow> HotstuffStorage \<Rightarrow> LivenessStorageErr + BranchData" where
  "hss_fetch_branch strategy s =
     (case strategy of Grow grow_from _ \<Rightarrow>
        (let v = filter (\<lambda>n. height n > grow_from) (hm_values (hs_in_mem_queue s))
         in Inr \<lparr>bd_data = sort_key height v\<rparr>))"

definition hss_is_qc_node_exists :: "GenericQC \<Rightarrow> HotstuffStorage \<Rightarrow> bool" where
  "hss_is_qc_node_exists qc s = (hss_get (qc_node qc) s \<noteq> None)"

definition hss_new_view_set ::
    "ViewNumber \<Rightarrow> (new_views \<Rightarrow> new_views) \<Rightarrow> HotstuffStorage \<Rightarrow> new_views \<times> HotstuffStorage" where
  "hss_new_view_set view f s =
     (let (nv, m) = bt_entry_or view [] (hs_new_view_set s)
      in (f nv, s\<lparr>hs_new_view_set := bt_insert view (f nv) m\<rparr>))"

definition hss_clean_new_view_set :: "ViewNumber \<Rightarrow> HotstuffStorage \<Rightarrow> HotstuffStorage" where
  "hss_clean_new_view_set view_threshold s =
     s\<lparr>hs_new_view_set := bt_split_off view_threshold (hs_new_view_set s)\<rparr>"

definition hss_liveness_storage :: "crypto \<Rightarrow> HotstuffStorage LivenessStorage" where
  "hss_liveness_storage C =
     \<lparr>ls_flush = hss_ls_flush, append_tc = hss_append_tc C, is_reach_threshold = hss_is_reach_threshold,
      ls_update_qc_high = hss_ls_update_qc_high C, fetch_branch = hss_fetch_branch,
      is_qc_node_exists = hss_is_qc_node_exists, ls_get_locked_node = hss_get_locked_node,
      ls_get_leaf = hss_get_leaf, ls_increase_view = hss_increase_view,
      new_view_set = hss_new_view_set, clean_new_view_set = hss_clean_new_view_set,
      get_threshold = hss_threshold\<rparr>"

subsection \<open>The invariant of the store\<close>

text \<open>
  Proposals are filed under their own hash; the leaf, the lock and the last commit are filed;
  the recorded commit height is that of the last commit; the maps have no repeated keys.
\<close>

definition filed :: "crypto \<Rightarrow> (NodeHash, TreeNode) hash_map \<Rightarrow> bool" where
  "filed C q \<longleftrightarrow> hm_wf q \<and> (\<forall>(h, n) \<in> set q. TreeNode_hash C n = h)"

definition views_wf :: "(ViewNumber, new_views) btree_map \<Rightarrow> bool" where
  "views_wf m \<longleftrightarrow> bt_wf m \<and> (\<forall>(v, nv) \<in> set m. hm_wf nv)"

definition hss_inv :: "crypto \<Rightarrow> HotstuffStorage \<Rightarrow> bool" where
  "hss_inv C s \<longleftrightarrow>
     filed C (hs_in_mem_queue s)
     \<and> hss_get (TreeNode_hash C (st_leaf (hs_state s))) s \<noteq> None
     \<and> hss_get (TreeNode_hash C (st_b_locked (hs_state s))) s \<noteq> None
     \<and> hss_get (TreeNode_hash C (st_last_commit (hs_state s))) s \<noteq> None
     \<and> st_committed_height (hs_state s) = height (st_last_commit (hs_state s))
     \<and> bt_wf (hs_tc_map s) \<and> views_wf (hs_new_view_set s)"

text \<open>The stronger invariant of a store that only a machine writes: the best certificate's proposal is filed.\<close>

definition hss_inv_qc :: "crypto \<Rightarrow> HotstuffStorage \<Rightarrow> bool" where
  "hss_inv_qc C s \<longleftrightarrow> hss_inv C s \<and> hss_get (qc_node (st_qc_high (hs_state s))) s \<noteq> None"

lemma filed_iff: "filed C q \<longleftrightarrow> hm_wf q \<and> (\<forall>h n. hm_get h q = Some n \<longrightarrow> TreeNode_hash C n = h)"
  by (auto simp: filed_def hm_get_Some_iff)

lemma filed_get: "filed C q \<Longrightarrow> hm_get h q = Some n \<Longrightarrow> TreeNode_hash C n = h"
  by (simp add: filed_iff)

lemma filed_insert: "filed C q \<Longrightarrow> filed C (hm_insert (TreeNode_hash C n) n q)"
  by (auto simp: filed_iff map_simps)

lemma commit_loop_reaches: "c < t \<Longrightarrow> commit_loop c t = t"
  by (simp add: commit_loop_def word_less_nat_alt)

lemma dirty_simps [simp]:
  "hs_state (set_dirty s) = hs_state s" "hs_in_mem_queue (set_dirty s) = hs_in_mem_queue s"
  "hs_tc_map (set_dirty s) = hs_tc_map s" "hs_new_view_set (set_dirty s) = hs_new_view_set s"
  "hs_conf (set_dirty s) = hs_conf s" "hs_signaturer (set_dirty s) = hs_signaturer s"
  "hs_backend (set_dirty s) = hs_backend s" "hs_prop_queue (set_dirty s) = hs_prop_queue s"
  "hs_justify_queue (set_dirty s) = hs_justify_queue s"
  "hs_partial_tc_queue (set_dirty s) = hs_partial_tc_queue s"
  "hs_combined_tc_queue (set_dirty s) = hs_combined_tc_queue s"
  "hs_dirty (set_dirty s)"
  "hss_get h (set_dirty s) = hss_get h s"
  by (simp_all add: set_dirty_def hss_get_def)

lemma insert_simps [simp]:
  "hs_state (hss_insert h n s) = hs_state s"
  "hs_in_mem_queue (hss_insert h n s) = hm_insert h n (hs_in_mem_queue s)"
  "hs_tc_map (hss_insert h n s) = hs_tc_map s" "hs_new_view_set (hss_insert h n s) = hs_new_view_set s"
  "hs_conf (hss_insert h n s) = hs_conf s" "hs_signaturer (hss_insert h n s) = hs_signaturer s"
  "hs_backend (hss_insert h n s) = hs_backend s"
  "hss_get h' (hss_insert h n s) = (if h' = h then Some n else hss_get h' s)"
  by (simp_all add: hss_insert_def hss_get_def map_simps)

lemma get_state_update [simp]: "hss_get h (s\<lparr>hs_state := st\<rparr>) = hss_get h s"
  "hss_get h (s\<lparr>hs_justify_queue := q\<rparr>) = hss_get h s"
  "hss_get h (s\<lparr>hs_tc_map := tm\<rparr>) = hss_get h s"
  "hss_get h (s\<lparr>hs_new_view_set := nv\<rparr>) = hss_get h s"
  "hss_get h (s\<lparr>hs_combined_tc_queue := cq\<rparr>) = hss_get h s"
  "hss_get h (s\<lparr>hs_partial_tc_queue := pq\<rparr>) = hss_get h s"
  "hss_get h (s\<lparr>hs_prop_queue := prq\<rparr>) = hss_get h s"
  "hss_get h (s\<lparr>hs_backend := be\<rparr>) = hss_get h s"
  "hss_get h (s\<lparr>hs_dirty := d\<rparr>) = hss_get h s"
  by (simp_all add: hss_get_def)

lemma safety_storage_simps [simp]:
  "st_flush (hss_safety_storage C) = hss_flush"
  "append_new_node (hss_safety_storage C) = hss_append_new_node C"
  "append_new_qc (hss_safety_storage C) = hss_append_new_qc"
  "get_node (hss_safety_storage C) = hss_get"
  "find_three_chain (hss_safety_storage C) = hss_find_three_chain"
  "is_consecutive_three_chain (hss_safety_storage C) = hss_is_consecutive_three_chain C"
  "is_conflicting (hss_safety_storage C) = hss_is_conflicting C"
  "get_qc_high (hss_safety_storage C) = hss_get_qc_high"
  "update_qc_high (hss_safety_storage C) = hss_update_qc_high C"
  "get_leaf (hss_safety_storage C) = hss_get_leaf"
  "update_leaf (hss_safety_storage C) = hss_update_leaf C"
  "get_locked_node (hss_safety_storage C) = hss_get_locked_node"
  "update_locked_node (hss_safety_storage C) = hss_update_locked_node"
  "get_view (hss_safety_storage C) = hss_get_view"
  "increase_view (hss_safety_storage C) = hss_increase_view"
  "commit (hss_safety_storage C) = hss_commit"
  "get_last_committed (hss_safety_storage C) = hss_get_last_committed"
  "get_vheight (hss_safety_storage C) = hss_get_vheight"
  "update_vheight (hss_safety_storage C) = hss_update_vheight"
  "hotstuff_status (hss_safety_storage C) = hss_hotstuff_status"
  by (simp_all add: hss_safety_storage_def fun_eq_iff hss_get_node_def)

lemma liveness_storage_simps [simp]:
  "ls_flush (hss_liveness_storage C) = hss_ls_flush"
  "append_tc (hss_liveness_storage C) = hss_append_tc C"
  "is_reach_threshold (hss_liveness_storage C) = hss_is_reach_threshold"
  "ls_update_qc_high (hss_liveness_storage C) = hss_ls_update_qc_high C"
  "fetch_branch (hss_liveness_storage C) = hss_fetch_branch"
  "is_qc_node_exists (hss_liveness_storage C) = hss_is_qc_node_exists"
  "ls_get_locked_node (hss_liveness_storage C) = hss_get_locked_node"
  "ls_get_leaf (hss_liveness_storage C) = hss_get_leaf"
  "ls_increase_view (hss_liveness_storage C) = hss_increase_view"
  "new_view_set (hss_liveness_storage C) = hss_new_view_set"
  "clean_new_view_set (hss_liveness_storage C) = hss_clean_new_view_set"
  "get_threshold (hss_liveness_storage C) = hss_threshold"
  by (simp_all add: hss_liveness_storage_def)

lemmas hss_getters = hss_get_leaf_def hss_get_qc_high_def hss_get_locked_node_def
  hss_get_last_committed_def hss_get_view_def hss_get_vheight_def

text \<open>The effect of the writers on the state, operation by operation.\<close>

lemma update_leaf_effect:
  "hs_state (hss_update_leaf C n s) = (hs_state s)\<lparr>st_vheight := height n, st_leaf := n\<rparr>"
  "hs_in_mem_queue (hss_update_leaf C n s) = hm_insert (TreeNode_hash C n) n (hs_in_mem_queue s)"
  "hs_tc_map (hss_update_leaf C n s) = hs_tc_map s"
  "hs_new_view_set (hss_update_leaf C n s) = hs_new_view_set s"
  "hs_conf (hss_update_leaf C n s) = hs_conf s"
  "hss_get h (hss_update_leaf C n s) = (if h = TreeNode_hash C n then Some n else hss_get h s)"
  by (simp_all add: hss_update_leaf_def Let_def)

lemma append_new_node_effect:
  "hs_state (hss_append_new_node C n s) = hs_state s"
  "hs_in_mem_queue (hss_append_new_node C n s) = hm_insert (TreeNode_hash C n) n (hs_in_mem_queue s)"
  "hs_tc_map (hss_append_new_node C n s) = hs_tc_map s"
  "hs_new_view_set (hss_append_new_node C n s) = hs_new_view_set s"
  "hs_conf (hss_append_new_node C n s) = hs_conf s"
  "hss_get h (hss_append_new_node C n s) = (if h = TreeNode_hash C n then Some n else hss_get h s)"
  by (simp_all add: hss_append_new_node_def Let_def)

lemma append_new_qc_effect:
  "hs_state (hss_append_new_qc qc s) = hs_state s"
  "hs_in_mem_queue (hss_append_new_qc qc s) = hs_in_mem_queue s"
  "hs_tc_map (hss_append_new_qc qc s) = hs_tc_map s"
  "hs_new_view_set (hss_append_new_qc qc s) = hs_new_view_set s"
  "hs_conf (hss_append_new_qc qc s) = hs_conf s"
  "hss_get h (hss_append_new_qc qc s) = hss_get h s"
  by (simp_all add: hss_append_new_qc_def)

text \<open>The certificate is taken exactly when its proposal is higher than that of the present one.\<close>

definition qc_high_beaten :: "TreeNode \<Rightarrow> HotstuffStorage \<Rightarrow> bool" where
  "qc_high_beaten n s \<longleftrightarrow>
     (case hss_get (qc_node (st_qc_high (hs_state s))) s of None \<Rightarrow> False | Some q \<Rightarrow> height q < height n)"

lemma update_qc_high_effect:
  "hs_state (hss_update_qc_high C n qc s) =
     (if qc_high_beaten n s
      then (hs_state s)\<lparr>st_qc_high := qc, st_vheight := height n, st_leaf := n\<rparr> else hs_state s)"
  "hs_in_mem_queue (hss_update_qc_high C n qc s) =
     (if qc_high_beaten n s then hm_insert (TreeNode_hash C n) n (hs_in_mem_queue s)
      else hs_in_mem_queue s)"
  "hs_tc_map (hss_update_qc_high C n qc s) = hs_tc_map s"
  "hs_new_view_set (hss_update_qc_high C n qc s) = hs_new_view_set s"
  "hs_conf (hss_update_qc_high C n qc s) = hs_conf s"
  "hss_get h (hss_update_qc_high C n qc s) =
     (if qc_high_beaten n s \<and> h = TreeNode_hash C n then Some n else hss_get h s)"
  by (simp_all add: hss_update_qc_high_def qc_high_beaten_def hss_get_qc_high_def update_leaf_effect
      append_new_qc_effect Let_def split: option.splits)

lemmas hss_effects = update_leaf_effect append_new_node_effect append_new_qc_effect
  update_qc_high_effect hss_update_locked_node_def hss_increase_view_def hss_update_vheight_def
  hss_commit_def

lemma hss_inv_commit_height: "hss_inv C s \<Longrightarrow> st_committed_height (hs_state s) = height (hss_get_last_committed s)"
  by (simp add: hss_inv_def hss_get_last_committed_def)

subsection \<open>The contracts hold for this store\<close>

lemma hss_inv_writers:
  assumes "hss_inv C s"
  shows "hss_inv C (hss_append_new_node C n s)" "hss_inv C (hss_append_new_qc qc s)"
    "hss_inv C (hss_update_qc_high C n qc s)" "hss_inv C (hss_update_leaf C n s)"
    "hss_inv C (hss_increase_view v s)" "hss_inv C (snd (hss_update_vheight v s))"
  using assms by (auto simp: hss_inv_def hss_effects filed_insert)

lemma hss_inv_update_locked_node:
  "hss_inv C s \<Longrightarrow> hss_get (TreeNode_hash C n) s \<noteq> None \<Longrightarrow> hss_inv C (hss_update_locked_node n s)"
  by (auto simp: hss_inv_def hss_update_locked_node_def)

lemma hss_inv_commit:
  "hss_inv C s \<Longrightarrow> hss_get (TreeNode_hash C n) s \<noteq> None \<Longrightarrow> hss_inv C (hss_commit n s)"
  by (auto simp: hss_inv_def hss_commit_def not_le commit_loop_reaches)

lemma hss_progress_writers:
  assumes "hss_inv C s"
  shows "progress (hss_safety_storage C) s (hss_append_new_node C n s)"
    "progress (hss_safety_storage C) s (hss_append_new_qc qc s)"
    "progress (hss_safety_storage C) s (hss_update_qc_high C n qc s)"
    "progress (hss_safety_storage C) s (hss_update_leaf C n s)"
    "progress (hss_safety_storage C) s (hss_increase_view v s)"
    "progress (hss_safety_storage C) s (snd (hss_update_vheight v s))"
    "progress (hss_safety_storage C) s (hss_commit n s)"
  using assms by (auto simp: progress_def hss_effects hss_getters hss_inv_def)

lemma hss_three_chain_known:
  assumes "hss_inv C s" and "b \<in> set (hss_find_three_chain n s)"
  shows "hss_get (TreeNode_hash C b) s \<noteq> None"
proof -
  from assms(2) obtain h where "hss_get h s = Some b"
    by (auto simp: hss_find_three_chain_def split: option.splits)
  moreover with assms(1) have "TreeNode_hash C b = h"
    by (auto simp: hss_inv_def hss_get_def intro: filed_get)
  ultimately show ?thesis by simp
qed

text \<open>
  Any invariant that contains \<open>hss_inv\<close> and is kept by the writers meets the contract of the
  event handlers.
\<close>

lemma hss_coreI:
  assumes sub: "\<And>s. I s \<Longrightarrow> hss_inv C s"
    and "\<And>s n. I s \<Longrightarrow> I (hss_append_new_node C n s)"
    and "\<And>s qc. I s \<Longrightarrow> I (hss_append_new_qc qc s)"
    and "\<And>s n qc. I s \<Longrightarrow> hss_get (qc_node qc) s \<noteq> None \<Longrightarrow> I (hss_update_qc_high C n qc s)"
    and "\<And>s n. I s \<Longrightarrow> I (hss_update_leaf C n s)"
    and "\<And>s n. I s \<Longrightarrow> hss_get (TreeNode_hash C n) s \<noteq> None \<Longrightarrow> I (hss_update_locked_node n s)"
    and "\<And>s n. I s \<Longrightarrow> hss_get (TreeNode_hash C n) s \<noteq> None \<Longrightarrow> I (hss_commit n s)"
    and "\<And>s v. I s \<Longrightarrow> I (snd (hss_update_vheight v s))"
  shows "safety_storage_core C (hss_safety_storage C) I"
proof (unfold_locales, goal_cases)
  case (12 s n)
  then show ?case by (simp add: progress_def hss_update_locked_node_def hss_getters)
next
  case (15 n s b bs)
  then show ?case by (auto simp: hss_find_three_chain_def split: option.splits)
next
  case (16 s b n)
  then show ?case using hss_three_chain_known sub by simp
next
  case (17 bs s)
  then show ?case by (auto simp: hss_is_consecutive_three_chain_def split: list.splits)
next
  case (18 s)
  then show ?case using sub [of s] by (simp add: hss_inv_def hss_get_leaf_def)
qed (use assms hss_progress_writers in auto)

lemma hss_core: "safety_storage_core C (hss_safety_storage C) (hss_inv C)"
  by (rule hss_coreI) (auto intro: hss_inv_writers hss_inv_update_locked_node hss_inv_commit)

interpretation hss: safety_storage C "hss_safety_storage C" "hss_inv C" for C
  by (intro safety_storage.intro hss_core safety_storage_axioms.intro)
    (auto simp: hss_inv_writers hss_progress_writers)

lemma hss_inv_qcD: "hss_inv_qc C s \<Longrightarrow> hss_inv C s"
  by (simp add: hss_inv_qc_def)

lemma hss_inv_qc_writers:
  assumes "hss_inv_qc C s"
  shows "hss_inv_qc C (hss_append_new_node C n s)" "hss_inv_qc C (hss_append_new_qc qc s)"
    "hss_inv_qc C (hss_update_leaf C n s)" "hss_inv_qc C (hss_increase_view v s)"
    "hss_inv_qc C (snd (hss_update_vheight v s))"
  using assms hss_inv_writers [of C s]
  by (auto simp: hss_inv_qc_def) (auto simp: hss_effects)

lemma hss_inv_qc_checked_writers:
  assumes "hss_inv_qc C s"
  shows "hss_get (qc_node qc) s \<noteq> None \<Longrightarrow> hss_inv_qc C (hss_update_qc_high C n qc s)"
    "hss_get (TreeNode_hash C n) s \<noteq> None \<Longrightarrow> hss_inv_qc C (hss_update_locked_node n s)"
    "hss_get (TreeNode_hash C n) s \<noteq> None \<Longrightarrow> hss_inv_qc C (hss_commit n s)"
  using assms hss_inv_writers(3) [of C s n qc] hss_inv_update_locked_node [of C s n] hss_inv_commit [of C s n]
  by (auto simp: hss_inv_qc_def update_qc_high_effect hss_update_locked_node_def hss_commit_def)

lemma hss_core_qc: "safety_storage_core C (hss_safety_storage C) (hss_inv_qc C)"
  by (rule hss_coreI) (auto intro: hss_inv_qcD hss_inv_qc_writers hss_inv_qc_checked_writers)

interpretation hssq: safety_storage_qc C "hss_safety_storage C" "hss_inv_qc C" for C
proof (intro safety_storage_qc.intro safety_storage.intro hss_core_qc safety_storage_axioms.intro
    safety_storage_qc_axioms.intro)
  show "hss_inv_qc C s \<Longrightarrow> get_node (hss_safety_storage C) (qc_node (get_qc_high (hss_safety_storage C) s)) s \<noteq> None"
    for s by (simp add: hss_inv_qc_def hss_get_qc_high_def)
qed (auto intro: hss_inv_qc_writers hss_progress_writers hss_inv_qcD)

text \<open>The event handlers leave the view alone.\<close>

lemma hss_view_frame:
  "hss_get_view (hss_append_new_node C n s) = hss_get_view s"
  "hss_get_view (hss_append_new_qc qc s) = hss_get_view s"
  "hss_get_view (hss_update_qc_high C n qc s) = hss_get_view s"
  "hss_get_view (hss_update_leaf C n s) = hss_get_view s"
  "hss_get_view (hss_update_locked_node n s) = hss_get_view s"
  "hss_get_view (hss_commit n s) = hss_get_view s"
  "hss_get_view (snd (hss_update_vheight w s)) = hss_get_view s"
  by (auto simp: hss_get_view_def hss_effects)

lemma hss_core_view: "safety_storage_core C (hss_safety_storage C) (\<lambda>s. hss_inv C s \<and> hss_get_view s = v)"
  by (rule hss_coreI)
    (auto simp: hss_inv_writers hss_inv_update_locked_node hss_inv_commit hss_view_frame)

subsection \<open>The liveness face of the store\<close>

lemma set_dirty_effect [simp]:
  "hss_inv C (set_dirty s) = hss_inv C s" "hss_get h (set_dirty s) = hss_get h s"
  by (simp_all add: hss_inv_def hss_get_def)

lemma progress_state_eq:
  assumes "hs_state t = hs_state s" and "hs_in_mem_queue t = hs_in_mem_queue s"
  shows "progress (hss_safety_storage C) s t"
  using assms by (simp add: progress_def hss_getters hss_get_def)

lemma compress_tc_frame:
  assumes "compress_tc C s = (t, r)"
  shows "hs_state t = hs_state s" "hs_in_mem_queue t = hs_in_mem_queue s"
    "hs_new_view_set t = hs_new_view_set s" "hs_conf t = hs_conf s"
    "bt_wf (hs_tc_map s) \<Longrightarrow> bt_wf (hs_tc_map t)"
    "hs_tc_map s = [] \<Longrightarrow> hs_tc_map t = [] \<and> r = None"
  using assms by (auto simp: compress_tc_def Let_def map_simps split: option.splits)

lemma append_tc_frame:
  "hs_state (fst (hss_append_tc C tc s)) = hs_state s"
  "hs_in_mem_queue (fst (hss_append_tc C tc s)) = hs_in_mem_queue s"
  "hs_new_view_set (fst (hss_append_tc C tc s)) = hs_new_view_set s"
  "hs_conf (fst (hss_append_tc C tc s)) = hs_conf s"
  "bt_wf (hs_tc_map s) \<Longrightarrow> bt_wf (hs_tc_map (fst (hss_append_tc C tc s)))"
  by (auto simp: hss_append_tc_def Let_def case_prod_unfold compress_tc_frame [OF surjective_pairing]
      split: SignType.split)

lemma async_flush_frame:
  assumes "async_flush s = Return (t, r)"
  shows "hs_state t = hs_state s" "hs_in_mem_queue t = hs_in_mem_queue s"
    "hs_new_view_set t = hs_new_view_set s" "hs_conf t = hs_conf s" "hs_tc_map t = hs_tc_map s"
    "r = Inr ()"
  using assms
  by (auto simp: async_flush_def reset_dirty_def Let_def exec_bind_eq_Return split: if_splits option.splits)

lemma hss_inv_frame:
  assumes "hss_inv C s" and "hs_state t = hs_state s" and "hs_in_mem_queue t = hs_in_mem_queue s"
    and "bt_wf (hs_tc_map t)" and "views_wf (hs_new_view_set t)"
  shows "hss_inv C t"
  using assms by (simp add: hss_inv_def hss_get_def)

lemma views_wf_insert: "views_wf m \<Longrightarrow> hm_wf nv \<Longrightarrow> views_wf (bt_insert v nv m)"
  by (auto simp: views_wf_def dest!: bt_insert_valuesD)

lemma views_wf_get: "views_wf m \<Longrightarrow> bt_get v m = Some nv \<Longrightarrow> hm_wf nv"
  by (auto simp: views_wf_def bt_get_def dest: map_of_SomeD)

lemma views_wf_split_off: "views_wf m \<Longrightarrow> views_wf (bt_split_off v m)"
  by (auto simp: views_wf_def bt_split_off_def bt_wf_filter)

lemma new_view_set_effect:
  "hs_state (snd (hss_new_view_set v f s)) = hs_state s"
  "hs_in_mem_queue (snd (hss_new_view_set v f s)) = hs_in_mem_queue s"
  "hs_tc_map (snd (hss_new_view_set v f s)) = hs_tc_map s"
  "hs_conf (snd (hss_new_view_set v f s)) = hs_conf s"
  by (simp_all add: hss_new_view_set_def Let_def case_prod_unfold)

lemma views_wf_new_view_set:
  assumes "views_wf (hs_new_view_set s)" and "\<And>m. hm_wf m \<Longrightarrow> hm_wf (f m)"
  shows "views_wf (hs_new_view_set (snd (hss_new_view_set v f s)))"
  using assms views_wf_get [of "hs_new_view_set s" v]
  by (auto simp: hss_new_view_set_def bt_entry_or_def Let_def views_wf_insert split: option.split)

interpretation hssl: liveness_storage C "hss_safety_storage C" "hss_inv C" "hss_liveness_storage C" for C
proof (intro liveness_storage.intro hss.safety_storage_axioms liveness_storage_axioms.intro, goal_cases)
  case (1 s t r)
  then obtain b where inv: "hss_inv C s" and fl: "async_flush s = Return (t, b)"
    by (auto simp: hss_ls_flush_def exec_bind_eq_Return)
  show ?case
    by (rule hss_inv_frame [OF inv]) (use inv in \<open>simp_all add: async_flush_frame [OF fl] hss_inv_def\<close>)
next
  case (2 s t r)
  then obtain b where fl: "async_flush s = Return (t, b)"
    by (auto simp: hss_ls_flush_def exec_bind_eq_Return)
  show ?case by (rule progress_state_eq) (simp_all add: async_flush_frame [OF fl])
next
  case (3 s tc)
  then have inv: "hss_inv C s" by simp
  then have "hss_inv C (fst (hss_append_tc C tc s))"
    by (rule hss_inv_frame) (use inv in \<open>simp_all add: append_tc_frame hss_inv_def\<close>)
  then show ?case by simp
next
  case (9 s f v)
  then have inv: "hss_inv C s" by simp
  then have "hss_inv C (snd (hss_new_view_set v f s))"
    by (rule hss_inv_frame) (use inv 9 in \<open>simp_all add: new_view_set_effect views_wf_new_view_set hss_inv_def\<close>)
  then show ?case by simp
next
  case (11 s v)
  then have inv: "hss_inv C s" by simp
  then have "hss_inv C (hss_clean_new_view_set v s)"
    by (rule hss_inv_frame)
      (use inv in \<open>simp_all add: hss_clean_new_view_set_def views_wf_split_off hss_inv_def\<close>)
  then show ?case by simp
next
  case (6 s n qc)
  then have "progress (hss_safety_storage C) s (hss_update_qc_high C n qc s)"
    by (rule hss_progress_writers)
  then show ?case by (simp add: progress_def hss_ls_update_qc_high_def hss_getters)
next
  case (13 v)
  then show ?case using hss_core_view by simp
next
  case (14 s t r)
  then obtain b where fl: "async_flush s = Return (t, b)"
    by (auto simp: hss_ls_flush_def exec_bind_eq_Return)
  then show ?case by (simp add: hss_get_view_def async_flush_frame [OF fl])
qed (auto simp: append_tc_frame new_view_set_effect hss_clean_new_view_set_def update_qc_high_effect
    hss_ls_update_qc_high_def hss_inv_writers hss_increase_view_def hss_getters
    intro!: progress_state_eq)

end
