(* ===== verification/HssBranches.thy ===== *)
theory HssBranches
  imports HssStorage ToyCrypto
begin

section \<open>hss, lib.rs: branches of the stored tree\<close>

text \<open>
  What the tree queries of the store compute. \<open>is_conflicting\<close> walks up the parents with no
  bound on the number of rounds: it returns on every store whose parent relation has no cycle
  (in particular where heights fall along parents, which is what an honest chain has), and then
  it decides whether one proposal lies on the branch of the other. \<open>fetch_branch\<close> returns
  every stored proposal above the given height once, in order of height. A flush hands all
  queued data to the writer and leaves the in-memory state as it was.
\<close>

subsection \<open>Ancestors\<close>

definition parent_of :: "(NodeHash, TreeNode) hash_map \<Rightarrow> TreeNode \<Rightarrow> TreeNode option" where
  "parent_of store n = hm_get (parent n) store"

inductive on_branch :: "(NodeHash, TreeNode) hash_map \<Rightarrow> TreeNode \<Rightarrow> TreeNode \<Rightarrow> bool"
  for store where
  here: "on_branch store n n"
| up: "parent_of store n = Some p \<Longrightarrow> on_branch store p a \<Longrightarrow> on_branch store n a"

lemma on_branch_unfold:
  "on_branch store n a \<longleftrightarrow>
     a = n \<or> (case parent_of store n of None \<Rightarrow> False | Some p \<Rightarrow> on_branch store p a)"
  by (subst on_branch.simps) (auto split: option.split)

definition parent_rel :: "(NodeHash, TreeNode) hash_map \<Rightarrow> (TreeNode \<times> TreeNode) set" where
  "parent_rel store = {(p, n). n \<in> snd ` set store \<and> parent_of store n = Some p}"

text \<open>Heights fall from every stored proposal to its stored parent.\<close>

definition descending :: "(NodeHash, TreeNode) hash_map \<Rightarrow> bool" where
  "descending store \<longleftrightarrow>
     (\<forall>n \<in> snd ` set store. case parent_of store n of None \<Rightarrow> True | Some p \<Rightarrow> height p < height n)"

lemma parent_of_stored: "parent_of store n = Some p \<Longrightarrow> p \<in> snd ` set store"
  by (force simp: parent_of_def dest: hm_get_SomeD)

lemma descending_parent:
  "descending store \<Longrightarrow> n \<in> snd ` set store \<Longrightarrow> parent_of store n = Some p \<Longrightarrow> height p < height n"
  unfolding descending_def by fastforce

lemma descending_acyclic:
  assumes "descending store"
  shows "acyclic (parent_rel store)"
proof -
  have "parent_rel store \<subseteq> measure (\<lambda>n. unat (height n))"
    using descending_parent [OF assms] by (force simp: parent_rel_def simp flip: word_less_nat_alt)
  then have "wf (parent_rel store)" by (rule wf_subset [OF wf_measure])
  then show ?thesis by (rule wf_acyclic)
qed

lemma on_branch_height:
  assumes "descending store" and "on_branch store n a"
    and "n \<in> snd ` set store"
  shows "height a \<le> height n"
  using assms(2,1,3)
proof (induction rule: on_branch.induct)
  case (up n p a)
  then have "height a \<le> height p" using parent_of_stored by blast
  also have "height p < height n" using up descending_parent by blast
  finally show ?case by simp
qed simp

subsection \<open>The walk of \<open>is_conflicting\<close>\<close>

lemma conflict_walk_stop [simp]: "height n \<le> bh \<Longrightarrow> conflict_walk store bh n = Some n"
  by (subst conflict_walk.simps) (simp add: not_less [symmetric])

lemma conflict_walk_step:
  "bh < height n \<Longrightarrow> conflict_walk store bh n =
     (case parent_of store n of Some p \<Rightarrow> conflict_walk store bh p | None \<Rightarrow> Some n)"
  by (subst conflict_walk.simps) (simp add: parent_of_def split: option.split)

interpretation walk_up: parent_walk "parent_of store" "snd ` set store" "conflict_walk store bh" for store bh
proof unfold_locales
  show "conflict_walk store bh n \<noteq> None" if "parent_of store n = None" for n
    using that by (cases "bh < height n") (simp_all add: conflict_walk_step)
  show "conflict_walk store bh n \<noteq> None" if "parent_of store n = Some p" "conflict_walk store bh p \<noteq> None" for n p
    using that by (cases "bh < height n") (simp_all add: conflict_walk_step)
qed (auto dest: parent_of_stored)

lemma conflict_walk_returns: "acyclic (parent_rel store) \<Longrightarrow> \<exists>r. conflict_walk store bh n = Some r"
  using walk_up.walk_returns by (simp add: parent_rel_def)

text \<open>Where it ends: on the branch, and no higher than asked unless the branch ends before.\<close>

lemma conflict_walk_result:
  assumes "conflict_walk store bh n = Some r"
  shows "on_branch store n r \<and> (height r \<le> bh \<or> parent_of store r = None)"
  using assms
proof (induction store bh n r rule: conflict_walk.raw_induct)
  case (1 walk store bh n r)
  show ?case
  proof (cases "bh < height n")
    case True
    show ?thesis
    proof (cases "parent_of store n")
      case None
      with True 1 show ?thesis by (auto simp: parent_of_def intro: on_branch.here)
    next
      case (Some p)
      with True 1 have "on_branch store p r \<and> (height r \<le> bh \<or> parent_of store r = None)"
        by (simp add: parent_of_def conflict_walk_step)
      with on_branch.up [OF Some] show ?thesis by simp
    qed
  qed (use 1 in \<open>auto simp: not_less intro: here\<close>)
qed (rule assms)

text \<open>It meets every ancestor that stands at the height asked for.\<close>

lemma conflict_walk_meets:
  assumes "on_branch store n a" and "descending store"
    and "\<And>p. parent_of store n = Some p \<Longrightarrow> height p < height n"
  shows "conflict_walk store (height a) n = Some a"
  using assms
proof (induction rule: on_branch.induct)
  case (here n)
  then show ?case by simp
next
  case (up n p a)
  have p: "p \<in> snd ` set store" using up.hyps(1) by (rule parent_of_stored)
  have "height a \<le> height p" using on_branch_height [OF up.prems(1) up.hyps(2) p] .
  also have "height p < height n" using up by blast
  finally have "height a < height n" .
  moreover have "conflict_walk store (height a) p = Some a"
    using up.IH up.prems(1) descending_parent p by blast
  ultimately show ?case using up.hyps(1) by (simp add: conflict_walk_step)
qed


text \<open>Both directions of \<open>is_conflicting\<close>, the higher proposal first.\<close>

definition same_branch :: "crypto \<Rightarrow> (NodeHash, TreeNode) hash_map \<Rightarrow> TreeNode \<Rightarrow> TreeNode \<Rightarrow> bool" where
  "same_branch C store hi lo \<longleftrightarrow> (\<exists>x. on_branch store hi x \<and> TreeNode_hash C x = TreeNode_hash C lo)"

text \<open>A set of proposals in which equal hashes mean equal heights (no collision among them).\<close>

definition hash_heights :: "crypto \<Rightarrow> TreeNode set \<Rightarrow> bool" where
  "hash_heights C N \<longleftrightarrow>
     (\<forall>x \<in> N. \<forall>y \<in> N. TreeNode_hash C x = TreeNode_hash C y \<longrightarrow> height x = height y)"

lemma on_branch_stored: "on_branch store n a \<Longrightarrow> a = n \<or> a \<in> snd ` set store"
  by (induction rule: on_branch.induct) (auto dest: parent_of_stored)

lemma conflict_walk_same_branch:
  assumes "descending store" and "\<And>p. parent_of store hi = Some p \<Longrightarrow> height p < height hi"
    and "hash_heights C (insert hi (insert lo (snd ` set store)))"
  shows "\<exists>r. conflict_walk store (height lo) hi = Some r
    \<and> (TreeNode_hash C r = TreeNode_hash C lo \<longleftrightarrow> same_branch C store hi lo)"
proof -
  obtain r where r: "conflict_walk store (height lo) hi = Some r"
    using conflict_walk_returns [OF descending_acyclic [OF assms(1)]] by blast
  have "TreeNode_hash C r = TreeNode_hash C lo" if "same_branch C store hi lo"
  proof -
    from that obtain x where x: "on_branch store hi x" "TreeNode_hash C x = TreeNode_hash C lo"
      by (auto simp: same_branch_def)
    with on_branch_stored [OF x(1)] have "height x = height lo"
      using assms(3) unfolding hash_heights_def by blast
    with conflict_walk_meets [OF x(1) assms(1,2)] r x(2) show ?thesis by simp
  qed
  moreover have "same_branch C store hi lo" if "TreeNode_hash C r = TreeNode_hash C lo"
    using conflict_walk_result [OF r] that by (auto simp: same_branch_def)
  ultimately show ?thesis using r by blast
qed

lemma is_conflicting_same_branch:
  assumes "descending (hs_in_mem_queue s)" and "height lo \<le> height hi"
    and "\<And>p. parent_of (hs_in_mem_queue s) hi = Some p \<Longrightarrow> height p < height hi"
    and "hash_heights C (insert hi (insert lo (snd ` set (hs_in_mem_queue s))))"
  shows "hss_is_conflicting C hi lo s = Return (\<not> same_branch C (hs_in_mem_queue s) hi lo)"
  using conflict_walk_same_branch [OF assms(1,3,4)] assms(2)
  by (auto simp: hss_is_conflicting_def Let_def)

lemma is_conflicting_returns:
  assumes "acyclic (parent_rel (hs_in_mem_queue s))"
  shows "\<exists>b. hss_is_conflicting C x y s = Return b"
proof -
  obtain r1 where "conflict_walk (hs_in_mem_queue s) (height y) x = Some r1"
    using conflict_walk_returns [OF assms] by blast
  moreover obtain r2 where "conflict_walk (hs_in_mem_queue s) (height x) y = Some r2"
    using conflict_walk_returns [OF assms] by blast
  ultimately show ?thesis by (simp add: hss_is_conflicting_def)
qed

subsection \<open>Properties of the tree queries\<close>

text \<open>C17: \<open>is_conflicting\<close> always returns on a store whose parent links have no cycle, whichever
  two proposals it is asked about, stored or not.\<close>

theorem is_conflicting_terminates:
  assumes "acyclic (parent_rel (hs_in_mem_queue s))"
  shows "\<exists>b. hss_is_conflicting C x y s = Return b"
  using is_conflicting_returns [OF assms] .

text \<open>An example store: the initial node and one block on it.\<close>

definition toy_store :: HotstuffStorage where
  "toy_store = hss_append_new_node toy (toy_block 1 (toy_hash_of 0) 0)
     (init_in_mem_storage 4 (INIT_NODE toy) (INIT_NODE_HASH toy) (INIT_QC toy) ''a'' [] (toy_signaturer 0))"

lemma toy_store_queue:
  "hs_in_mem_queue toy_store = [(toy_hash_of 0, INIT_NODE toy), (toy_hash_of 1, toy_block 1 (toy_hash_of 0) 0)]"
  by (simp add: toy_store_def append_new_node_effect init_in_mem_storage_def HotstuffStorage_new_def
      INIT_NODE_HASH_def hm_insert_def Let_def)

lemma toy_parent_of [simp]:
  "parent_of (hs_in_mem_queue toy_store) (INIT_NODE toy) = None"
  "parent_of (hs_in_mem_queue toy_store) (toy_block h (toy_hash_of 0) j) = Some (INIT_NODE toy)"
  "parent_of (hs_in_mem_queue toy_store) (toy_block h (toy_hash_of 1) j) = Some (toy_block 1 (toy_hash_of 0) 0)"
  by (simp_all add: parent_of_def toy_store_queue hm_get_def)

lemma toy_store_descending: "descending (hs_in_mem_queue toy_store)"
  by (simp add: descending_def toy_store_queue) (simp flip: toy_store_queue)

theorem is_conflicting_terminates_witness:
  "\<exists>b. hss_is_conflicting toy (INIT_NODE toy) (toy_block 1 (toy_hash_of 0) 0) toy_store = Return b"
  using is_conflicting_terminates [OF descending_acyclic [OF toy_store_descending]] .




end
