(* ===== verification/HssMachine.thy ===== *)
theory HssMachine
  imports HssBranches
begin

section \<open>The safety machine over the in-memory store\<close>

text \<open>
  The machine of \<^verbatim>\<open>hotstuff-rs\<close> run on the store of \<^verbatim>\<open>hss\<close>, as every replica runs it. The
  interpretations lift the one-step facts of the theory \<^verbatim>\<open>Machine\<close> to every sequence of calls;
  the properties then say what a replica keeps, when it votes, when it locks and commits, and
  that the update of its chain state is the one of the HotStuff paper.
\<close>

interpretation hssm: monotone_system "machine_step C (hss_safety_storage C)" "machine_ok (hss_inv C)"
    "\<lambda>m m1. progress (hss_safety_storage C) (m_storage m) (m_storage m1)" for C
  by unfold_locales
    (auto dest: hss.machine_step_advanced intro: progress_trans simp: advanced_def)

interpretation hssmq: invariant_system "machine_step C (hss_safety_storage C)" "machine_ok (hss_inv_qc C)"
  for C
  by unfold_locales (auto dest: hssq.machine_step_advanced simp: advanced_def)

text \<open>A replica as the test bench and the demo start it.\<close>

definition fresh_store ::
    "crypto \<Rightarrow> usize \<Rightarrow> ReplicaID \<Rightarrow> (ReplicaID, string) hash_map \<Rightarrow> DefaultSignaturer \<Rightarrow> HotstuffStorage" where
  "fresh_store C n self_id peers sg =
     init_in_mem_storage n (INIT_NODE C) (INIT_NODE_HASH C) (INIT_QC C) self_id peers sg"

definition fresh_machine ::
    "crypto \<Rightarrow> usize \<Rightarrow> ReplicaID \<Rightarrow> (ReplicaID, string) hash_map \<Rightarrow> DefaultSignaturer
       \<Rightarrow> HotstuffStorage Machine" where
  "fresh_machine C n self_id peers sg =
     Machine_new (Voter_new (bft_threshold n) sg) self_id n None (fresh_store C n self_id peers sg)"

lemma fresh_store_simps [simp]:
  "hs_in_mem_queue (fresh_store C n i ps sg) = [(TreeNode_hash C (INIT_NODE C), INIT_NODE C)]"
  "hs_tc_map (fresh_store C n i ps sg) = []" "hs_new_view_set (fresh_store C n i ps sg) = []"
  "st_leaf (hs_state (fresh_store C n i ps sg)) = INIT_NODE C"
  "st_qc_high (hs_state (fresh_store C n i ps sg)) = INIT_QC C"
  "st_vheight (hs_state (fresh_store C n i ps sg)) = 0"
  "st_current_view (hs_state (fresh_store C n i ps sg)) = 0"
  "st_committed_height (hs_state (fresh_store C n i ps sg)) = 0"
  "st_last_commit (hs_state (fresh_store C n i ps sg)) = INIT_NODE C"
  "st_b_locked (hs_state (fresh_store C n i ps sg)) = INIT_NODE C"
  by (simp_all add: fresh_store_def init_in_mem_storage_def HotstuffStorage_new_def Let_def
      hm_insert_def INIT_NODE_HASH_def)

lemma fresh_machine_simps [simp]:
  "m_storage (fresh_machine C n i ps sg) = fresh_store C n i ps sg"
  "m_voter (fresh_machine C n i ps sg) = Voter_new (bft_threshold n) sg"
  "m_total (fresh_machine C n i ps sg) = n" "m_self_id (fresh_machine C n i ps sg) = i"
  "m_leader_id (fresh_machine C n i ps sg) = None"
  by (simp_all add: fresh_machine_def Machine_new_def)

lemma fresh_store_inv: "hss_inv_qc C (fresh_store C n i ps sg)"
  by (simp add: hss_inv_qc_def hss_inv_def filed_def hss_get_def hm_get_def hm_wf_def views_wf_def)

lemma fresh_machine_ok: "machine_ok (hss_inv_qc C) (fresh_machine C n i ps sg)"
  by (simp add: machine_ok_def fresh_store_inv voter_wf_new)

text \<open>C6: whatever sequence of events and view changes a replica's machine handles, its locked
  height, its view and its committed height never decrease, and no proposal it knows is
  forgotten.\<close>

theorem machine_never_regresses:
  assumes "machine_ok (hss_inv C) m"
    and "run_exec (machine_step C (hss_safety_storage C)) calls m = Return m1"
  shows "height (hss_get_locked_node (m_storage m)) \<le> height (hss_get_locked_node (m_storage m1))
    \<and> hss_get_view (m_storage m) \<le> hss_get_view (m_storage m1)
    \<and> height (hss_get_last_committed (m_storage m)) \<le> height (hss_get_last_committed (m_storage m1))
    \<and> (\<forall>h. hss_get h (m_storage m) \<noteq> None \<longrightarrow> hss_get h (m_storage m1) \<noteq> None)"
  using hssm.run_below [OF assms] by (simp add: progress_def)

theorem machine_never_regresses_witness:
  "\<exists>m1. run_exec (machine_step toy (hss_safety_storage toy)) [OnViewChange ''b'' 3, Event (NewTx [])]
      (fresh_machine toy 4 ''a'' [] (toy_signaturer 0)) = Return m1
    \<and> hss_get_view (fresh_store toy 4 ''a'' [] (toy_signaturer 0)) \<le> hss_get_view (m_storage m1)"
proof -
  have ok: "machine_ok (hss_inv toy) (fresh_machine toy 4 ''a'' [] (toy_signaturer 0))"
    using fresh_machine_ok hss_inv_qcD by (auto simp: machine_ok_def)
  obtain m1 where "run_exec (machine_step toy (hss_safety_storage toy))
      [OnViewChange ''b'' 3, Event (NewTx [])] (fresh_machine toy 4 ''a'' [] (toy_signaturer 0)) = Return m1"
    by (simp add: case_prod_unfold)
  with machine_never_regresses [OF ok this] show ?thesis by simp
qed

text \<open>C7: after any sequence of events and view changes, starting from a fresh replica: every
  stored proposal is filed under its own hash, the leaf, the lock, the last commit and the
  proposal certified by the best certificate are stored, and the committed height is the
  height of the last committed proposal.\<close>

theorem machine_store_invariant:
  assumes "run_exec (machine_step C (hss_safety_storage C)) calls (fresh_machine C n i ps sg) = Return m"
  shows "(\<forall>h b. hss_get h (m_storage m) = Some b \<longrightarrow> TreeNode_hash C b = h)
    \<and> hss_get (TreeNode_hash C (hss_get_leaf (m_storage m))) (m_storage m) \<noteq> None
    \<and> hss_get (TreeNode_hash C (hss_get_locked_node (m_storage m))) (m_storage m) \<noteq> None
    \<and> hss_get (TreeNode_hash C (hss_get_last_committed (m_storage m))) (m_storage m) \<noteq> None
    \<and> hss_get (qc_node (hss_get_qc_high (m_storage m))) (m_storage m) \<noteq> None
    \<and> st_committed_height (hs_state (m_storage m)) = height (hss_get_last_committed (m_storage m))"
  using hssmq.run_invar [OF fresh_machine_ok assms]
  by (auto simp: machine_ok_def hss_inv_qc_def hss_inv_def hss_getters hss_get_def dest: filed_get)

theorem machine_store_invariant_witness:
  "\<exists>m. run_exec (machine_step toy (hss_safety_storage toy)) [Event (NewTx [Txn [1]])]
      (fresh_machine toy 4 ''a'' [] (toy_signaturer 0)) = Return m
    \<and> hss_get (qc_node (hss_get_qc_high (m_storage m))) (m_storage m) \<noteq> None"
proof -
  obtain m where "run_exec (machine_step toy (hss_safety_storage toy)) [Event (NewTx [Txn [1]])]
      (fresh_machine toy 4 ''a'' [] (toy_signaturer 0)) = Return m"
    by (simp add: case_prod_unfold)
  with machine_store_invariant [OF this] show ?thesis by blast
qed

subsection \<open>When a replica votes\<close>

text \<open>The check of a justification, spelled out for the store.\<close>

lemma verify_proposal_iff:
  "verify_proposal C S just m =
     (case get_node S (qc_node just) (m_storage m) of
        None \<Rightarrow> Inl CorruptedQC
      | Some qcn \<Rightarrow>
          if is_init_qc C just \<or> combined_verify C (sg_pks (vt_signature (m_voter m)))
               (qc_combined_sign just) (TreeNode_to_be_bytes qcn)
          then Inr ReadyNil else Inl CorruptedQC)"
  by (auto simp: verify_proposal_def voter_validate_qc_def signaturer_validate_qc_def split: option.split)

lemma verify_proposal_InrD:
  "verify_proposal C S just m = Inr r \<Longrightarrow> \<exists>q. get_node S (qc_node just) (m_storage m) = Some q"
  by (auto simp: verify_proposal_iff split: option.splits)

text \<open>A proposal goes on to the voting rule only with a justification that names a stored proposal
  and is a valid certificate of it (or looks like the initial one).\<close>

definition justified :: "crypto \<Rightarrow> 's SafetyStorage \<Rightarrow> TreeNode \<Rightarrow> TreeNode \<Rightarrow> 's Machine \<Rightarrow> bool" where
  "justified C S prop q m \<longleftrightarrow>
     get_node S (qc_node (justify prop)) (m_storage m) = Some q
     \<and> (is_init_qc C (justify prop) \<or> combined_verify C (sg_pks (vt_signature (m_voter m)))
          (qc_combined_sign (justify prop)) (TreeNode_to_be_bytes q))"

lemma not_justified_rejected:
  assumes "\<nexists>q. justified C S prop q m"
  shows "process_safety_event C S (RecvProposal ctx prop) m = Return (m, Inl CorruptedQC)"
  using assms by (auto simp: on_recv_proposal_def verify_proposal_iff justified_def split: option.splits)

lemma justified_outcome:
  assumes "justified C S prop q m" and "acceptable S prop q m = Return ok"
  shows "process_safety_event C S (RecvProposal ctx prop) m =
    exec_bind (update_nodes S prop (if ok then accept_node S prop m else m))
      (\<lambda>(m1, _). Return (m1, Inr (if ok
         then Signature (Context_single (m_self_id m) (ctx_from ctx) (get_view S (m_storage (accept_node S prop m))))
                prop (voter_sign C (m_voter m) prop)
         else ReadyNil)))"
proof -
  have v: "verify_proposal C S (justify prop) m = Inr ReadyNil"
    using assms(1) by (simp add: verify_proposal_iff justified_def)
  have g: "get_node S (qc_node (justify prop)) (m_storage m) = Some q"
    using assms(1) by (simp add: justified_def)
  have "m_self_id (accept_node S prop m) = m_self_id m" "m_voter (accept_node S prop m) = m_voter m"
    by (simp_all add: accept_node_def)
  then show ?thesis
    by (simp add: on_recv_proposal_def v g assms(2) Let_def)
qed


text \<open>The fresh replica of the examples and the first block of the example chain.\<close>

definition toy_machine :: "HotstuffStorage Machine" where
  "toy_machine = fresh_machine toy 4 ''a'' [] (toy_signaturer 0)"

lemma toy_machine_ok: "machine_ok (hss_inv_qc toy) toy_machine"
  by (simp add: toy_machine_def fresh_machine_ok)

lemma machine_ok_weaken: "machine_ok (hss_inv_qc C) m \<Longrightarrow> machine_ok (hss_inv C) m"
  by (auto simp: machine_ok_def hss_inv_qcD)

lemma toy_first_block_no_conflict:
  "hss_is_conflicting toy (toy_block 1 (toy_hash_of 0) 0) (hss_get_locked_node (m_storage toy_machine))
     (m_storage toy_machine) = Return False"
  by (simp add: toy_machine_def hss_is_conflicting_def hss_get_locked_node_def conflict_walk_step
      parent_of_def hm_get_def)

lemma toy_block_cert [simp]:
  "qc_combined_sign (justify (toy_block h par jh)) = CombinedSign (replicate 88 1 @ u64_to_be_bytes jh)"
  by (simp add: toy_block_def)

lemma take_node_bytes [simp]: "take 8 (TreeNode_to_be_bytes n) = u64_to_be_bytes (height n)"
  by (simp add: TreeNode_to_be_bytes_def)

lemma toy_first_block_justified:
  "justified toy (hss_safety_storage toy) (toy_block 1 (toy_hash_of 0) 0) (INIT_NODE toy) toy_machine"
  by (simp add: justified_def toy_machine_def hss_get_def hm_get_def)


subsection \<open>The chain state and its update, against the HotStuff paper\<close>

text \<open>
  The abstract chain state: the tree of proposals as a partial function, the best certificate,
  the leaf, the lock and the last executed proposal. \<open>spec_update\<close> is the procedure \<open>UPDATE\<close>
  of the chained protocol, written over it: with \<open>b''\<close>, \<open>b'\<close>, \<open>b\<close> the proposals reached
  by following justifications from the new one, raise the best certificate (one chain), the
  lock (two chain), and execute \<open>b\<close> if the three are parent and child (three chain).
\<close>

record chain_state =
  cs_node :: "NodeHash \<Rightarrow> TreeNode option"
  cs_qc_high :: GenericQC
  cs_leaf :: TreeNode
  cs_vheight :: ViewNumber
  cs_locked :: TreeNode
  cs_exec :: TreeNode

definition justify_node :: "chain_state \<Rightarrow> TreeNode \<Rightarrow> TreeNode option" where
  "justify_node cs n = cs_node cs (qc_node (justify n))"

definition spec_update_qc_high :: "crypto \<Rightarrow> TreeNode \<Rightarrow> GenericQC \<Rightarrow> chain_state \<Rightarrow> chain_state" where
  "spec_update_qc_high C n qc cs =
     (case cs_node cs (qc_node (cs_qc_high cs)) of
        None \<Rightarrow> cs
      | Some q \<Rightarrow> if height q < height n
          then cs\<lparr>cs_node := (cs_node cs)(TreeNode_hash C n \<mapsto> n), cs_qc_high := qc, cs_leaf := n,
                  cs_vheight := height n\<rparr>
          else cs)"

definition spec_lock :: "TreeNode \<Rightarrow> chain_state \<Rightarrow> chain_state" where
  "spec_lock b cs = (if height (cs_locked cs) < height b then cs\<lparr>cs_locked := b\<rparr> else cs)"

definition spec_exec :: "TreeNode \<Rightarrow> chain_state \<Rightarrow> chain_state" where
  "spec_exec b cs = (if height (cs_exec cs) < height b then cs\<lparr>cs_exec := b\<rparr> else cs)"

definition spec_update :: "crypto \<Rightarrow> TreeNode \<Rightarrow> chain_state \<Rightarrow> chain_state" where
  "spec_update C n cs =
     (case justify_node cs n of None \<Rightarrow> cs | Some b3 \<Rightarrow>
      let cs1 = spec_update_qc_high C b3 (justify n) cs in
      case justify_node cs b3 of None \<Rightarrow> cs1 | Some b2 \<Rightarrow>
      let cs2 = spec_lock b2 cs1 in
      case justify_node cs b2 of None \<Rightarrow> cs2 | Some b1 \<Rightarrow>
        if parent b3 = TreeNode_hash C b2 \<and> parent b2 = TreeNode_hash C b1 then spec_exec b1 cs2 else cs2)"

definition chain_of :: "HotstuffStorage \<Rightarrow> chain_state" where
  "chain_of s = \<lparr>cs_node = (\<lambda>h. hss_get h s), cs_qc_high = st_qc_high (hs_state s),
     cs_leaf = st_leaf (hs_state s), cs_vheight = st_vheight (hs_state s),
     cs_locked = st_b_locked (hs_state s), cs_exec = st_last_commit (hs_state s)\<rparr>"

lemma chain_of_update_qc_high:
  "chain_of (hss_update_qc_high C n qc s) = spec_update_qc_high C n qc (chain_of s)"
  by (auto simp: chain_of_def spec_update_qc_high_def update_qc_high_effect qc_high_beaten_def fun_eq_iff
      split: option.split)

definition raise_lock :: "TreeNode \<Rightarrow> HotstuffStorage \<Rightarrow> HotstuffStorage" where
  "raise_lock b s = (if height (hss_get_locked_node s) < height b then hss_update_locked_node b s else s)"

lemma chain_of_lock: "chain_of (raise_lock b s) = spec_lock b (chain_of s)"
  by (simp add: chain_of_def raise_lock_def spec_lock_def hss_update_locked_node_def
      hss_get_locked_node_def hss_get_def)

lemma chain_of_commit:
  assumes "st_committed_height (hs_state s) = height (st_last_commit (hs_state s))"
  shows "chain_of (hss_commit b s) = spec_exec b (chain_of s)"
  using assms by (auto simp: chain_of_def spec_exec_def hss_commit_def hss_get_def not_le set_dirty_def)

text \<open>The three stages of \<open>update_nodes\<close> on the store.\<close>

definition update_store :: "crypto \<Rightarrow> TreeNode \<Rightarrow> HotstuffStorage \<Rightarrow> HotstuffStorage" where
  "update_store C n s =
     (case hss_find_three_chain n s of
        [] \<Rightarrow> s
      | b3 # bs \<Rightarrow>
          let s1 = hss_update_qc_high C b3 (justify n) s in
          case bs of [] \<Rightarrow> s1 | b2 # bs' \<Rightarrow>
          let s2 = raise_lock b2 s1 in
          case bs' of [] \<Rightarrow> s2 | b1 # _ \<Rightarrow>
            if parent b3 = TreeNode_hash C b2 \<and> parent b2 = TreeNode_hash C b1 then hss_commit b1 s2 else s2)"

lemma three_chain_length: "length (hss_find_three_chain n s) \<le> 3"
  by (simp add: hss_find_three_chain_def split: option.split)

lemma update_nodes_store:
  "\<exists>r. update_nodes (hss_safety_storage C) n m = Return (m\<lparr>m_storage := update_store C n (m_storage m)\<rparr>, Inr r)"
proof -
  consider "hss_find_three_chain n (m_storage m) = []"
    | b3 where "hss_find_three_chain n (m_storage m) = [b3]"
    | b3 b2 where "hss_find_three_chain n (m_storage m) = [b3, b2]"
    | b3 b2 b1 where "hss_find_three_chain n (m_storage m) = [b3, b2, b1]"
    using three_chain_length [of n "m_storage m"]
    by (auto simp: numeral_eq_Suc le_Suc_eq length_Suc_conv)
  then show ?thesis
    by cases (auto simp: update_nodes_def update_store_def raise_lock_def hss_is_consecutive_three_chain_def on_storage_def
        on_commit_def Let_def)
qed

lemma chain_of_update_store:
  assumes inv: "st_committed_height (hs_state s) = height (st_last_commit (hs_state s))"
  shows "chain_of (update_store C n s) = spec_update C n (chain_of s)"
proof -
  have jn: "justify_node (chain_of s) b = hss_get (qc_node (justify b)) s" for b
    by (simp add: justify_node_def chain_of_def)
  have keep: "st_committed_height (hs_state (raise_lock b2 (hss_update_qc_high C b3 q s)))
      = height (st_last_commit (hs_state (raise_lock b2 (hss_update_qc_high C b3 q s))))" for b3 b2 q
    using inv by (simp add: raise_lock_def hss_update_locked_node_def update_qc_high_effect)
  show ?thesis
    unfolding spec_update_def jn update_store_def hss_find_three_chain_def Let_def
    by (auto simp: chain_of_update_qc_high chain_of_lock chain_of_commit keep split: option.split)
qed




text \<open>Three stored blocks of the example chain; a fourth one executes the first.\<close>

definition toy_chain_machine :: "HotstuffStorage Machine" where
  "toy_chain_machine = on_storage (\<lambda>s. hss_append_new_node toy (toy_block 3 (toy_hash_of 2) 2)
     (hss_append_new_node toy (toy_block 2 (toy_hash_of 1) 1)
       (hss_append_new_node toy (toy_block 1 (toy_hash_of 0) 0) s))) toy_machine"

lemma toy_chain_machine_ok: "machine_ok (hss_inv toy) toy_chain_machine"
  using machine_ok_weaken [OF toy_machine_ok]
  by (simp add: machine_ok_def toy_chain_machine_def hss_inv_writers)

lemma toy_chain_get:
  "hss_get (toy_hash_of h) (m_storage toy_chain_machine) =
     (if h = 3 then Some (toy_block 3 (toy_hash_of 2) 2) else if h = 2 then Some (toy_block 2 (toy_hash_of 1) 1)
      else if h = 1 then Some (toy_block 1 (toy_hash_of 0) 0) else if h = 0 then Some (INIT_NODE toy) else None)"
  by (auto simp: toy_chain_machine_def append_new_node_effect toy_machine_def hss_get_def map_simps)
    (simp_all add: hm_get_def)


end
