(* ===== verification/HonestChain.thy ===== *)
theory HonestChain
  imports HssMachine
begin

section \<open>A replica follows an honest chain\<close>

text \<open>
  The whole path of a replica through a chain in which every block extends and certifies the
  one before it, as \<open>form_chain\<close> builds it: every block is voted for, the lock trails two
  blocks behind the last one received and the execution three.

  A certificate may be the initial one or must verify against the block before (\<open>vouched\<close>).
  The only assumptions about the hash function are that the blocks of the chain do not
  collide and that none of them hashes to the all-zero value the initial node names.
\<close>

fun vouched :: "crypto \<Rightarrow> PK \<Rightarrow> TreeNode \<Rightarrow> TreeNode list \<Rightarrow> bool" where
  "vouched C pks p [] = True"
| "vouched C pks p (b # bs) =
     ((is_init_qc C (justify b) \<or> combined_verify C pks (qc_combined_sign (justify b)) (TreeNode_to_be_bytes p))
      \<and> vouched C pks b bs)"

definition honest_chain :: "crypto \<Rightarrow> PK \<Rightarrow> TreeNode list \<Rightarrow> bool" where
  "honest_chain C pks bs \<longleftrightarrow>
     linked C (INIT_NODE C) bs \<and> vouched C pks (INIT_NODE C) bs
     \<and> distinct (map (TreeNode_hash C) (INIT_NODE C # bs))
     \<and> zeroed_node_hash \<notin> set (map (TreeNode_hash C) (INIT_NODE C # bs))
     \<and> length bs < 2 ^ 64"

text \<open>The chain with the initial node in front, so that block \<open>k\<close> has height \<open>k\<close>.\<close>

definition block :: "crypto \<Rightarrow> TreeNode list \<Rightarrow> nat \<Rightarrow> TreeNode" where
  "block C bs k = (INIT_NODE C # bs) ! k"

lemma linked_nth:
  "linked C p bs \<Longrightarrow> k < length bs \<Longrightarrow>
     height (bs ! k) = height ((p # bs) ! k) + 1 \<and> parent (bs ! k) = TreeNode_hash C ((p # bs) ! k)
     \<and> qc_node (justify (bs ! k)) = TreeNode_hash C ((p # bs) ! k)"
  by (induction bs arbitrary: p k) (auto simp: nth_Cons split: nat.split)

lemma vouched_nth:
  "vouched C pks p bs \<Longrightarrow> k < length bs \<Longrightarrow>
     is_init_qc C (justify (bs ! k)) \<or> combined_verify C pks (qc_combined_sign (justify (bs ! k))) (TreeNode_to_be_bytes ((p # bs) ! k))"
  by (induction bs arbitrary: p k) (auto simp: nth_Cons split: nat.split)

lemma block_0 [simp]: "block C bs 0 = INIT_NODE C"
  by (simp add: block_def)

lemma block_Suc:
  assumes "honest_chain C pks bs" and "k < length bs"
  shows "height (block C bs (Suc k)) = height (block C bs k) + 1"
    "parent (block C bs (Suc k)) = TreeNode_hash C (block C bs k)"
    "qc_node (justify (block C bs (Suc k))) = TreeNode_hash C (block C bs k)"
    "is_init_qc C (justify (block C bs (Suc k))) \<or> combined_verify C pks (qc_combined_sign (justify (block C bs (Suc k))))
       (TreeNode_to_be_bytes (block C bs k))"
  using assms linked_nth [of C "INIT_NODE C" bs k] vouched_nth [of C pks "INIT_NODE C" bs k]
  by (simp_all add: honest_chain_def block_def)

lemma block_height: "honest_chain C pks bs \<Longrightarrow> k \<le> length bs \<Longrightarrow> height (block C bs k) = of_nat k"
  by (induction k) (simp_all add: block_Suc)

lemma block_height_less:
  assumes "honest_chain C pks bs" and "j \<le> length bs" and "k \<le> length bs"
  shows "height (block C bs j) < height (block C bs k) \<longleftrightarrow> j < k"
proof -
  have "length bs < 2 ^ 64" using assms(1) by (simp add: honest_chain_def)
  with assms show ?thesis
    by (simp add: block_height word_less_nat_alt unat_of_nat)
qed

lemma block_height_le:
  "honest_chain C pks bs \<Longrightarrow> j \<le> length bs \<Longrightarrow> k \<le> length bs
   \<Longrightarrow> height (block C bs j) \<le> height (block C bs k) \<longleftrightarrow> j \<le> k"
  using block_height_less [of C pks bs k j] by (metis leD linorder_not_le)

lemma block_hash_inject:
  assumes "honest_chain C pks bs" and "j \<le> length bs" and "k \<le> length bs"
  shows "TreeNode_hash C (block C bs j) = TreeNode_hash C (block C bs k) \<longleftrightarrow> j = k"
proof -
  let ?hs = "map (TreeNode_hash C) (INIT_NODE C # bs)"
  have "TreeNode_hash C (block C bs j) = ?hs ! j" "TreeNode_hash C (block C bs k) = ?hs ! k"
    using assms(2,3) unfolding block_def by (subst nth_map; simp)+
  moreover have "distinct ?hs" and "j < length ?hs" and "k < length ?hs"
    using assms by (simp_all add: honest_chain_def)
  ultimately show ?thesis by (metis nth_eq_iff_index_eq)
qed

lemma block_hash_not_zero:
  assumes "honest_chain C pks bs" and "j \<le> length bs"
  shows "TreeNode_hash C (block C bs j) \<noteq> zeroed_node_hash"
proof -
  have "block C bs j \<in> set (INIT_NODE C # bs)"
    using assms(2) unfolding block_def by (intro nth_mem) simp
  then have "TreeNode_hash C (block C bs j) \<in> set (map (TreeNode_hash C) (INIT_NODE C # bs))"
    by (simp only: list.set_map) (rule imageI)
  with assms(1) show ?thesis unfolding honest_chain_def by metis
qed

subsection \<open>The state after \<open>k\<close> blocks\<close>

text \<open>
  The proposals stored are exactly the blocks \<open>0\<close> to \<open>k\<close>, the best certificate is for block
  \<open>k - 1\<close>, the lock is block \<open>k - 2\<close>, the last execution block \<open>k - 3\<close> (all cut off at
  \<open>0\<close>), and the recorded voting height is at most \<open>k\<close>; from the second block on it is \<open>k - 1\<close>,
  because taking over the certificate of block \<open>k - 1\<close> sets it back.
\<close>

definition follows :: "crypto \<Rightarrow> TreeNode list \<Rightarrow> nat \<Rightarrow> chain_state \<Rightarrow> bool" where
  "follows C bs k cs \<longleftrightarrow>
     (\<forall>j \<le> k. cs_node cs (TreeNode_hash C (block C bs j)) = Some (block C bs j))
     \<and> (\<forall>h. cs_node cs h \<noteq> None \<longrightarrow> (\<exists>j \<le> k. h = TreeNode_hash C (block C bs j)))
     \<and> qc_node (cs_qc_high cs) = TreeNode_hash C (block C bs (k - 1))
     \<and> cs_locked cs = block C bs (k - 2)
     \<and> cs_exec cs = block C bs (k - 3)
     \<and> cs_vheight cs \<le> height (block C bs k)
     \<and> (2 \<le> k \<longrightarrow> cs_vheight cs = height (block C bs (k - 1)))"

lemma chain_of_simps [simp]:
  "cs_node (chain_of s) = (\<lambda>h. hss_get h s)" "cs_qc_high (chain_of s) = st_qc_high (hs_state s)"
  "cs_leaf (chain_of s) = st_leaf (hs_state s)" "cs_vheight (chain_of s) = st_vheight (hs_state s)"
  "cs_locked (chain_of s) = st_b_locked (hs_state s)" "cs_exec (chain_of s) = st_last_commit (hs_state s)"
  by (simp_all add: chain_of_def)

text \<open>Views, sets of new-view messages and timeout certificates do not touch the chain state.\<close>

lemma chain_of_bookkeeping [simp]:
  "chain_of (hss_increase_view v s) = chain_of s"
  "chain_of (hss_clean_new_view_set v s) = chain_of s"
  "chain_of (fst (hss_append_tc C tc s)) = chain_of s"
  by (auto simp: chain_of_def hss_get_def hss_increase_view_def set_dirty_def hss_clean_new_view_set_def
      hss_append_tc_def compress_tc_def Let_def case_prod_unfold fun_eq_iff split: option.split SignType.split)

lemma backend_bookkeeping [simp]:
  "hs_backend (hss_increase_view v s) = hs_backend s"
  "hs_backend (hss_clean_new_view_set v s) = hs_backend s"
  "hs_backend (fst (hss_append_tc C tc s)) = hs_backend s"
  by (auto simp: hss_increase_view_def set_dirty_def hss_clean_new_view_set_def
      hss_append_tc_def compress_tc_def Let_def case_prod_unfold split: option.split SignType.split)

lemma follows_fresh: "follows C bs 0 (chain_of (fresh_store C n i ps sg))"
  by (auto simp: follows_def hss_get_def hm_get_def)

lemma walk_along:
  assumes "honest_chain C pks bs" and "follows C bs k (chain_of s)" and "j \<le> Suc k" and "i \<le> j"
    and "j \<le> length bs"
  shows "conflict_walk (hs_in_mem_queue s) (height (block C bs i)) (block C bs j) = Some (block C bs i)"
  using assms(3-)
proof (induction j)
  case 0
  then show ?case by simp
next
  case (Suc j)
  show ?case
  proof (cases "i = Suc j")
    case False
    with Suc.prems have lt: "height (block C bs i) < height (block C bs (Suc j))"
      by (simp add: block_height_less [OF assms(1)])
    have "parent_of (hs_in_mem_queue s) (block C bs (Suc j)) = Some (block C bs j)"
      using assms(2) Suc.prems block_Suc(2) [OF assms(1), of j]
      by (simp add: parent_of_def follows_def hss_get_def)
    with lt Suc False show ?thesis by (simp add: conflict_walk_step)
  qed simp
qed

text \<open>Block \<open>k + 1\<close> extends the lock, is higher than any vote, and carries a valid certificate.\<close>

lemma next_block_no_conflict:
  assumes "honest_chain C pks bs" and "follows C bs k (chain_of s)" and "k < length bs"
  shows "hss_is_conflicting C (block C bs (Suc k)) (hss_get_locked_node s) s = Return False"
proof -
  have lk: "hss_get_locked_node s = block C bs (k - 2)"
    using assms(2) by (simp add: follows_def hss_get_locked_node_def)
  have "height (block C bs (k - 2)) \<le> height (block C bs (Suc k))"
    using assms(3) by (simp add: block_height_le [OF assms(1)])
  with walk_along [OF assms(1,2), of "Suc k" "k - 2"] assms(3) show ?thesis
    by (simp add: hss_is_conflicting_def lk)
qed

lemma next_block_above_votes:
  assumes "honest_chain C pks bs" and "follows C bs k (chain_of s)" and "k < length bs"
  shows "hss_get_vheight s < height (block C bs (Suc k))"
proof -
  have "st_vheight (hs_state s) \<le> height (block C bs k)" using assms(2) by (simp add: follows_def)
  also have "\<dots> < height (block C bs (Suc k))"
    using assms(3) by (simp add: block_height_less [OF assms(1)])
  finally show ?thesis by (simp add: hss_get_vheight_def)
qed

lemma next_block_justified:
  assumes "honest_chain C (sg_pks (vt_signature (m_voter m))) bs"
    and "follows C bs k (chain_of (m_storage m))" and "k < length bs"
  shows "justified C (hss_safety_storage C) (block C bs (Suc k)) (block C bs k) m"
  using assms block_Suc [OF assms(1,3)] by (simp add: justified_def follows_def)

subsection \<open>One block further\<close>

definition spec_accept :: "crypto \<Rightarrow> TreeNode \<Rightarrow> chain_state \<Rightarrow> chain_state" where
  "spec_accept C b cs = cs\<lparr>cs_node := (cs_node cs)(TreeNode_hash C b \<mapsto> b),
     cs_vheight := max (cs_vheight cs) (height b)\<rparr>"

lemma chain_of_accept:
  "chain_of (m_storage (accept_node (hss_safety_storage C) b m)) = spec_accept C b (chain_of (m_storage m))"
  by (auto simp: chain_of_def spec_accept_def accept_node_def hss_update_vheight_def append_new_node_effect
      fun_eq_iff Let_def)

lemma accept_nodes:
  assumes "honest_chain C pks bs" and "follows C bs k cs" and "k < length bs"
    and "cs1 = spec_accept C (block C bs (Suc k)) cs"
  shows "\<And>j. j \<le> Suc k \<Longrightarrow> cs_node cs1 (TreeNode_hash C (block C bs j)) = Some (block C bs j)"
    and "\<And>h. cs_node cs1 h \<noteq> None \<Longrightarrow> \<exists>j \<le> Suc k. h = TreeNode_hash C (block C bs j)"
    and "cs_node cs1 zeroed_node_hash = None"
proof -
  show get: "cs_node cs1 (TreeNode_hash C (block C bs j)) = Some (block C bs j)" if "j \<le> Suc k" for j
    using assms that by (auto simp: spec_accept_def follows_def le_Suc_eq block_hash_inject [OF assms(1)])
  show dom: "\<exists>j \<le> Suc k. h = TreeNode_hash C (block C bs j)" if "cs_node cs1 h \<noteq> None" for h
  proof (cases "h = TreeNode_hash C (block C bs (Suc k))")
    case False
    with that assms(4) have "cs_node cs h \<noteq> None" by (simp add: spec_accept_def)
    then show ?thesis using assms(2) unfolding follows_def by (meson le_SucI)
  qed auto
  show "cs_node cs1 zeroed_node_hash = None"
    using dom block_hash_not_zero [OF assms(1)] assms(3) by (metis Suc_leI le_trans)
qed

lemma follows_step:
  assumes hc: "honest_chain C pks bs" and fo: "follows C bs k cs" and k: "k < length bs"
  shows "follows C bs (Suc k) (spec_update C (block C bs (Suc k)) (spec_accept C (block C bs (Suc k)) cs))"
proof -
  define cs1 where "cs1 = spec_accept C (block C bs (Suc k)) cs"
  note nodes = accept_nodes [OF hc fo k cs1_def]
  have j0: "justify_node cs1 (block C bs 0) = None"
    using nodes(3) by (simp add: justify_node_def zeroed_qc_def)
  have jS: "justify_node cs1 (block C bs (Suc j)) = Some (block C bs j)" if "j \<le> k" for j
    using nodes(1) [of j] that k block_Suc(3) [OF hc, of j] by (simp add: justify_node_def)
  have par: "parent (block C bs (Suc j)) = TreeNode_hash C (block C bs j)" if "j \<le> k" for j
    using block_Suc(2) [OF hc] that k by simp
  have qcn: "cs_node cs1 (qc_node (cs_qc_high cs1)) = Some (block C bs (k - 1))"
    using fo nodes(1) [of "k - 1"] by (simp add: cs1_def spec_accept_def follows_def)
  have upd: "(cs_node cs1)(TreeNode_hash C (block C bs k) \<mapsto> block C bs k) = cs_node cs1"
    using nodes(1) [of k] by (intro ext) auto
  have vh: "cs_vheight cs1 \<le> height (block C bs (Suc k))"
    using fo k block_height_le [OF hc, of k "Suc k"] by (auto simp: cs1_def spec_accept_def follows_def)
  note less = block_height_less [OF hc]
  have qch: "qc_node (cs_qc_high cs1) = TreeNode_hash C (block C bs (k - 1))"
      and lk: "cs_locked cs1 = block C bs (k - 2)" and ex: "cs_exec cs1 = block C bs (k - 3)"
    using fo by (simp_all add: cs1_def spec_accept_def follows_def)
  have fin: "follows C bs (Suc k) cs'"
    if "cs_node cs' = cs_node cs1" "qc_node (cs_qc_high cs') = TreeNode_hash C (block C bs k)"
      "cs_locked cs' = block C bs (Suc k - 2)" "cs_exec cs' = block C bs (Suc k - 3)"
      "cs_vheight cs' \<le> height (block C bs (Suc k))"
      "0 < k \<longrightarrow> cs_vheight cs' = height (block C bs k)" for cs'
    using that nodes(1,2) by (simp add: follows_def)
  have up: "spec_update_qc_high C (block C bs k) qc cs1 =
      (if k = 0 then cs1 else cs1\<lparr>cs_qc_high := qc, cs_leaf := block C bs k,
         cs_vheight := height (block C bs k)\<rparr>)" for qc
    using k by (simp add: spec_update_qc_high_def qcn upd less)
  have jk: "justify_node cs1 (block C bs (Suc k)) = Some (block C bs k)"
    and qk: "qc_node (justify (block C bs (Suc k))) = TreeNode_hash C (block C bs k)"
    and vk: "height (block C bs k) \<le> height (block C bs (Suc k))"
    using jS [of k] block_Suc(3) [OF hc k] block_height_le [OF hc, of k "Suc k"] k by simp_all
  consider "k = 0" | "k = 1" | j where "k = Suc (Suc j)" by (cases k; cases "k - 1") auto
  then have "follows C bs (Suc k) (spec_update C (block C bs (Suc k)) cs1)"
  proof cases
    case 1
    then show ?thesis using jk j0 up qch lk ex vh by (intro fin) (simp_all add: spec_update_def)
  next
    case 2
    then show ?thesis using jk j0 jS [of 0] up qk lk ex vk
      by (intro fin) (simp_all add: spec_update_def spec_lock_def)
  next
    case (3 j)
    have lock: "spec_lock (block C bs (Suc j)) cs' = cs'\<lparr>cs_locked := block C bs (Suc j)\<rparr>"
      if "cs_locked cs' = block C bs j" for cs'
      using that k 3 by (simp add: spec_lock_def less)
    have exec: "spec_exec (block C bs j) cs' = cs'\<lparr>cs_exec := block C bs j\<rparr>"
      if "cs_exec cs' = block C bs (j - 1)" for cs'
      using that k 3 by (cases j) (simp_all add: spec_exec_def less)
    have "spec_update C (block C bs (Suc k)) cs1 =
        cs1\<lparr>cs_qc_high := justify (block C bs (Suc k)), cs_leaf := block C bs k,
          cs_vheight := height (block C bs k), cs_locked := block C bs (Suc j), cs_exec := block C bs j\<rparr>"
      using jk jS [of j] jS [of "Suc j"] par [of j] par [of "Suc j"] lk ex
      by (simp add: spec_update_def up [unfolded 3] lock exec 3)
    then show ?thesis using qk vk by (intro fin) (simp_all add: 3)
  qed
  then show ?thesis by (simp only: cs1_def)
qed

text \<open>A proposal that meets the voting rule: the machine votes and its chain state is the paper's.\<close>

lemma writers_backend [simp]:
  "hs_backend (hss_update_qc_high C n qc s) = hs_backend s" "hs_backend (hss_append_new_node C n s) = hs_backend s"
  by (simp_all add: hss_update_qc_high_def hss_update_leaf_def hss_append_new_qc_def hss_append_new_node_def
      hss_insert_def set_dirty_def Let_def split: option.split)

lemma update_store_frame [simp]:
  "hs_backend (update_store C n s) = hs_backend s" "st_current_view (hs_state (update_store C n s)) = st_current_view (hs_state s)"
  by (auto simp: update_store_def raise_lock_def hss_update_locked_node_def hss_commit_def update_qc_high_effect Let_def
      split: list.split)

lemma accept_node_frame [simp]:
  "hs_backend (m_storage (accept_node (hss_safety_storage C) b m)) = hs_backend (m_storage m)"
  "m_voter (accept_node S b m) = m_voter m" "m_self_id (accept_node S b m) = m_self_id m"
  by (simp_all add: accept_node_def append_new_node_effect hss_update_vheight_def Let_def)

lemma recv_step:
  assumes ok: "machine_ok (hss_inv C) m"
    and just: "justified C (hss_safety_storage C) p q m"
    and conf: "hss_is_conflicting C p (hss_get_locked_node (m_storage m)) (m_storage m) = Return cf"
    and rule: "hss_get_vheight (m_storage m) < height p" "\<not> cf \<or> height (hss_get_locked_node (m_storage m)) < height q"
  shows "\<exists>m1 c. process_safety_event C (hss_safety_storage C) (RecvProposal ctx p) m
      = Return (m1, Inr (Signature c p (voter_sign C (m_voter m) p)))
    \<and> ctx_to c = Single (ctx_from ctx) \<and> machine_ok (hss_inv C) m1 \<and> m_voter m1 = m_voter m
    \<and> m_self_id m1 = m_self_id m \<and> hs_backend (m_storage m1) = hs_backend (m_storage m)
    \<and> chain_of (m_storage m1) = spec_update C p (spec_accept C p (chain_of (m_storage m)))"
proof -
  let ?S = "hss_safety_storage C" and ?m' = "accept_node (hss_safety_storage C) p m"
  have acc: "acceptable ?S p q m = Return True"
    using conf rule by (simp add: acceptable_def safe_node_def Let_def)
  have ok': "machine_ok (hss_inv C) ?m'"
    using hss.advanced_accept_node [OF ok] by (simp add: advanced_def)
  let ?m1 = "?m'\<lparr>m_storage := update_store C p (m_storage ?m')\<rparr>"
  obtain r where upd: "update_nodes ?S p ?m' = Return (?m1, Inr r)"
    using update_nodes_store by blast
  have "st_committed_height (hs_state (m_storage ?m')) = height (st_last_commit (hs_state (m_storage ?m')))"
    using ok' by (simp add: machine_ok_def hss_inv_def)
  then have "chain_of (m_storage ?m1) = spec_update C p (spec_accept C p (chain_of (m_storage m)))"
    by (simp add: chain_of_update_store chain_of_accept)
  moreover have "machine_ok (hss_inv C) ?m1"
    using hss.update_nodes_ReturnD [OF ok' upd] by (simp add: advanced_def)
  ultimately show ?thesis
    unfolding justified_outcome [OF just acc] if_True upd by auto
qed

lemma honest_step:
  assumes ok: "machine_ok (hss_inv C) m"
    and hc: "honest_chain C (sg_pks (vt_signature (m_voter m))) bs"
    and fo: "follows C bs k (chain_of (m_storage m))" and k: "k < length bs"
  shows "\<exists>m1 c. process_safety_event C (hss_safety_storage C) (RecvProposal ctx (bs ! k)) m
      = Return (m1, Inr (Signature c (bs ! k) (voter_sign C (m_voter m) (bs ! k))))
    \<and> ctx_to c = Single (ctx_from ctx)
    \<and> machine_ok (hss_inv C) m1 \<and> follows C bs (Suc k) (chain_of (m_storage m1)) \<and> m_voter m1 = m_voter m"
proof -
  have "bs ! k = block C bs (Suc k)" by (simp add: block_def)
  then show ?thesis
    using recv_step [OF ok next_block_justified [OF hc fo k] next_block_no_conflict [OF hc fo k]
        next_block_above_votes [OF hc fo k], of ctx] follows_step [OF hc fo k]
    by (auto simp del: process_safety_event.simps)
qed

lemma honest_run:
  assumes hc: "honest_chain C (sg_pks sg) bs" and "k \<le> length bs"
  shows "\<exists>m. run_exec (machine_step C (hss_safety_storage C))
        (map (\<lambda>b. Event (RecvProposal ctx b)) (take k bs)) (fresh_machine C n i ps sg) = Return m
    \<and> machine_ok (hss_inv C) m \<and> follows C bs k (chain_of (m_storage m))
    \<and> m_voter m = Voter_new (bft_threshold n) sg"
  using assms(2)
proof (induction k)
  case 0
  then show ?case
    using machine_ok_weaken [OF fresh_machine_ok] follows_fresh by auto
next
  case (Suc k)
  then obtain m where run: "run_exec (machine_step C (hss_safety_storage C))
        (map (\<lambda>b. Event (RecvProposal ctx b)) (take k bs)) (fresh_machine C n i ps sg) = Return m"
      and ok: "machine_ok (hss_inv C) m" and fo: "follows C bs k (chain_of (m_storage m))"
      and vt: "m_voter m = Voter_new (bft_threshold n) sg"
    by auto
  have "honest_chain C (sg_pks (vt_signature (m_voter m))) bs" using hc by (simp add: vt Voter_new_def)
  from honest_step [OF ok this fo, of ctx] Suc.prems obtain m1 r where
    "process_safety_event C (hss_safety_storage C) (RecvProposal ctx (bs ! k)) m = Return (m1, r)"
    "machine_ok (hss_inv C) m1" "follows C bs (Suc k) (chain_of (m_storage m1))" "m_voter m1 = m_voter m"
    by auto
  then show ?case
    using run vt Suc.prems
    by (auto simp: take_Suc_conv_app_nth run_exec_append simp del: process_safety_event.simps)
qed

text \<open>C8: a fresh replica that receives the blocks of an honest chain in order answers every one of
  them with its vote, sent to the proposer, and after \<open>k\<close> of them it stores them all, is locked
  on block \<open>k - 2\<close> and has executed block \<open>k - 3\<close> (block \<open>0\<close> being the initial node).\<close>

theorem honest_chain_progress:
  assumes "honest_chain C (sg_pks sg) bs" and "k \<le> length bs"
  shows "\<exists>m. run_exec (machine_step C (hss_safety_storage C))
        (map (\<lambda>b. Event (RecvProposal ctx b)) (take k bs)) (fresh_machine C n i ps sg) = Return m
    \<and> hss_get_locked_node (m_storage m) = block C bs (k - 2)
    \<and> hss_get_last_committed (m_storage m) = block C bs (k - 3)
    \<and> (\<forall>j \<le> k. hss_get (TreeNode_hash C (block C bs j)) (m_storage m) = Some (block C bs j))
    \<and> (k < length bs \<longrightarrow> (\<exists>m1 c. process_safety_event C (hss_safety_storage C) (RecvProposal ctx (bs ! k)) m
          = Return (m1, Inr (Signature c (bs ! k) (signaturer_sign C sg (bs ! k))))
        \<and> ctx_to c = Single (ctx_from ctx)))"
proof -
  obtain m where m: "run_exec (machine_step C (hss_safety_storage C))
        (map (\<lambda>b. Event (RecvProposal ctx b)) (take k bs)) (fresh_machine C n i ps sg) = Return m"
      "machine_ok (hss_inv C) m" and fo: "follows C bs k (chain_of (m_storage m))"
      and vt: "m_voter m = Voter_new (bft_threshold n) sg"
    using honest_run [OF assms] by blast
  have "honest_chain C (sg_pks (vt_signature (m_voter m))) bs"
    using assms(1) by (simp add: vt Voter_new_def)
  from honest_step [OF m(2) this fo, of ctx]
  have "k < length bs \<longrightarrow> (\<exists>m1 c. process_safety_event C (hss_safety_storage C) (RecvProposal ctx (bs ! k)) m
          = Return (m1, Inr (Signature c (bs ! k) (signaturer_sign C sg (bs ! k))))
        \<and> ctx_to c = Single (ctx_from ctx))"
    by (auto simp: voter_sign_def vt Voter_new_def simp del: process_safety_event.simps)
  with m(1) fo show ?thesis
    by (auto simp: follows_def hss_get_locked_node_def hss_get_last_committed_def)
qed

definition toy_chain :: "TreeNode list" where
  "toy_chain = [toy_block 1 (toy_hash_of 0) 0, toy_block 2 (toy_hash_of 1) 1,
     toy_block 3 (toy_hash_of 2) 2, toy_block 4 (toy_hash_of 3) 3]"

lemma toy_chain_honest: "honest_chain toy (sg_pks (toy_signaturer 0)) toy_chain"
  by (simp add: honest_chain_def toy_chain_def)

theorem honest_chain_progress_witness:
  "\<exists>m. run_exec (machine_step toy (hss_safety_storage toy))
        (map (\<lambda>b. Event (RecvProposal (Context_broadcast ''b'' 1) b)) toy_chain)
        (fresh_machine toy 4 ''a'' [] (toy_signaturer 0)) = Return m
    \<and> hss_get_locked_node (m_storage m) = toy_block 2 (toy_hash_of 1) 1
    \<and> hss_get_last_committed (m_storage m) = toy_block 1 (toy_hash_of 0) 0"
  using honest_chain_progress [OF toy_chain_honest, of 4 "Context_broadcast ''b'' 1" 4 "''a''" "[]"]
  by (auto simp: block_def toy_chain_def)

end
