(* ===== verification/TypedStore.thy ===== *)
theory TypedStore
  imports HonestChain
begin

section \<open>Widths: hashes of 32 bytes, signatures of 96\<close>

text \<open>
  The source's types fix the width of hashes and combined signatures; the model's byte lists do not.
  Here the widths are shown to be an invariant of the machine: if the functions of \<open>crypto\<close> return
  the widths they document and the proposals and certificates that arrive have theirs, then so
  has everything the machine stores, queues for the writer and answers. The hypothesis \<open>node_wf\<close>
  of what signed bytes fix thus holds for every proposal a replica has.
\<close>

definition crypto_wf :: "crypto \<Rightarrow> bool" where
  "crypto_wf C \<longleftrightarrow> (\<forall>m. length (sha256 C m) = 32) \<and> length (sign_bytes (zeroed_sign C)) = 96
     \<and> (\<forall>pks shares sg. combine_signatures C pks shares = Some sg \<longrightarrow> length (sign_bytes sg) = 96)"

definition typed_store :: "HotstuffStorage \<Rightarrow> bool" where
  "typed_store s \<longleftrightarrow> (\<forall>n \<in> snd ` set (hs_in_mem_queue s). node_wf n)
     \<and> (\<forall>h \<in> fst ` set (hs_in_mem_queue s). length (node_hash_bytes h) = 32)
     \<and> node_wf (st_leaf (hs_state s)) \<and> node_wf (st_b_locked (hs_state s)) \<and> node_wf (st_last_commit (hs_state s))
     \<and> qc_wf (st_qc_high (hs_state s))
     \<and> (\<forall>n \<in> set (hs_prop_queue s). node_wf n) \<and> (\<forall>qc \<in> set (hs_justify_queue s). qc_wf qc)"

fun typed_event :: "SafetyEvent \<Rightarrow> bool" where
  "typed_event (RecvProposal ctx p) = node_wf p"
| "typed_event (RecvSign ctx p sign) = node_wf p"
| "typed_event (RecvNewViewMsg ctx qc) = qc_wf qc"
| "typed_event (BranchSync ctx ps) = (\<forall>p \<in> set ps. node_wf p)"
| "typed_event e = True"

fun typed_ready :: "Ready \<Rightarrow> bool" where
  "typed_ready (NewProposal ctx p) = node_wf p"
| "typed_ready (UpdateQCHigh ctx p) = node_wf p"
| "typed_ready (Signature ctx p sign) = node_wf p"
| "typed_ready (CommitState ctx p) = node_wf p"
| "typed_ready (BranchSyncDone p) = node_wf p"
| "typed_ready r = True"

subsection \<open>The store\<close>

lemma hash_width: "crypto_wf C \<Longrightarrow> length (node_hash_bytes (TreeNode_hash C n)) = 32"
  by (simp add: crypto_wf_def TreeNode_hash_def)

lemma hm_values_insert: "snd ` set (hm_insert k v m) \<subseteq> insert v (snd ` set m)"
  by (induction m) (auto simp: hm_insert_def)

lemma typed_get: "typed_store s \<Longrightarrow> hss_get h s = Some n \<Longrightarrow> node_wf n"
  by (force simp: typed_store_def hss_get_def dest: hm_get_SomeD)

lemma typed_insert:
  assumes "crypto_wf C" and "typed_store s" and "node_wf n"
  shows "typed_store (hss_insert (TreeNode_hash C n) n s)"
proof -
  let ?q = "hm_insert (TreeNode_hash C n) n (hs_in_mem_queue s)"
  have "snd ` set ?q \<subseteq> insert n (snd ` set (hs_in_mem_queue s))" by (rule hm_values_insert)
  moreover have "\<forall>b \<in> insert n (snd ` set (hs_in_mem_queue s)). node_wf b" using assms(2,3) by (simp add: typed_store_def)
  ultimately have "\<forall>b \<in> snd ` set ?q. node_wf b" by (meson subsetD)
  moreover have "\<forall>h \<in> fst ` set ?q. length (node_hash_bytes h) = 32"
    using assms(2) hash_width [OF assms(1)] by (simp add: typed_store_def keys_hm_insert)
  ultimately show ?thesis using assms(2,3) by (simp add: typed_store_def hss_insert_def)
qed

lemma typed_simps [simp]:
  "typed_store (set_dirty s) = typed_store s"
  "typed_store (hss_increase_view v s) = typed_store s"
  "typed_store (snd (hss_update_vheight v s)) = typed_store s"
  by (simp_all add: typed_store_def set_dirty_def hss_increase_view_def hss_update_vheight_def Let_def)

lemma typed_writers:
  assumes "crypto_wf C" and "typed_store s"
  shows "node_wf n \<Longrightarrow> typed_store (hss_append_new_node C n s)"
    and "qc_wf qc \<Longrightarrow> typed_store (hss_append_new_qc qc s)"
    and "node_wf n \<Longrightarrow> typed_store (hss_update_leaf C n s)"
    and "node_wf n \<Longrightarrow> typed_store (hss_update_locked_node n s)"
    and "node_wf n \<Longrightarrow> typed_store (hss_commit n s)"
proof -
  show "node_wf n \<Longrightarrow> typed_store (hss_append_new_node C n s)"
    using typed_insert [OF assms] by (simp add: hss_append_new_node_def)
  show "qc_wf qc \<Longrightarrow> typed_store (hss_append_new_qc qc s)"
    using assms(2) by (simp add: hss_append_new_qc_def set_dirty_def typed_store_def)
  show "node_wf n \<Longrightarrow> typed_store (hss_update_leaf C n s)"
    using typed_insert [OF assms] by (simp add: hss_update_leaf_def Let_def set_dirty_def hss_insert_def typed_store_def)
  show "node_wf n \<Longrightarrow> typed_store (hss_update_locked_node n s)"
    using assms(2) by (simp add: hss_update_locked_node_def set_dirty_def typed_store_def)
  show "node_wf n \<Longrightarrow> typed_store (hss_commit n s)"
    using assms(2) by (simp add: hss_commit_def set_dirty_def typed_store_def)
qed

lemma typed_update_qc_high:
  assumes "crypto_wf C" and "typed_store s" and "node_wf n" and "qc_wf qc"
  shows "typed_store (hss_update_qc_high C n qc s)"
proof -
  have "typed_store (s\<lparr>hs_state := (hs_state s)\<lparr>st_qc_high := qc\<rparr>\<rparr>)"
    using assms(2,4) by (simp add: typed_store_def)
  then show ?thesis
    using assms typed_writers by (simp add: hss_update_qc_high_def Let_def split: option.split)
qed

lemma typed_update_store:
  assumes "crypto_wf C" and "typed_store s" and "node_wf n"
  shows "typed_store (update_store C n s)"
proof -
  have "node_wf b" if "b \<in> set (hss_find_three_chain n s)" for b
    using that typed_get [OF assms(2)] by (auto simp: hss_find_three_chain_def split: option.splits)
  moreover have "qc_wf (justify n)" using assms(3) by (simp add: node_wf_def)
  ultimately show ?thesis
    using typed_update_qc_high [OF assms(1,2)] typed_writers [OF assms(1)] assms(2)
    by (auto simp: update_store_def raise_lock_def Let_def split: list.split)
qed

subsection \<open>The machine\<close>

lemma typed_update_nodes:
  assumes "crypto_wf C" and "typed_store (m_storage m)" and "node_wf n"
  shows "\<exists>m1 r. update_nodes (hss_safety_storage C) n m = Return (m1, Inr r) \<and> typed_store (m_storage m1)"
  using update_nodes_store [of C n m] typed_update_store [OF assms] by auto

lemma typed_accept_node:
  "crypto_wf C \<Longrightarrow> typed_store (m_storage m) \<Longrightarrow> node_wf p \<Longrightarrow> typed_store (m_storage (accept_node (hss_safety_storage C) p m))"
  by (simp add: accept_node_def Let_def typed_writers)

lemma typed_on_recv_proposal:
  assumes C: "crypto_wf C" and s: "typed_store (m_storage m)" and p: "node_wf p"
    and ret: "on_recv_proposal C (hss_safety_storage C) ctx p (justify p) m = Return (m1, r)"
  shows "typed_store (m_storage m1) \<and> (\<forall>x. r = Inr x \<longrightarrow> typed_ready x)"
proof -
  have upd: "typed_store (m_storage m2)"
    if "update_nodes (hss_safety_storage C) p m' = Return (m2, x)" "typed_store (m_storage m')" for m' m2 x
    using typed_update_nodes [OF C that(2) p] that(1) by auto
  have "typed_store (m_storage (on_storage (hss_append_new_qc (justify p)) m))"
    using s p typed_writers(2) [OF C s] by (simp add: node_wf_def)
  with ret s p typed_accept_node [OF C s p] show ?thesis
    by (auto simp: on_recv_proposal_def exec_bind_eq_Return verify_proposal_iff Let_def
        split: option.splits if_splits dest!: upd)
qed

lemma typed_branch_sync:
  assumes C: "crypto_wf C"
  shows "typed_store (m_storage m) \<Longrightarrow> \<forall>p \<in> set ps. node_wf p \<Longrightarrow> branch_sync_loop C (hss_safety_storage C) ps m = Return m1
    \<Longrightarrow> typed_store (m_storage m1)"
proof (induction ps arbitrary: m)
  case (Cons p ps)
  have upd: "typed_store (m_storage m2)"
    if "update_nodes (hss_safety_storage C) p m' = Return (m2, x)" "typed_store (m_storage m')" for m' m2 x
    using typed_update_nodes [OF C that(2), of p] Cons.prems(2) that(1) by auto
  show ?case
  proof (cases "verify_proposal C (hss_safety_storage C) (justify p) m")
    case (Inl e)
    with Cons.prems show ?thesis by simp
  next
    case (Inr x)
    with Cons.prems(3) obtain m' m2 y where "m' = m \<or> m' = accept_node (hss_safety_storage C) p m"
        and m2: "update_nodes (hss_safety_storage C) p m' = Return (m2, y)" "branch_sync_loop C (hss_safety_storage C) ps m2 = Return m1"
      by (auto simp: exec_bind_eq_Return split: option.splits if_splits)
    then have "typed_store (m_storage m')" using Cons.prems typed_accept_node [OF C] by auto
    with upd [OF m2(1)] Cons.IH m2(2) Cons.prems(2) show ?thesis by simp
  qed
qed simp

lemma combined_width:
  assumes "crypto_wf C" and "voter_combine_partial_sign C v vt = Return (vt1, Inr sg)"
  shows "length (sign_bytes sg) = 96"
  using assms by (auto simp: crypto_wf_def voter_combine_partial_sign_def signaturer_combine_partial_sign_def Let_def
      exec_bind_eq_Return split: if_splits option.splits sum.splits)

lemma typed_on_recv_vote:
  assumes C: "crypto_wf C" and s: "typed_store (m_storage m)" and p: "node_wf p"
    and ret: "on_recv_vote C (hss_safety_storage C) ctx p sign m = Return (m1, r)"
  shows "typed_store (m_storage m1) \<and> (\<forall>x. r = Inr x \<longrightarrow> typed_ready x)"
proof -
  have "qc_wf (GenericQC_new v (TreeNode_hash C n) sg)"
    if "voter_combine_partial_sign C h vt = Return (vt2, Inr sg)" for v n sg vt vt2 h
    using combined_width [OF C that] hash_width [OF C] by (simp add: qc_wf_def)
  note wf = this
  obtain vt x where av: "add_vote ctx (height p) sign (m_voter m) = (vt, x)" by fastforce
  obtain vt2 res where cb: "voter_combine_partial_sign C (height p) vt = Return (vt2, res)"
    using voter_combine_no_panic [of C "height p" vt] by fastforce
  show ?thesis
  proof (cases res)
    case (Inl e)
    with ret s show ?thesis by (auto simp: on_recv_vote_def av cb Let_def split: if_splits sum.splits)
  next
    case (Inr sg)
    have "typed_store (hss_update_qc_high C p (GenericQC_new v (TreeNode_hash C n) sg) (m_storage m))" for v n
      using wf cb Inr by (intro typed_update_qc_high [OF C s p]) blast
    with ret s Inr show ?thesis by (auto simp: on_recv_vote_def av cb Let_def split: if_splits sum.splits)
  qed
qed

lemma typed_process:
  assumes C: "crypto_wf C" and s: "typed_store (m_storage m)" and e: "typed_event ev"
    and ret: "process_safety_event C (hss_safety_storage C) ev m = Return (m1, r)"
  shows "typed_store (m_storage m1) \<and> (\<forall>x. r = Inr x \<longrightarrow> typed_ready x)"
proof (cases ev)
  case (RecvProposal ctx p)
  with assms show ?thesis by (intro typed_on_recv_proposal) auto
next
  case (RecvSign ctx p sign)
  with assms show ?thesis by (intro typed_on_recv_vote) auto
next
  case (NewTx cmds)
  have "node_wf (make_leaf C (hss_safety_storage C) cmds m)"
    using s hash_width [OF C] by (simp add: make_leaf_eq node_wf_def typed_store_def hss_get_qc_high_def)
  with NewTx ret s typed_writers(3) [OF C s] show ?thesis
    by (auto simp: on_beat_def Let_def case_prod_unfold)
next
  case (RecvNewViewMsg ctx qc)
  have "typed_store (hss_update_qc_high C n qc (m_storage m))" if "hss_get (qc_node qc) (m_storage m) = Some n" for n
    using typed_update_qc_high [OF C s typed_get [OF s that]] e RecvNewViewMsg by simp
  with RecvNewViewMsg ret s show ?thesis
    by (auto simp: Let_def form_update_qc_high_def hss_get_leaf_def typed_store_def split: option.splits)
next
  case (BranchSync ctx ps)
  with ret obtain m2 where m2: "branch_sync_loop C (hss_safety_storage C) ps m = Return m2"
      and m1: "m1 = m2" "r = Inr (BranchSyncDone (hss_get_leaf (m_storage m2)))"
    by (auto simp: on_branch_sync_def exec_bind_eq_Return)
  have "typed_store (m_storage m2)" using typed_branch_sync [OF C s _ m2] e BranchSync by simp
  then show ?thesis using m1 by (simp add: typed_store_def hss_get_leaf_def)
qed (use ret s in auto)

fun typed_call :: "machine_call \<Rightarrow> bool" where
  "typed_call (Event e) = typed_event e"
| "typed_call (OnViewChange l v) = True"

lemma typed_step:
  assumes "crypto_wf C" and "typed_store (m_storage m)" and "typed_call c"
    and "machine_step C (hss_safety_storage C) c m = Return m1"
  shows "typed_store (m_storage m1)"
  using assms by (cases c) (auto simp: exec_bind_eq_Return on_view_change_def Let_def dest: typed_process
      simp del: process_safety_event.simps)

lemma typed_run:
  assumes "crypto_wf C"
  shows "typed_store (m_storage m) \<Longrightarrow> \<forall>c \<in> set calls. typed_call c
    \<Longrightarrow> run_exec (machine_step C (hss_safety_storage C)) calls m = Return m1 \<Longrightarrow> typed_store (m_storage m1)"
  by (induction calls arbitrary: m)
    (auto simp: exec_bind_eq_Return simp del: machine_step.simps dest: typed_step [OF assms])

lemma typed_fresh: "crypto_wf C \<Longrightarrow> typed_store (fresh_store C n i ps sg)"
  by (simp add: typed_store_def node_wf_def qc_wf_def zeroed_qc_def zeroed_node_hash_def NodeHash_genesis_def hash_width)
    (simp add: fresh_store_def init_in_mem_storage_def HotstuffStorage_new_def Let_def crypto_wf_def)


text \<open>The example scheme, padded to the documented widths.\<close>

definition wide :: crypto where
  "wide = toy\<lparr>sha256 := (\<lambda>m. take 32 (toy_digest m @ replicate 32 0)),
     combine_signatures := (\<lambda>pks shares. map_option (\<lambda>sg. CombinedSign (take 96 (sign_bytes sg @ replicate 96 0)))
       (toy_combine pks shares))\<rparr>"

lemma wide_wf: "crypto_wf wide"
  by (auto simp: crypto_wf_def wide_def)


end
