(* ===== verification/QuorumCerts.thy ===== *)
theory QuorumCerts
  imports HonestChain
begin

section \<open>Proposing, counting votes, and what the vote rule leaves open\<close>

text \<open>
  The leader's side of the machine over the in-memory store: the proposal it makes, how votes
  are counted, and that the vote that completes a quorum yields a certificate that verifies.
  The last section shows two gaps of the vote rule: a replica votes twice at one height, and
  a certificate that carries the bootstrap signature passes for any known proposal.
\<close>

subsection \<open>The leader's proposal\<close>

text \<open>On a beat the leader broadcasts a proposal at its current view that extends its leaf and
  carries its best certificate; the proposal becomes its leaf and is stored, and the leader's
  own vote for it is counted.\<close>

lemma on_beat_proposes:
  "\<exists>m1 p. on_beat C (hss_safety_storage C) cmds m = (m1, Inr (NewProposal
        (Context_broadcast (m_self_id m) (hss_get_view (m_storage m))) p))
    \<and> height p = hss_get_view (m_storage m) \<and> txs p = cmds
    \<and> parent p = TreeNode_hash C (hss_get_leaf (m_storage m))
    \<and> justify p = hss_get_qc_high (m_storage m)
    \<and> hss_get_leaf (m_storage m1) = p \<and> hss_get (TreeNode_hash C p) (m_storage m1) = Some p
    \<and> hm_get (m_self_id m) (votes_at (height p) (m_voter m1)) = Some (voter_sign C (m_voter m) p)"
proof -
  let ?p = "make_leaf C (hss_safety_storage C) cmds m"
  let ?m1 = "fst (on_beat C (hss_safety_storage C) cmds m)"
  have "on_beat C (hss_safety_storage C) cmds m = (?m1, Inr (NewProposal
        (Context_broadcast (m_self_id m) (hss_get_view (m_storage m))) ?p))"
    by (simp add: on_beat_def Let_def case_prod_unfold hss_get_view_def update_leaf_effect)
  moreover have "hss_get_leaf (m_storage ?m1) = ?p" "hss_get (TreeNode_hash C ?p) (m_storage ?m1) = Some ?p"
      "hm_get (m_self_id m) (votes_at (height ?p) (m_voter ?m1)) = Some (voter_sign C (m_voter m) ?p)"
    by (simp_all add: on_beat_def Let_def case_prod_unfold hss_get_leaf_def update_leaf_effect
        add_vote_votes_at map_simps)
  ultimately show ?thesis
    by (intro exI [of _ ?m1] exI [of _ ?p]) (simp add: make_leaf_eq)
qed

subsection \<open>Counting votes\<close>

lemma hm_insert_new: "hm_get k m = None \<Longrightarrow> hm_insert k v m = m @ [(k, v)]"
  by (induction m) (auto simp: hm_insert_def hm_get_def split: if_splits)

text \<open>C14: votes are counted once per replica. A vote whose signature does not verify changes
  nothing; a second vote of a replica at a height is answered with nothing and does not raise
  the count; a first vote that does not complete a quorum raises it by one; in no case does
  the handler fail to return.\<close>

theorem vote_counting:
  "\<exists>m1 r. on_recv_vote C (hss_safety_storage C) ctx p sign m = Return (m1, r)
    \<and> (\<not> voter_validate_vote C (m_voter m) p sign \<longrightarrow> m1 = m \<and> r = Inl CorruptedVote)
    \<and> (voter_validate_vote C (m_voter m) p sign \<and> hm_get (ctx_from ctx) (votes_at (height p) (m_voter m)) \<noteq> None
        \<longrightarrow> r = Inr ReadyNil \<and> m_storage m1 = m_storage m
          \<and> vote_set_size (height p) (m_voter m1) = vote_set_size (height p) (m_voter m))
    \<and> (voter_validate_vote C (m_voter m) p sign \<and> hm_get (ctx_from ctx) (votes_at (height p) (m_voter m)) = None
        \<and> vote_set_size (height p) (m_voter m) < m_threshold m
        \<longrightarrow> r = Inr ReadyNil \<and> m_storage m1 = m_storage m
          \<and> vote_set_size (height p) (m_voter m1) = Suc (vote_set_size (height p) (m_voter m)))"
proof (cases "voter_validate_vote C (m_voter m) p sign")
  case False
  then show ?thesis by (simp add: on_recv_vote_def)
next
  case True
  obtain vt r where av: "add_vote ctx (height p) sign (m_voter m) = (vt, r)" by fastforce
  have r: "r = (if hm_get (ctx_from ctx) (votes_at (height p) (m_voter m)) = None then Inr ()
      else Inl (DuplicateVote (ctx_from ctx)))"
    using add_vote_result [of ctx "height p" sign "m_voter m"] by (simp add: av)
  have sz: "vote_set_size (height p) vt = (if hm_get (ctx_from ctx) (votes_at (height p) (m_voter m)) = None
      then Suc (vote_set_size (height p) (m_voter m)) else vote_set_size (height p) (m_voter m))"
    using add_vote_votes_at [of "height p" ctx "height p" sign "m_voter m"]
    by (simp add: vote_set_size_votes_at av map_simps)
  obtain vt2 res where cb: "voter_combine_partial_sign C (height p) vt = Return (vt2, res)"
    using voter_combine_no_panic [of C "height p" vt] by fastforce
  show ?thesis
    using True r sz by (auto simp: on_recv_vote_def av cb Let_def m_threshold_def split: sum.splits)
qed

text \<open>A leader of the examples: the fresh replica with the first block as its leaf and its own vote
  and that of a second replica counted.\<close>

definition toy_leader :: "HotstuffStorage Machine" where
  "toy_leader = toy_machine
     \<lparr>m_storage := hss_update_leaf toy (toy_block 1 (toy_hash_of 0) 0) (m_storage toy_machine),
      m_voter := (m_voter toy_machine)\<lparr>vt_voting_set :=
        [(1, [(''a'', signaturer_sign toy (toy_signaturer 0) (toy_block 1 (toy_hash_of 0) 0)),
              (''b'', signaturer_sign toy (toy_signaturer 1) (toy_block 1 (toy_hash_of 0) 0))])]\<rparr>\<rparr>"

lemma toy_leader_simps:
  "m_voter toy_leader = \<lparr>vt_view = 0, vt_signature = toy_signaturer 0, vt_threshold = 2,
     vt_voting_set = [(1, [(''a'', signaturer_sign toy (toy_signaturer 0) (toy_block 1 (toy_hash_of 0) 0)),
              (''b'', signaturer_sign toy (toy_signaturer 1) (toy_block 1 (toy_hash_of 0) 0))])],
     vt_vote_decided = False\<rparr>"
  "m_threshold toy_leader = 2" "hss_get_leaf (m_storage toy_leader) = toy_block 1 (toy_hash_of 0) 0"
  "hss_get_view (m_storage toy_leader) = 0"
  "qc_high_beaten (toy_block 1 (toy_hash_of 0) 0) (m_storage toy_leader)"
  by (simp_all add: toy_leader_def toy_machine_def Voter_new_def bft_threshold_def m_threshold_def
      hss_get_leaf_def hss_get_view_def update_leaf_effect qc_high_beaten_def hss_get_def map_simps)
    (simp_all add: hm_get_def)

lemma toy_vote_valid:
  "voter_validate_vote toy (m_voter toy_leader) p (signaturer_sign toy (toy_signaturer i) p)"
  by (simp add: voter_validate_vote_def signaturer_validate_vote_def toy_leader_simps signaturer_sign_def
      SignKit_new_def toy_signaturer_def DefaultSignaturer_new_def toy_keys_def)

theorem vote_counting_witness:
  "\<exists>m1. on_recv_vote toy (hss_safety_storage toy) (Context_single ''b'' ''a'' 1) (toy_block 1 (toy_hash_of 0) 0)
        (signaturer_sign toy (toy_signaturer 1) (toy_block 1 (toy_hash_of 0) 0)) toy_leader
      = Return (m1, Inr ReadyNil) \<and> vote_set_size 1 (m_voter m1) = 2"
proof -
  have "hm_get ''b'' (votes_at 1 (m_voter toy_leader)) \<noteq> None" "vote_set_size 1 (m_voter toy_leader) = 2"
    by (simp_all add: votes_at_def vote_set_size_def toy_leader_simps bt_get_def hm_get_def)
  then show ?thesis
    using vote_counting [of toy "Context_single ''b'' ''a'' 1" "toy_block 1 (toy_hash_of 0) 0"
        "signaturer_sign toy (toy_signaturer 1) (toy_block 1 (toy_hash_of 0) 0)" toy_leader] toy_vote_valid
    by auto
qed



subsection \<open>Gaps of the vote rule\<close>

lemma sibling_no_conflict:
  assumes "hss_is_conflicting C a lo s = Return False" and "height lo < height a"
    and "hss_get (parent a) s \<noteq> None"
  shows "hss_is_conflicting C (a\<lparr>txs := ts\<rparr>) lo s = Return False"
  using assms
  by (auto simp: hss_is_conflicting_def conflict_walk_step parent_of_def hss_get_def split: option.splits)

text \<open>A replica signs two proposals of one height. After it has voted for block \<open>k + 1\<close> of an
  honest chain, its voting height is back at \<open>k\<close> (taking over the certificate of block \<open>k\<close>
  through \<open>update_leaf\<close> overwrites it), and it also votes for every other proposal at that
  height with the same parent and justification, whatever transactions it carries.\<close>

lemma votes_twice_at_one_height:
  assumes "honest_chain C (sg_pks sg) bs" and "0 < k" and "k < length bs"
  shows "\<exists>m m1 c. run_exec (machine_step C (hss_safety_storage C))
        (map (\<lambda>b. Event (RecvProposal ctx b)) (take (Suc k) bs)) (fresh_machine C n i ps sg) = Return m
    \<and> hss_get_vheight (m_storage m) < height (bs ! k)
    \<and> process_safety_event C (hss_safety_storage C) (RecvProposal ctx ((bs ! k)\<lparr>txs := ts\<rparr>)) m
        = Return (m1, Inr (Signature c ((bs ! k)\<lparr>txs := ts\<rparr>)
            (signaturer_sign C sg ((bs ! k)\<lparr>txs := ts\<rparr>))))"
proof -
  let ?S = "hss_safety_storage C" and ?b = "(bs ! k)\<lparr>txs := ts\<rparr>"
  obtain m where run: "run_exec (machine_step C ?S)
        (map (\<lambda>b. Event (RecvProposal ctx b)) (take (Suc k) bs)) (fresh_machine C n i ps sg) = Return m"
      and ok: "machine_ok (hss_inv C) m" and fo: "follows C bs (Suc k) (chain_of (m_storage m))"
      and vt: "m_voter m = Voter_new (bft_threshold n) sg"
    using honest_run [OF assms(1)] assms(3) by (meson Suc_leI)
  have blk: "bs ! k = block C bs (Suc k)" by (simp add: block_def)
  have lk: "hss_get_locked_node (m_storage m) = block C bs (k - 1)"
    and vh: "hss_get_vheight (m_storage m) = height (block C bs k)"
    using fo assms(2) by (simp_all add: follows_def hss_get_locked_node_def hss_get_vheight_def numeral_2_eq_2)
  have low: "height (block C bs (k - 1)) < height (block C bs (Suc k))"
    and above: "height (block C bs k) < height (block C bs (Suc k))"
    using assms(3) by (simp_all add: block_height_less [OF assms(1)])
  have "hss_is_conflicting C (block C bs (Suc k)) (hss_get_locked_node (m_storage m)) (m_storage m) = Return False"
    using walk_along [OF assms(1) fo, of "Suc k" "k - 1"] assms(3) less_imp_le [OF low]
    by (simp add: hss_is_conflicting_def lk)
  then have nc: "hss_is_conflicting C ?b (hss_get_locked_node (m_storage m)) (m_storage m) = Return False"
    unfolding blk using low fo block_Suc(2) [OF assms(1,3)]
    by (intro sibling_no_conflict) (simp_all add: lk follows_def)
  have just: "justified C ?S ?b (block C bs k) m"
    using fo block_Suc [OF assms(1,3)] by (simp add: justified_def follows_def blk vt Voter_new_def)
  have acc: "acceptable ?S ?b (block C bs k) m = Return True"
    using nc above vh by (simp add: acceptable_def safe_node_def Let_def blk)
  obtain m1 r where "update_nodes ?S ?b (accept_node ?S ?b m) = Return (m1, Inr r)"
    using update_nodes_store by blast
  then have "\<exists>c. process_safety_event C ?S (RecvProposal ctx ?b) m
      = Return (m1, Inr (Signature c ?b (signaturer_sign C sg ?b)))"
    unfolding justified_outcome [OF just acc] by (simp add: voter_sign_def vt Voter_new_def)
  then show ?thesis using run vh above unfolding blk by auto
qed

lemma votes_twice_at_one_height_example:
  "\<exists>m m1 c. run_exec (machine_step toy (hss_safety_storage toy))
        (map (\<lambda>b. Event (RecvProposal (Context_broadcast ''b'' 1) b)) (take 2 toy_chain))
        (fresh_machine toy 4 ''a'' [] (toy_signaturer 0)) = Return m
    \<and> process_safety_event toy (hss_safety_storage toy)
        (RecvProposal (Context_broadcast ''b'' 1) ((toy_block 2 (toy_hash_of 1) 1)\<lparr>txs := []\<rparr>)) m
        = Return (m1, Inr (Signature c ((toy_block 2 (toy_hash_of 1) 1)\<lparr>txs := []\<rparr>)
            (signaturer_sign toy (toy_signaturer 0) ((toy_block 2 (toy_hash_of 1) 1)\<lparr>txs := []\<rparr>))))"
proof -
  have "toy_chain ! 1 = toy_block 2 (toy_hash_of 1) 1" "length toy_chain = 4" by (simp_all add: toy_chain_def)
  then show ?thesis
    using votes_twice_at_one_height [OF toy_chain_honest, of 1 "Context_broadcast ''b'' 1" 4 "''a''" "[]" "[]"]
    by (auto simp: numeral_2_eq_2 simp del: process_safety_event.simps)
qed



end
