(* ===== verification/Timers.thy ===== *)
theory Timers
  imports PmData
begin

section \<open>pacemaker, elector.rs, utils.rs, timer.rs, network.rs: election, timers, the network's edge\<close>

text \<open>
  The leader election (a hash of the view selects from a sorted roster without repetitions), the
  view timer and the sending end of the network adaptor. What the crates \<^verbatim>\<open>fnv\<close>, \<^verbatim>\<open>rand\<close> and
  \<^verbatim>\<open>tokio\<close> decide is the record \<open>env\<close>: the hash of a \<open>u64\<close>, the numbers drawn, whether a
  send finds room in time, and the two process-wide \<open>OnceCell\<close>s, empty until they are set.
\<close>

record env =
  fnv_u64 :: "u64 \<Rightarrow> u64"
  random_u64 :: "nat \<Rightarrow> u64" \<comment> \<open>the \<open>k\<close>-th draw\<close>
  accepts :: "nat \<Rightarrow> bool" \<comment> \<open>whether the \<open>k\<close>-th send is taken before its timeout\<close>
  FLUSH_INTERVAL :: "u64 option"
  DUR_REPLICA_WAIT :: "u64 option"

subsection \<open>utils.rs and elector.rs\<close>

definition view_hash :: "env \<Rightarrow> ViewNumber \<Rightarrow> usize \<Rightarrow> usize exec" where
  "view_hash E view n = (if n = 0 then Panic RemByZero else Return (unat (fnv_u64 E view) mod n))"

record RoundRobinLeaderElector =
  round_mapper :: "ReplicaID list"

definition elector_default :: RoundRobinLeaderElector where
  "elector_default = \<lparr>round_mapper = []\<rparr>"

text \<open>\<open>sort\<close>, then \<open>dedup\<close>, which removes repetitions that stand next to each other.\<close>

definition elector_init :: "ReplicaID list \<Rightarrow> RoundRobinLeaderElector \<Rightarrow> RoundRobinLeaderElector" where
  "elector_init replicas e = (let tmp = remdups_adj (sort replicas) in e\<lparr>round_mapper := tmp\<rparr>)"

definition get_leader :: "env \<Rightarrow> ViewNumber \<Rightarrow> RoundRobinLeaderElector \<Rightarrow> ReplicaID exec" where
  "get_leader E view e =
     exec_bind (view_hash E view (length (round_mapper e))) (\<lambda>i.
       exec_of_option UnwrapNone (if i < length (round_mapper e) then Some (round_mapper e ! i) else None))"

subsection \<open>timer.rs\<close>

datatype TimeoutEvent = ViewTimeout ViewNumber

text \<open>
  A started timer is a task: \<open>tm_live\<close> holds those still waiting, with their durations in
  milliseconds. Its event goes to the channel \<open>tm_channel\<close> when the delay ends; stopping the
  timers ends the waiting tasks only. A send into the full channel waits, so the channel is a queue.
  \<open>tm_draws\<close> counts the random numbers used.
\<close>

record DefaultTimer =
  tm_max_timeout :: u64
  tm_rtt :: u64
  tm_live :: "(TimeoutEvent \<times> u64) list"
  tm_channel :: "TimeoutEvent list"
  tm_draws :: nat

definition timeout_by_delay :: "env \<Rightarrow> DefaultTimer \<Rightarrow> u64 \<times> DefaultTimer" where
  "timeout_by_delay E t =
     (min (tm_max_timeout t) (push_bit 1 (tm_rtt t) + random_u64 E (tm_draws t) mod 5000),
      t\<lparr>tm_draws := tm_draws t + 1\<rparr>)"

definition DefaultTimer_new :: "u64 \<Rightarrow> u64 \<Rightarrow> DefaultTimer" where
  "DefaultTimer_new max_timeout rtt =
     \<lparr>tm_max_timeout = max_timeout, tm_rtt = rtt, tm_live = [], tm_channel = [], tm_draws = 0\<rparr>"

text \<open>\<open>start\<close> also draws a number for the task's name in the log.\<close>

definition timer_start :: "u64 \<Rightarrow> TimeoutEvent \<Rightarrow> DefaultTimer \<Rightarrow> DefaultTimer" where
  "timer_start dur te t = t\<lparr>tm_live := tm_live t @ [(te, dur)], tm_draws := tm_draws t + 1\<rparr>"

definition stop_view_timer :: "DefaultTimer \<Rightarrow> DefaultTimer" where
  "stop_view_timer t = t\<lparr>tm_live := []\<rparr>"

definition view_timeout :: "ViewNumber \<Rightarrow> u64 \<Rightarrow> DefaultTimer \<Rightarrow> DefaultTimer" where
  "view_timeout this_view dur t = timer_start dur (ViewTimeout this_view) (stop_view_timer t)"

text \<open>The delay of the \<open>i\<close>-th waiting task ends.\<close>

definition timer_fires :: "nat \<Rightarrow> DefaultTimer \<Rightarrow> DefaultTimer" where
  "timer_fires i t =
     (if i < length (tm_live t)
      then t\<lparr>tm_live := take i (tm_live t) @ drop (Suc i) (tm_live t),
             tm_channel := tm_channel t @ [fst (tm_live t ! i)]\<rparr>
      else t)"

text \<open>Dropping the timer stops its tasks. The counter \<open>cnt\<close> counts the tasks that have not ended.\<close>

definition timer_drop :: "DefaultTimer \<Rightarrow> DefaultTimer" where
  "timer_drop t = stop_view_timer t"

definition timer_cnt :: "DefaultTimer \<Rightarrow> nat" where
  "timer_cnt t = length (tm_live t)"

text \<open>So many milliseconds pass: a delay that is not longer ends, the others have less to wait.\<close>

definition timer_sleep :: "u64 \<Rightarrow> DefaultTimer \<Rightarrow> DefaultTimer" where
  "timer_sleep ms t =
     t\<lparr>tm_live := map (\<lambda>(te, dur). (te, dur - ms)) (filter (\<lambda>(_, dur). ms < dur) (tm_live t)),
       tm_channel := tm_channel t @ map fst (filter (\<lambda>(_, dur). dur \<le> ms) (tm_live t))\<rparr>"

text \<open>The test of \<^verbatim>\<open>timer.rs\<close>, with the tasks scheduled and cancelled without delay.\<close>

definition start_with_delay :: "env \<Rightarrow> (u64 \<Rightarrow> u64) \<Rightarrow> TimeoutEvent \<Rightarrow> DefaultTimer \<Rightarrow> DefaultTimer" where
  "start_with_delay E f te t = (let (dur, t1) = timeout_by_delay E t in timer_start (f dur) te t1)"

definition test_close_all_tiemr :: "env \<Rightarrow> unit exec" where
  "test_close_all_tiemr E =
     (let t = DefaultTimer_new 30000 5000;
          t1 = start_with_delay E id (ViewTimeout 0) t;
          t2 = start_with_delay E id (ViewTimeout 1) t1;
          t3 = stop_view_timer (timer_sleep 1000 t2)
      in if timer_cnt t3 \<noteq> 0 then Panic AssertFailed
         else (let t4 = timer_sleep 1000 (start_with_delay E (push_bit 1) (ViewTimeout 1) t3);
                   num = timer_cnt t4
               in if num \<noteq> 0 then Panic AssertFailed else Return ()))"

subsection \<open>network.rs\<close>

datatype NetworkMode = Test | Direct "(ReplicaID, string) hash_map" | TcpProxy string | HttpProxy

text \<open>What was handed to the network, in order, and the number of sends tried.\<close>

record NetworkAdaptor =
  na_sent :: "PeerEvent list"
  na_sends :: nat
  na_mode :: NetworkMode
  na_self_addr :: string
  na_max_transport_limit :: usize

definition send_timeout :: "env \<Rightarrow> PeerEvent \<Rightarrow> NetworkAdaptor \<Rightarrow> NetworkAdaptor" where
  "send_timeout E pe na =
     na\<lparr>na_sent := (if accepts E (na_sends na) then na_sent na @ [pe] else na_sent na),
        na_sends := na_sends na + 1\<rparr>"

subsection \<open>Properties\<close>

lemma remdups_adj_sorted: "sorted xs \<Longrightarrow> distinct (remdups_adj xs)"
  by (induction xs rule: remdups_adj.induct) auto

lemma roster_of_set:
  "round_mapper (elector_init replicas e) = sorted_list_of_set (set replicas)"
proof -
  let ?r = "remdups_adj (sort replicas)"
  have "sorted ?r" by (simp add: sorted_remdups_adj)
  moreover have "distinct ?r" by (simp add: remdups_adj_sorted)
  moreover have "set ?r = set replicas" by simp
  ultimately have "?r = sorted_list_of_set (set replicas)"
    by (metis List.finite_set sorted_list_of_set.idem_if_sorted_distinct)
  then show ?thesis by (simp add: elector_init_def)
qed

text \<open>Leader election is total and agreed on. Every replica initialised with the same
  non-empty set of replicas, in any order and with any repetitions, names for each view the
  same leader, which is one of them; with an empty roster the call panics.\<close>

lemma leader_agreed:
  "(set rs = set rs' \<longrightarrow> get_leader E v (elector_init rs e) = get_leader E v (elector_init rs' e'))
   \<and> (rs \<noteq> [] \<longrightarrow> (\<exists>r \<in> set rs. get_leader E v (elector_init rs e) = Return r))
   \<and> (rs = [] \<longrightarrow> get_leader E v (elector_init rs e) = Panic RemByZero)"
proof -
  have "\<exists>r \<in> set rs. get_leader E v (elector_init rs e) = Return r" if "rs \<noteq> []"
  proof -
    let ?l = "sorted_list_of_set (set rs)"
    have pos: "0 < length ?l" using that by (simp add: card_gt_0_iff)
    then have lt: "unat (fnv_u64 E v) mod length ?l < length ?l" by (rule mod_less_divisor)
    then have "?l ! (unat (fnv_u64 E v) mod length ?l) \<in> set rs" using nth_mem [OF lt] by simp
    then show ?thesis using pos lt by (auto simp: get_leader_def view_hash_def roster_of_set)
  qed
  then show ?thesis by (auto simp: get_leader_def view_hash_def roster_of_set)
qed

text \<open>An environment for examples: the view is its own hash, every send succeeds.\<close>

definition toy_env :: env where
  "toy_env = \<lparr>fnv_u64 = (\<lambda>v. v), random_u64 = (\<lambda>_. 4999), accepts = (\<lambda>_. True),
     FLUSH_INTERVAL = Some 500, DUR_REPLICA_WAIT = Some 500\<rparr>"

lemma leader_agreed_example:
  "get_leader toy_env 5 (elector_init [''b'', ''a'', ''b''] elector_default)
     = get_leader toy_env 5 (elector_init [''a'', ''b''] elector_default)
   \<and> (\<exists>r \<in> {''a'', ''b''}. get_leader toy_env 5 (elector_init [''b'', ''a'', ''b''] elector_default) = Return r)"
  using leader_agreed [of "[''b'', ''a'', ''b'']" "[''a'', ''b'']" toy_env 5 elector_default elector_default]
  by auto

text \<open>The delay lies between twice the round trip and five seconds more, when the maximum is above that.\<close>

lemma timeout_by_delay_bounds:
  assumes "push_bit 1 (tm_rtt t) = a" and "unat a + 5000 < 2 ^ 64" and "a + 5000 \<le> tm_max_timeout t"
  shows "a \<le> fst (timeout_by_delay E t) \<and> fst (timeout_by_delay E t) < a + 5000"
proof -
  let ?r = "random_u64 E (tm_draws t) mod 5000"
  have "?r < 5000" by (rule word_mod_less_divisor) simp
  then have small: "unat ?r < 5000" by (simp add: word_less_nat_alt)
  then have sum: "unat (a + ?r) = unat a + unat ?r" "unat (a + 5000) = unat a + 5000"
    using assms(2) by (auto simp: unat_plus_if')
  then have "a + ?r \<le> tm_max_timeout t" using small assms(3) by (simp add: word_le_nat_alt)
  then have "fst (timeout_by_delay E t) = a + ?r" using assms(1) by (simp add: timeout_by_delay_def min_def)
  then show ?thesis using small sum by (simp add: word_le_nat_alt word_less_nat_alt)
qed

text \<open>The test of the timer cannot pass. The timer it starts last waits for 20 seconds or more, and one
  second later the test asks for no waiting timer without having stopped it.\<close>

lemma start_with_delay_simps [simp]:
  "tm_live (start_with_delay E f te t) = tm_live t @ [(te, f (fst (timeout_by_delay E t)))]"
  by (simp add: start_with_delay_def timer_start_def timeout_by_delay_def)

lemma test_close_all_fails: "test_close_all_tiemr E = Panic AssertFailed"
proof -
  define t3 where "t3 = stop_view_timer (timer_sleep 1000
    (start_with_delay E id (ViewTimeout 1) (start_with_delay E id (ViewTimeout 0) (DefaultTimer_new 30000 5000))))"
  let ?d = "fst (timeout_by_delay E t3)"
  have "tm_rtt t3 = 5000" "tm_max_timeout t3 = 30000"
    by (simp_all add: t3_def stop_view_timer_def timer_sleep_def start_with_delay_def timer_start_def timeout_by_delay_def
        DefaultTimer_new_def)
  then have d: "10000 \<le> ?d \<and> ?d < 10000 + 5000" by (intro timeout_by_delay_bounds) simp_all
  then have "unat (push_bit 1 ?d) = 2 * unat ?d"
    by (simp add: word_less_nat_alt unat_word_ariths push_bit_eq_mult)
  with d have "1000 < push_bit 1 ?d" by (simp add: word_less_nat_alt word_le_nat_alt)
  moreover have "tm_live t3 = []" by (simp add: t3_def stop_view_timer_def)
  ultimately show ?thesis
    unfolding test_close_all_tiemr_def Let_def t3_def [symmetric] by (simp add: timer_cnt_def timer_sleep_def)
qed

text \<open>The random delay of the pacemaker's timer, made with a maximum of 30 seconds and a round
  trip of 12, lies between 24000 and 28999 milliseconds, whatever number is drawn.\<close>

lemma view_timer_delay_bounds:
  assumes "tm_max_timeout t = 30000" and "tm_rtt t = 12000"
  shows "24000 \<le> fst (timeout_by_delay E t) \<and> fst (timeout_by_delay E t) < 29000"
  using timeout_by_delay_bounds [of t 24000 E] assms by simp

lemma view_timer_delay_bounds_example:
  "24000 \<le> fst (timeout_by_delay toy_env (DefaultTimer_new 30000 12000))
   \<and> fst (timeout_by_delay toy_env (DefaultTimer_new 30000 12000)) < 29000"
  using view_timer_delay_bounds [of "DefaultTimer_new 30000 12000" toy_env]
  by (simp add: DefaultTimer_new_def)

end
