(* ===== verification/Pacemaker.thy ===== *)
theory Pacemaker
  imports Machine Timers
begin

section \<open>pacemaker, pacemaker.rs: views, synchronisation and the event loop\<close>

text \<open>
  \<open>Pacemaker<S>\<close>, one definition per method, over any storage given by its two traits \<open>S\<close> and
  \<open>L\<close>. The methods return \<open>io::Result\<close>, but none of them builds an \<open>Err\<close>: the model returns
  the pacemaker alone, in \<open>exec\<close> because a call may panic or, through the machine, not return.
  \<open>sync_state\<close> is only touched by the pacemaker's own task, so its atomic exchange is a
  comparison and an assignment. The arguments of the logging macros are not evaluated.
\<close>

definition SYNC_SYNCHRONIZING :: u8 where "SYNC_SYNCHRONIZING = 0"

definition SYNC_IDLE :: u8 where "SYNC_IDLE = 1"

definition BATCH_SIZE :: usize where "BATCH_SIZE = 8"

subsection \<open>SafetyEventWrapper: pending proposals, the least justification first\<close>

record SafetyEventWrapper =
  sw_se :: SafetyEvent
  sw_view :: i64

text \<open>\<open>-1 * view as i64\<close>: the cast binds tighter than the product.\<close>

definition SafetyEventWrapper_from :: "ViewNumber \<Rightarrow> SafetyEvent \<Rightarrow> SafetyEventWrapper" where
  "SafetyEventWrapper_from view se = \<lparr>sw_se = se, sw_view = - view\<rparr>"

text \<open>\<open>Ord\<close> compares the views as signed numbers.\<close>

definition sw_key :: "SafetyEventWrapper \<Rightarrow> int" where
  "sw_key sw = sint (sw_view sw)"

subsection \<open>State\<close>

record 's Pacemaker =
  pm_view :: ViewNumber
  pm_id :: ReplicaID
  pm_elector :: RoundRobinLeaderElector
  pm_signaturer :: DefaultSignaturer
  pm_machine :: "'s Machine"
  pm_ready_queue :: "Ready list"
  pm_pending_prop :: "SafetyEventWrapper list"
  pm_sync_state :: u8
  pm_net_adaptor :: NetworkAdaptor
  pm_timer :: DefaultTimer

definition Pacemaker_new ::
    "ReplicaID \<Rightarrow> RoundRobinLeaderElector \<Rightarrow> 's Machine \<Rightarrow> NetworkAdaptor \<Rightarrow> DefaultSignaturer
       \<Rightarrow> 's Pacemaker" where
  "Pacemaker_new i elector machine net_adaptor signaturer =
     (let max_view_timeout = 30000; rtt = 12000; timer = DefaultTimer_new max_view_timeout rtt
      in \<lparr>pm_view = 0, pm_id = i, pm_elector = elector, pm_signaturer = signaturer,
          pm_machine = machine, pm_ready_queue = [], pm_pending_prop = [], pm_sync_state = SYNC_IDLE,
          pm_net_adaptor = net_adaptor, pm_timer = timer\<rparr>)"

abbreviation pm_storage :: "'s Pacemaker \<Rightarrow> 's" where
  "pm_storage pm \<equiv> m_storage (pm_machine pm)"

definition on_pm_storage :: "('s \<Rightarrow> 's) \<Rightarrow> 's Pacemaker \<Rightarrow> 's Pacemaker" where
  "on_pm_storage f pm = pm\<lparr>pm_machine := on_storage f (pm_machine pm)\<rparr>"

subsection \<open>Talking to the network and to the machine\<close>

definition emit_peer_event :: "env \<Rightarrow> PeerEvent \<Rightarrow> 's Pacemaker \<Rightarrow> 's Pacemaker" where
  "emit_peer_event E pe pm =
     (let (dur, timer) = timeout_by_delay E (pm_timer pm)
      in pm\<lparr>pm_timer := timer, pm_net_adaptor := send_timeout E pe (pm_net_adaptor pm)\<rparr>)"

definition emit_safety_event ::
    "crypto \<Rightarrow> 's SafetyStorage \<Rightarrow> SafetyEvent \<Rightarrow> 's Pacemaker \<Rightarrow> 's Pacemaker exec" where
  "emit_safety_event C S se pm =
     exec_bind (process_safety_event C S se (pm_machine pm)) (\<lambda>(machine, res).
       let pm1 = pm\<lparr>pm_machine := machine\<rparr>
       in Return (case res of
            Inr ReadyNil \<Rightarrow> pm1
          | Inr ready \<Rightarrow> pm1\<lparr>pm_ready_queue := pm_ready_queue pm1 @ [ready]\<rparr>
          | Inl _ \<Rightarrow> pm1))"

definition check_pending_prop ::
    "env \<Rightarrow> crypto \<Rightarrow> 's SafetyStorage \<Rightarrow> ViewNumber \<Rightarrow> 's Pacemaker \<Rightarrow> 's Pacemaker exec" where
  "check_pending_prop E C S leaf_height pm =
     (case heap_pop sw_key (pm_pending_prop pm) of
        None \<Rightarrow> Return pm
      | Some (sw, rest) \<Rightarrow>
          (let pm1 = pm\<lparr>pm_pending_prop := rest\<rparr>; justify_view = - sw_view sw
           in if justify_view \<le> leaf_height then emit_safety_event C S (sw_se sw) pm1
              else
                (let pm2 = pm1\<lparr>pm_pending_prop := heap_push sw (pm_pending_prop pm1)\<rparr>
                 in if pm_sync_state pm2 = SYNC_IDLE
                    then
                      (let pm3 = pm2\<lparr>pm_sync_state := SYNC_SYNCHRONIZING\<rparr>; grow_from = leaf_height
                       in exec_bind (get_leader E (pm_view pm3) (pm_elector pm3)) (\<lambda>leader.
                            Return (emit_peer_event E
                              (BranchSyncRequest (Context_single (pm_id pm3) leader (pm_view pm3))
                                 (Grow grow_from BATCH_SIZE)) pm3)))
                    else Return pm2)))"

subsection \<open>Views\<close>

definition update_pm_status :: "'s LivenessStorage \<Rightarrow> ViewNumber \<Rightarrow> 's Pacemaker \<Rightarrow> 's Pacemaker" where
  "update_pm_status L view pm =
     (let pm1 = pm\<lparr>pm_view := max (pm_view pm) view\<rparr>; new_view = pm_view pm1
      in on_pm_storage (ls_increase_view L new_view) pm1)"

definition goto_new_view ::
    "env \<Rightarrow> 's SafetyStorage \<Rightarrow> 's LivenessStorage \<Rightarrow> ViewNumber \<Rightarrow> 's Pacemaker \<Rightarrow> 's Pacemaker exec" where
  "goto_new_view E S L new_view pm =
     (let (dur, timer) = timeout_by_delay E (pm_timer pm);
          pm1 = pm\<lparr>pm_timer := view_timeout new_view dur timer\<rparr>;
          pm2 = update_pm_status L new_view pm1;
          pm3 = on_pm_storage (clean_new_view_set L (pm_view pm2)) pm2;
          qc_high = get_qc_high S (pm_storage pm3)
      in exec_bind (get_leader E (pm_view pm3) (pm_elector pm3)) (\<lambda>leader.
           Return (emit_peer_event E
             (NewView (Context_single (pm_id pm3) leader (pm_view pm3)) qc_high) pm3)))"

definition sign_tc :: "crypto \<Rightarrow> ViewNumber \<Rightarrow> GenericQC \<Rightarrow> 's Pacemaker \<Rightarrow> TimeoutCertificate" where
  "sign_tc C view qc_high pm =
     (let sign_kit = SignKit_from (sk_sign C (sg_sks (pm_signaturer pm)) (u64_to_be_bytes view),
                       sg_sign_id (pm_signaturer pm))
      in TimeoutCertificate_new (pm_id pm) (pm_view pm) sign_kit qc_high)"

definition process_local_timeout ::
    "env \<Rightarrow> crypto \<Rightarrow> 's SafetyStorage \<Rightarrow> 's LivenessStorage \<Rightarrow> ViewNumber \<Rightarrow> 's Pacemaker
       \<Rightarrow> 's Pacemaker exec" where
  "process_local_timeout E C S L timeout_view pm =
     (if timeout_view \<ge> pm_view pm then
        (let qc_high = get_qc_high S (pm_storage pm);
             tc = sign_tc C (pm_view pm) qc_high pm;
             pm1 = on_pm_storage (\<lambda>s. fst (append_tc L tc s)) pm;
             pm2 = emit_peer_event E (Timeout (Context_broadcast (pm_id pm1) (pm_view pm1)) tc) pm1
         in exec_bind (goto_new_view E S L (timeout_view + 1) pm2) (\<lambda>pm3.
              let pm4 = on_pm_storage (ls_increase_view L (pm_view pm3)) pm3
              in if pm_sync_state pm4 = SYNC_SYNCHRONIZING
                 then
                   (let pm5 = pm4\<lparr>pm_sync_state := SYNC_IDLE\<rparr>
                    in check_pending_prop E C S (height (ls_get_leaf L (pm_storage pm5))) pm5)
                 else Return pm4))
      else Return pm)"

fun process_timeout_event ::
    "env \<Rightarrow> crypto \<Rightarrow> 's SafetyStorage \<Rightarrow> 's LivenessStorage \<Rightarrow> TimeoutEvent \<Rightarrow> 's Pacemaker
       \<Rightarrow> 's Pacemaker exec" where
  "process_timeout_event E C S L (ViewTimeout view) pm = process_local_timeout E C S L view pm"

subsection \<open>Messages from other replicas\<close>

fun process_network_event ::
    "env \<Rightarrow> crypto \<Rightarrow> 's SafetyStorage \<Rightarrow> 's LivenessStorage \<Rightarrow> PeerEvent \<Rightarrow> 's Pacemaker
       \<Rightarrow> 's Pacemaker exec" where
  "process_network_event E C S L (PeNewProposal ctx prop) pm =
     (let pm1 = pm\<lparr>pm_pending_prop := heap_push
                     (SafetyEventWrapper_from (qc_view (justify prop)) (RecvProposal ctx prop))
                     (pm_pending_prop pm)\<rparr>
      in check_pending_prop E C S (height (ls_get_leaf L (pm_storage pm1))) pm1)"
| "process_network_event E C S L (AcceptProposal ctx prop sign) pm =
     (case sign of Some s \<Rightarrow> emit_safety_event C S (RecvSign ctx prop s) pm | None \<Rightarrow> Return pm)"
| "process_network_event E C S L (Timeout ctx tc) pm =
     (let (s1, res) = append_tc L tc (pm_storage pm);
          pm1 = on_pm_storage (\<lambda>_. s1) pm
      in case res of
           Inr v \<Rightarrow> if v > pm_view pm1 then process_local_timeout E C S L v pm1 else Return pm1
         | Inl _ \<Rightarrow> Return pm1)"
| "process_network_event E C S L (BranchSyncRequest ctx strategy) pm =
     Return (case fetch_branch L strategy (pm_storage pm) of
       Inr bd \<Rightarrow> emit_peer_event E
         (BranchSyncResponse (Context_single (pm_id pm) (ctx_from ctx) (pm_view pm)) strategy (Some bd) Success) pm
     | Inl _ \<Rightarrow> emit_peer_event E
         (BranchSyncResponse (Context_single (pm_id pm) (ctx_from ctx) (pm_view pm)) strategy None
            ProposalNonExists) pm)"
| "process_network_event E C S L (BranchSyncResponse ctx strategy branch status) pm =
     (case status of
        Success \<Rightarrow> (case branch of
            Some bd \<Rightarrow> emit_safety_event C S (BranchSync ctx (bd_data bd)) pm | None \<Rightarrow> Return pm)
      | _ \<Rightarrow> Return pm)"
| "process_network_event E C S L (Ping ctx cont) pm = Return pm"
| "process_network_event E C S L (NewView ctx qc_high) pm =
     (let pm1 = on_pm_storage (\<lambda>s. snd (new_view_set L (ctx_view ctx) (hm_insert (ctx_from ctx) qc_high) s)) pm
      in emit_safety_event C S (RecvNewViewMsg ctx qc_high) pm1)"

subsection \<open>Results of the machine\<close>

fun process_ready_event ::
    "env \<Rightarrow> crypto \<Rightarrow> 's SafetyStorage \<Rightarrow> 's LivenessStorage \<Rightarrow> Ready \<Rightarrow> 's Pacemaker \<Rightarrow> 's Pacemaker exec" where
  "process_ready_event E C S L ReadyNil pm = Return pm"
| "process_ready_event E C S L (InternalState _ _) pm = Return pm"
| "process_ready_event E C S L (NewProposal ctx prop) pm =
     Return (emit_peer_event E (PeNewProposal ctx prop) pm)"
| "process_ready_event E C S L (UpdateQCHigh _ node) pm =
     Return (on_pm_storage (\<lambda>s. fst (ls_update_qc_high L node (justify node) s)) pm)"
| "process_ready_event E C S L (Signature ctx prop sign) pm =
     (case ctx_to ctx of
        Single to \<Rightarrow>
          (let flag = (to \<noteq> pm_id pm);
               pm1 = emit_peer_event E (AcceptProposal ctx prop (Some sign)) pm
           in if flag
              then exec_bind (exec_of_option ExpectFailed (DUR_REPLICA_WAIT E)) (\<lambda>_.
                     process_local_timeout E C S L (height prop) pm1)
              else Return pm1)
      | _ \<Rightarrow> Panic Unreachable)"
| "process_ready_event E C S L (CommitState _ _) pm = Return pm"
| "process_ready_event E C S L (BranchSyncDone leaf) pm =
     (if pm_sync_state pm = SYNC_SYNCHRONIZING
      then check_pending_prop E C S (height leaf) (pm\<lparr>pm_sync_state := SYNC_IDLE\<rparr>)
      else Return pm)"
| "process_ready_event E C S L (ProposalReachConsensus prop_view) pm =
     process_local_timeout E C S L prop_view pm"

definition make_new_proposal ::
    "crypto \<Rightarrow> 's SafetyStorage \<Rightarrow> 's LivenessStorage \<Rightarrow> Txn list \<Rightarrow> 's Pacemaker
       \<Rightarrow> ('s Pacemaker \<times> Ready option) exec" where
  "make_new_proposal C S L cmds pm =
     (let th = get_threshold L (pm_storage pm);
          (nv, s1) = new_view_set L (pm_view pm) (\<lambda>m. m) (pm_storage pm);
          pm1 = on_pm_storage (\<lambda>_. s1) pm;
          lens = length nv
      in if lens \<le> th then Return (pm1, None)
         else
           (let pm2 = on_pm_storage (clean_new_view_set L (pm_view pm1 + 1)) pm1;
                (machine, res) = on_beat C S cmds (pm_machine pm2)
            in case res of
                 Inr ready \<Rightarrow> Return (pm2\<lparr>pm_machine := machine\<rparr>, Some ready)
               | Inl _ \<Rightarrow> Panic UnwrapNone))"

end
