(* ===== verification/PmLoop.thy ===== *)
theory PmLoop
  imports Pacemaker
begin

section \<open>pacemaker, pacemaker.rs: the event loops\<close>

text \<open>
  The two loops of the pacemaker. Draining the ready queue is a total function: an element can
  only add another by taking a pending proposal, so the sum of both lengths falls with every
  round. One pass of \<open>tokio::select!\<close> runs one enabled arm; which one is open, so the loops are
  step relations, with the firing of a timer as a step of its own. The hooks of
  \<open>event_loop_with_functions\<close> are closures of the caller: what they answer in a round is part
  of the round's input.
\<close>

subsection \<open>Draining the ready queue\<close>

definition pm_work :: "'s Pacemaker \<Rightarrow> nat" where
  "pm_work pm = length (pm_ready_queue pm) + length (pm_pending_prop pm)"

lemma on_pm_storage_simps [simp]:
  "pm_view (on_pm_storage f pm) = pm_view pm" "pm_id (on_pm_storage f pm) = pm_id pm"
  "pm_elector (on_pm_storage f pm) = pm_elector pm"
  "pm_signaturer (on_pm_storage f pm) = pm_signaturer pm"
  "pm_machine (on_pm_storage f pm) = on_storage f (pm_machine pm)"
  "pm_ready_queue (on_pm_storage f pm) = pm_ready_queue pm"
  "pm_pending_prop (on_pm_storage f pm) = pm_pending_prop pm"
  "pm_sync_state (on_pm_storage f pm) = pm_sync_state pm"
  "pm_net_adaptor (on_pm_storage f pm) = pm_net_adaptor pm"
  "pm_timer (on_pm_storage f pm) = pm_timer pm"
  by (simp_all add: on_pm_storage_def)

lemma emit_peer_event_simps [simp]:
  "pm_view (emit_peer_event E pe pm) = pm_view pm" "pm_id (emit_peer_event E pe pm) = pm_id pm"
  "pm_elector (emit_peer_event E pe pm) = pm_elector pm"
  "pm_signaturer (emit_peer_event E pe pm) = pm_signaturer pm"
  "pm_machine (emit_peer_event E pe pm) = pm_machine pm"
  "pm_ready_queue (emit_peer_event E pe pm) = pm_ready_queue pm"
  "pm_pending_prop (emit_peer_event E pe pm) = pm_pending_prop pm"
  "pm_sync_state (emit_peer_event E pe pm) = pm_sync_state pm"
  "pm_net_adaptor (emit_peer_event E pe pm) = send_timeout E pe (pm_net_adaptor pm)"
  "tm_live (pm_timer (emit_peer_event E pe pm)) = tm_live (pm_timer pm)"
  "tm_channel (pm_timer (emit_peer_event E pe pm)) = tm_channel (pm_timer pm)"
  by (simp_all add: emit_peer_event_def timeout_by_delay_def)

lemma update_pm_status_simps [simp]:
  "pm_view (update_pm_status L v pm) = max (pm_view pm) v" "pm_id (update_pm_status L v pm) = pm_id pm"
  "pm_elector (update_pm_status L v pm) = pm_elector pm"
  "pm_signaturer (update_pm_status L v pm) = pm_signaturer pm"
  "pm_machine (update_pm_status L v pm) = on_storage (ls_increase_view L (max (pm_view pm) v)) (pm_machine pm)"
  "pm_ready_queue (update_pm_status L v pm) = pm_ready_queue pm"
  "pm_pending_prop (update_pm_status L v pm) = pm_pending_prop pm"
  "pm_sync_state (update_pm_status L v pm) = pm_sync_state pm"
  "pm_net_adaptor (update_pm_status L v pm) = pm_net_adaptor pm"
  "pm_timer (update_pm_status L v pm) = pm_timer pm"
  by (simp_all add: update_pm_status_def Let_def)

lemma pm_work_simps [simp]:
  "pm_work (on_pm_storage f pm) = pm_work pm" "pm_work (emit_peer_event E pe pm) = pm_work pm"
  "pm_work (pm\<lparr>pm_sync_state := x\<rparr>) = pm_work pm"
  by (simp_all add: pm_work_def)

text \<open>What an answer of the machine adds to the ready queue.\<close>

fun queued :: "SafetyErr + Ready \<Rightarrow> Ready list" where
  "queued (Inl e) = []"
| "queued (Inr r) = (if r = ReadyNil then [] else [r])"

lemma emit_safety_event_eq:
  "emit_safety_event C S se pm =
     exec_bind (process_safety_event C S se (pm_machine pm)) (\<lambda>(m, r).
       Return (pm\<lparr>pm_machine := m, pm_ready_queue := pm_ready_queue pm @ queued r\<rparr>))"
proof -
  have "(case r of Inr ReadyNil \<Rightarrow> p | Inr ready \<Rightarrow> p\<lparr>pm_ready_queue := pm_ready_queue p @ [ready]\<rparr> | Inl _ \<Rightarrow> p)
      = p\<lparr>pm_ready_queue := pm_ready_queue p @ queued r\<rparr>" for r and p :: "'a Pacemaker"
    by (cases r) (auto split: Ready.split)
  then show ?thesis by (simp add: emit_safety_event_def Let_def)
qed

lemma emit_safety_event_work:
  assumes "emit_safety_event C S se pm = Return pm1"
  shows "pm_work pm1 \<le> Suc (pm_work pm)"
proof -
  from assms obtain m r where "pm1 = pm\<lparr>pm_machine := m, pm_ready_queue := pm_ready_queue pm @ queued r\<rparr>"
    by (auto simp: emit_safety_event_eq exec_bind_eq_Return)
  then show ?thesis by (cases r) (simp_all add: pm_work_def)
qed

lemma check_pending_prop_work:
  assumes "check_pending_prop E C S h pm = Return pm1"
  shows "pm_work pm1 \<le> pm_work pm"
proof (cases "heap_pop sw_key (pm_pending_prop pm)")
  case None
  with assms show ?thesis by (simp add: check_pending_prop_def)
next
  case (Some p)
  obtain sw rest where p: "p = (sw, rest)" by (cases p)
  have len: "length (pm_pending_prop pm) = Suc (length rest)"
    using Some unfolding p by (rule heap_pop_length)
  show ?thesis
  proof (cases "- sw_view sw \<le> h")
    case True
    then have "emit_safety_event C S (sw_se sw) (pm\<lparr>pm_pending_prop := rest\<rparr>) = Return pm1"
      using assms Some by (simp add: check_pending_prop_def p)
    from emit_safety_event_work [OF this] show ?thesis by (simp add: pm_work_def len)
  next
    case False
    then show ?thesis
      using assms Some by (auto simp: check_pending_prop_def p pm_work_def len heap_push_def
          exec_bind_eq_Return Let_def split: if_splits)
  qed
qed

lemma goto_new_view_frame:
  assumes "goto_new_view E S L v pm = Return pm1"
  shows "pm_ready_queue pm1 = pm_ready_queue pm" "pm_pending_prop pm1 = pm_pending_prop pm"
    "pm_sync_state pm1 = pm_sync_state pm" "pm_view pm1 = max (pm_view pm) v"
    "pm_id pm1 = pm_id pm" "pm_elector pm1 = pm_elector pm" "pm_signaturer pm1 = pm_signaturer pm"
    "m_voter (pm_machine pm1) = m_voter (pm_machine pm)"
  using assms by (auto simp: goto_new_view_def exec_bind_eq_Return Let_def case_prod_unfold)

lemma goto_new_view_work: "goto_new_view E S L v pm = Return pm1 \<Longrightarrow> pm_work pm1 = pm_work pm"
  by (simp add: pm_work_def goto_new_view_frame)

lemma process_local_timeout_work:
  assumes "process_local_timeout E C S L v pm = Return pm1"
  shows "pm_work pm1 \<le> pm_work pm"
  using assms
  by (auto simp: process_local_timeout_def exec_bind_eq_Return Let_def
      dest!: goto_new_view_work check_pending_prop_work split: if_splits)

lemma process_ready_event_work:
  assumes "process_ready_event E C S L r pm = Return pm1"
  shows "pm_work pm1 \<le> pm_work pm"
  using assms
proof (cases r)
  case (Signature c p s)
  with assms show ?thesis
    by (auto simp: exec_bind_eq_Return Let_def dest!: process_local_timeout_work
        split: DeliveryType.splits if_splits)
next
  case (BranchSyncDone leaf)
  with assms show ?thesis
    by (auto dest!: check_pending_prop_work split: if_splits)
qed (auto dest: process_local_timeout_work)

lemma exec_bind_cong [fundef_cong]:
  "m = m' \<Longrightarrow> (\<And>x. m' = Return x \<Longrightarrow> f x = f' x) \<Longrightarrow> exec_bind m f = exec_bind m' f'"
  by (cases m') auto

function drain_ready ::
    "env \<Rightarrow> crypto \<Rightarrow> 's SafetyStorage \<Rightarrow> 's LivenessStorage \<Rightarrow> 's Pacemaker \<Rightarrow> 's Pacemaker exec" where
  "drain_ready E C S L pm =
     (case pm_ready_queue pm of
        [] \<Rightarrow> Return pm
      | ready # rest \<Rightarrow>
          exec_bind (process_ready_event E C S L ready (pm\<lparr>pm_ready_queue := rest\<rparr>)) (drain_ready E C S L))"
  by pat_completeness auto
termination
proof (relation "measure (\<lambda>(E, C, S, L, pm). pm_work pm)", goal_cases)
  case (2 E C S L pm ready rest pm1)
  from process_ready_event_work [OF 2(2)] have "pm_work pm1 \<le> pm_work (pm\<lparr>pm_ready_queue := rest\<rparr>)" .
  also have "\<dots> < pm_work pm" using 2(1) by (simp add: pm_work_def)
  finally show ?case by simp
qed simp

declare drain_ready.simps [simp del]

subsection \<open>One round of a loop\<close>

datatype select_arm = Tick | Quit | NetRecv PeerEvent | TimeoutRecv

text \<open>An arm is enabled when its future can complete: the timeout arm needs an event in the channel.\<close>

definition arm_enabled :: "select_arm \<Rightarrow> 's Pacemaker \<Rightarrow> bool" where
  "arm_enabled arm pm \<longleftrightarrow> (arm = TimeoutRecv \<longrightarrow> tm_channel (pm_timer pm) \<noteq> [])"

definition flush_unwrap :: "'s LivenessStorage \<Rightarrow> 's Pacemaker \<Rightarrow> 's Pacemaker exec" where
  "flush_unwrap L pm =
     exec_bind (ls_flush L (pm_storage pm)) (\<lambda>(s1, res).
       case res of Inr _ \<Rightarrow> Return (on_pm_storage (\<lambda>_. s1) pm) | Inl _ \<Rightarrow> Panic UnwrapNone)"

definition recv_timeout :: "'s Pacemaker \<Rightarrow> (TimeoutEvent \<times> 's Pacemaker) option" where
  "recv_timeout pm =
     (case tm_channel (pm_timer pm) of
        [] \<Rightarrow> None
      | te # rest \<Rightarrow> Some (te, pm\<lparr>pm_timer := (pm_timer pm)\<lparr>tm_channel := rest\<rparr>\<rparr>))"

text \<open>\<open>run\<close>: the tick also drains the ready queue; the result says whether to go on.\<close>

fun run_select ::
    "env \<Rightarrow> crypto \<Rightarrow> 's SafetyStorage \<Rightarrow> 's LivenessStorage \<Rightarrow> select_arm \<Rightarrow> 's Pacemaker
       \<Rightarrow> ('s Pacemaker \<times> bool) exec" where
  "run_select E C S L Tick pm =
     exec_bind (flush_unwrap L pm) (\<lambda>pm1. exec_bind (drain_ready E C S L pm1) (\<lambda>pm2. Return (pm2, True)))"
| "run_select E C S L Quit pm = Return (pm, False)"
| "run_select E C S L (NetRecv ev) pm =
     exec_bind (process_network_event E C S L ev pm) (\<lambda>pm1. Return (pm1, True))"
| "run_select E C S L TimeoutRecv pm =
     (case recv_timeout pm of
        None \<Rightarrow> Return (pm, True)
      | Some (te, pm1) \<Rightarrow> exec_bind (process_timeout_event E C S L te pm1) (\<lambda>pm2. Return (pm2, True)))"

definition run_start ::
    "env \<Rightarrow> 's SafetyStorage \<Rightarrow> 's LivenessStorage \<Rightarrow> 's Pacemaker \<Rightarrow> 's Pacemaker exec" where
  "run_start E S L pm =
     exec_bind (goto_new_view E S L 1 pm) (\<lambda>pm1.
       exec_bind (exec_of_option ExpectFailed (FLUSH_INTERVAL E)) (\<lambda>_. Return pm1))"

definition run_end :: "'s LivenessStorage \<Rightarrow> 's Pacemaker \<Rightarrow> 's Pacemaker exec" where
  "run_end L pm = flush_unwrap L pm"

definition timer_fires_pm :: "nat \<Rightarrow> 's Pacemaker \<Rightarrow> 's Pacemaker" where
  "timer_fires_pm i pm = pm\<lparr>pm_timer := timer_fires i (pm_timer pm)\<rparr>"

text \<open>\<open>event_loop_with_functions\<close>: what the hooks answer in one round.\<close>

record hooks =
  observe_fn :: bool
  fetch :: "bool \<Rightarrow> Txn list option"
  end_fn :: "ViewNumber \<Rightarrow> bool"

record PacemakerState =
  ps_replica_id :: ReplicaID
  ps_current_view :: ViewNumber
  ps_current_leader :: "ReplicaID option"
  ps_machine_snapshot :: Snapshot

definition observed_state :: "env \<Rightarrow> 's SafetyStorage \<Rightarrow> 's Pacemaker \<Rightarrow> PacemakerState exec" where
  "observed_state E S pm =
     exec_bind (get_leader E (pm_view pm) (pm_elector pm)) (\<lambda>leader.
       Return \<lparr>ps_replica_id = pm_id pm, ps_current_view = pm_view pm, ps_current_leader = Some leader,
         ps_machine_snapshot = take_snapshot S (pm_machine pm)\<rparr>)"

definition propose_if_fetched ::
    "crypto \<Rightarrow> 's SafetyStorage \<Rightarrow> 's LivenessStorage \<Rightarrow> hooks \<Rightarrow> 's Pacemaker \<Rightarrow> 's Pacemaker exec" where
  "propose_if_fetched C S L H pm =
     (let (nv, s1) = new_view_set L (pm_view pm) (\<lambda>m. m) (pm_storage pm);
          pm1 = on_pm_storage (\<lambda>_. s1) pm;
          enable_make_prop = length nv > get_threshold L (pm_storage pm1)
      in case fetch H enable_make_prop of
           None \<Rightarrow> Return pm1
         | Some cmds \<Rightarrow>
             exec_bind (make_new_proposal C S L cmds pm1) (\<lambda>(pm2, ready).
               Return (case ready of
                   Some r \<Rightarrow> pm2\<lparr>pm_ready_queue := pm_ready_queue pm2 @ [r]\<rparr>
                 | None \<Rightarrow> pm2)))"

fun loop_select ::
    "env \<Rightarrow> crypto \<Rightarrow> 's SafetyStorage \<Rightarrow> 's LivenessStorage \<Rightarrow> select_arm \<Rightarrow> 's Pacemaker
       \<Rightarrow> ('s Pacemaker \<times> bool) exec" where
  "loop_select E C S L Tick pm = exec_bind (flush_unwrap L pm) (\<lambda>pm1. Return (pm1, True))"
| "loop_select E C S L Quit pm = Return (pm, False)"
| "loop_select E C S L (NetRecv ev) pm =
     exec_bind (process_network_event E C S L ev pm) (\<lambda>pm1. Return (pm1, True))"
| "loop_select E C S L TimeoutRecv pm =
     (case recv_timeout pm of
        None \<Rightarrow> Return (pm, True)
      | Some (te, pm1) \<Rightarrow> exec_bind (process_timeout_event E C S L te pm1) (\<lambda>pm2. Return (pm2, True)))"

definition event_loop_round ::
    "env \<Rightarrow> crypto \<Rightarrow> 's SafetyStorage \<Rightarrow> 's LivenessStorage \<Rightarrow> hooks \<Rightarrow> select_arm \<Rightarrow> 's Pacemaker
       \<Rightarrow> ('s Pacemaker \<times> bool) exec" where
  "event_loop_round E C S L H arm pm =
     (if end_fn H (pm_view pm) then Return (pm, False)
      else
        exec_bind (propose_if_fetched C S L H pm) (\<lambda>pm1.
        exec_bind (if observe_fn H then exec_bind (observed_state E S pm1) (\<lambda>_. Return ()) else Return ()) (\<lambda>_.
        exec_bind (loop_select E C S L arm pm1) (\<lambda>(pm2, go_on).
        exec_bind (drain_ready E C S L pm2) (\<lambda>pm3. Return (pm3, go_on))))))"

text \<open>What the loop does before its first and after its last round; \<open>finilizer\<close> is the caller's.\<close>

definition event_loop_start ::
    "env \<Rightarrow> 's SafetyStorage \<Rightarrow> 's LivenessStorage \<Rightarrow> 's Pacemaker \<Rightarrow> 's Pacemaker exec" where
  "event_loop_start E S L pm =
     exec_bind (goto_new_view E S L 1 pm) (\<lambda>pm1.
       exec_bind (exec_of_option ExpectFailed (FLUSH_INTERVAL E)) (\<lambda>_. Return pm1))"

definition event_loop_end :: "'s LivenessStorage \<Rightarrow> unit exec \<Rightarrow> 's Pacemaker \<Rightarrow> 's Pacemaker exec" where
  "event_loop_end L finilizer pm =
     exec_bind (flush_unwrap L pm) (\<lambda>pm1. exec_bind finilizer (\<lambda>_. Return pm1))"

lemma event_loop_start_run [simp]: "event_loop_start E S L pm = run_start E S L pm"
  by (simp add: event_loop_start_def run_start_def)

text \<open>
  The test of the queue of pending proposals: certificates of views 0, 1 and 2 leave it in this
  order. The events the test leaves uninitialised are the argument.
\<close>

definition test_pending_prop :: "SafetyEvent \<Rightarrow> unit exec" where
  "test_pending_prop se =
     (let expect = (\<lambda>view h. exec_bind (exec_of_option UnwrapNone (heap_pop sw_key h)) (\<lambda>(sw, rest).
            if sw_view sw = view then Return rest else Panic AssertFailed));
          pending_prop = heap_push (SafetyEventWrapper_from 2 se) (heap_push (SafetyEventWrapper_from 1 se)
            (heap_push (SafetyEventWrapper_from 0 se) []))
      in exec_bind (expect 0 pending_prop) (\<lambda>h1. exec_bind (expect (- 1) h1) (\<lambda>h2.
         exec_bind (expect (- 2) h2) (\<lambda>_. Return ()))))"

lemma test_pending_prop_passes: "test_pending_prop se = Return ()"
  by (simp add: test_pending_prop_def heap_push_def SafetyEventWrapper_from_def sw_key_def Let_def)

text \<open>The steps of a running pacemaker: a round of either loop, or a timer that fires meanwhile.\<close>

inductive pm_step ::
    "env \<Rightarrow> crypto \<Rightarrow> 's SafetyStorage \<Rightarrow> 's LivenessStorage \<Rightarrow> 's Pacemaker \<Rightarrow> 's Pacemaker \<Rightarrow> bool"
  for E C S L where
  run_round: "arm_enabled arm pm \<Longrightarrow> run_select E C S L arm pm = Return (pm1, go_on) \<Longrightarrow> pm_step E C S L pm pm1"
| loop_round: "arm_enabled arm pm \<Longrightarrow> event_loop_round E C S L H arm pm = Return (pm1, go_on)
    \<Longrightarrow> pm_step E C S L pm pm1"
| fires: "i < length (tm_live (pm_timer pm)) \<Longrightarrow> pm_step E C S L pm (timer_fires_pm i pm)"

end
