(* ===== verification/PmInvariant.thy ===== *)
theory PmInvariant
  imports PmLoop HssStorage
begin

section \<open>pacemaker: every step keeps the contract of the store\<close>

text \<open>
  Over any store that meets \<open>liveness_storage\<close>, every handler of the pacemaker and every round
  of its loops keeps the machine well formed and the pacemaker's view equal to the stored one,
  and respects \<open>progress\<close>. The lemmas are proved once, inside the locale.
\<close>

definition pm_ok :: "'s SafetyStorage \<Rightarrow> ('s \<Rightarrow> bool) \<Rightarrow> 's Pacemaker \<Rightarrow> bool" where
  "pm_ok S invar pm \<longleftrightarrow> machine_ok invar (pm_machine pm) \<and> get_view S (pm_storage pm) = pm_view pm"

definition pm_advanced :: "'s SafetyStorage \<Rightarrow> ('s \<Rightarrow> bool) \<Rightarrow> 's Pacemaker \<Rightarrow> 's Pacemaker \<Rightarrow> bool" where
  "pm_advanced S invar pm pm1 \<longleftrightarrow> pm_ok S invar pm1 \<and> progress S (pm_storage pm) (pm_storage pm1)"

lemma pm_advanced_refl: "pm_ok S invar pm \<Longrightarrow> pm_advanced S invar pm pm"
  by (simp add: pm_advanced_def)

lemma pm_advanced_trans [trans]:
  "pm_advanced S invar pm pm1 \<Longrightarrow> pm_advanced S invar pm1 pm2 \<Longrightarrow> pm_advanced S invar pm pm2"
  unfolding pm_advanced_def by (blast intro: progress_trans)

lemma pm_advanced_ok: "pm_advanced S invar pm pm1 \<Longrightarrow> pm_ok S invar pm1"
  by (simp add: pm_advanced_def)

text \<open>Only the view and the machine matter.\<close>

lemma pm_ok_cong: "pm_view p = pm_view q \<Longrightarrow> pm_machine p = pm_machine q \<Longrightarrow> pm_ok S invar p = pm_ok S invar q"
  by (simp add: pm_ok_def)

lemma pm_ok_frame [simp]:
  "pm_ok S invar (pm\<lparr>pm_sync_state := x\<rparr>) = pm_ok S invar pm"
  "pm_ok S invar (pm\<lparr>pm_pending_prop := y\<rparr>) = pm_ok S invar pm"
  "pm_ok S invar (pm\<lparr>pm_ready_queue := z\<rparr>) = pm_ok S invar pm"
  "pm_ok S invar (pm\<lparr>pm_timer := t\<rparr>) = pm_ok S invar pm"
  "pm_ok S invar (emit_peer_event E pe pm) = pm_ok S invar pm"
  by (rule pm_ok_cong; simp)+

lemma pm_advanced_frame [simp]:
  "pm_advanced S invar pm (p\<lparr>pm_sync_state := x\<rparr>) = pm_advanced S invar pm p"
  "pm_advanced S invar pm (p\<lparr>pm_pending_prop := y\<rparr>) = pm_advanced S invar pm p"
  "pm_advanced S invar pm (p\<lparr>pm_ready_queue := z\<rparr>) = pm_advanced S invar pm p"
  "pm_advanced S invar pm (p\<lparr>pm_timer := t\<rparr>) = pm_advanced S invar pm p"
  "pm_advanced S invar pm (emit_peer_event E pe p) = pm_advanced S invar pm p"
  "pm_advanced S invar (pm\<lparr>pm_sync_state := x\<rparr>) p = pm_advanced S invar pm p"
  "pm_advanced S invar (pm\<lparr>pm_pending_prop := y\<rparr>) p = pm_advanced S invar pm p"
  "pm_advanced S invar (pm\<lparr>pm_ready_queue := z\<rparr>) p = pm_advanced S invar pm p"
  "pm_advanced S invar (pm\<lparr>pm_timer := t\<rparr>) p = pm_advanced S invar pm p"
  "pm_advanced S invar (emit_peer_event E pe pm) p = pm_advanced S invar pm p"
  by (simp_all add: pm_advanced_def)

context liveness_storage
begin

lemma storage_advanced:
  assumes "pm_ok S invar pm" and "invar (f (pm_storage pm))"
    and "progress S (pm_storage pm) (f (pm_storage pm))" and "get_view S (f (pm_storage pm)) = get_view S (pm_storage pm)"
  shows "pm_advanced S invar pm (on_pm_storage f pm)"
  using assms by (simp add: pm_advanced_def pm_ok_def machine_ok_def)

lemma pm_ok_invar: "pm_ok S invar pm \<Longrightarrow> invar (pm_storage pm)"
  by (simp add: pm_ok_def machine_ok_def)

lemma emit_safety_event_advanced:
  assumes ok: "pm_ok S invar pm" and ret: "emit_safety_event C S se pm = Return pm1"
  shows "pm_advanced S invar pm pm1"
proof -
  let ?I = "\<lambda>s. invar s \<and> get_view S s = pm_view pm"
  from ret obtain m r where m: "process_safety_event C S se (pm_machine pm) = Return (m, r)"
      and pm1: "pm1 = pm\<lparr>pm_machine := m, pm_ready_queue := pm_ready_queue pm @ queued r\<rparr>"
    by (auto simp: emit_safety_event_eq exec_bind_eq_Return)
  have "machine_ok ?I (pm_machine pm)" using ok by (simp add: pm_ok_def machine_ok_def)
  then have "advanced S ?I (pm_machine pm) m"
    using safety_storage_core.process_safety_event_advanced [OF fixed_view _ m] by blast
  then show ?thesis by (simp add: pm1 advanced_def pm_advanced_def pm_ok_def machine_ok_def)
qed

lemma check_pending_prop_advanced:
  assumes ok: "pm_ok S invar pm" and ret: "check_pending_prop E C S h pm = Return pm1"
  shows "pm_advanced S invar pm pm1"
proof (cases "heap_pop sw_key (pm_pending_prop pm)")
  case None
  with ok ret show ?thesis by (simp add: check_pending_prop_def pm_advanced_refl)
next
  case (Some p)
  obtain sw rest where p: "p = (sw, rest)" by (cases p)
  show ?thesis
  proof (cases "- sw_view sw \<le> h")
    case True
    with ret Some have "emit_safety_event C S (sw_se sw) (pm\<lparr>pm_pending_prop := rest\<rparr>) = Return pm1"
      by (simp add: check_pending_prop_def p)
    with ok have "pm_advanced S invar (pm\<lparr>pm_pending_prop := rest\<rparr>) pm1"
      by (intro emit_safety_event_advanced) simp_all
    then show ?thesis by simp
  next
    case False
    with ok ret Some show ?thesis
      by (auto simp: check_pending_prop_def p exec_bind_eq_Return Let_def pm_advanced_refl split: if_splits)
  qed
qed

lemma increase_view_advanced:
  assumes "pm_ok S invar pm" and "pm_view p = max (pm_view pm) v"
    and "pm_machine p = on_storage (ls_increase_view L (max (pm_view pm) v)) (pm_machine pm)"
  shows "pm_advanced S invar pm p"
  using assms
  by (auto simp: pm_advanced_def pm_ok_def machine_ok_def increase_view_agrees get_view_increase_view
      intro: invar_increase_view progress_increase_view)

lemma clean_advanced: "pm_ok S invar pm \<Longrightarrow> pm_advanced S invar pm (on_pm_storage (clean_new_view_set L v) pm)"
  by (intro storage_advanced)
    (auto simp: pm_ok_invar view_clean_new_view_set invar_clean_new_view_set progress_clean_new_view_set)

lemma goto_new_view_advanced:
  assumes ok: "pm_ok S invar pm" and ret: "goto_new_view E S L v pm = Return pm1"
  shows "pm_advanced S invar pm pm1"
proof -
  let ?p2 = "update_pm_status L v (pm\<lparr>pm_timer :=
      view_timeout v (fst (timeout_by_delay E (pm_timer pm))) (snd (timeout_by_delay E (pm_timer pm)))\<rparr>)"
  let ?p3 = "on_pm_storage (clean_new_view_set L (pm_view ?p2)) ?p2"
  have "pm_advanced S invar pm ?p2" using ok by (rule increase_view_advanced) simp_all
  moreover from this have "pm_advanced S invar ?p2 ?p3" by (intro clean_advanced) (rule pm_advanced_ok)
  ultimately have adv: "pm_advanced S invar pm ?p3" by (rule pm_advanced_trans)
  from ret obtain leader where
    "pm1 = emit_peer_event E (NewView (Context_single (pm_id ?p3) leader (pm_view ?p3))
       (get_qc_high S (pm_storage ?p3))) ?p3"
    by (auto simp: goto_new_view_def exec_bind_eq_Return Let_def case_prod_unfold)
  with adv show ?thesis by simp
qed

lemma append_tc_advanced:
  "pm_ok S invar pm \<Longrightarrow> pm_advanced S invar pm (on_pm_storage (\<lambda>s. fst (append_tc L tc s)) pm)"
  by (intro storage_advanced) (auto simp: pm_ok_invar view_append_tc invar_append_tc progress_append_tc)

lemma process_local_timeout_advanced:
  assumes ok: "pm_ok S invar pm" and ret: "process_local_timeout E C S L v pm = Return pm1"
  shows "pm_advanced S invar pm pm1"
proof (cases "pm_view pm \<le> v")
  case False
  with ok ret show ?thesis by (simp add: process_local_timeout_def pm_advanced_refl)
next
  case True
  let ?tc = "sign_tc C (pm_view pm) (get_qc_high S (pm_storage pm)) pm"
  let ?p1 = "on_pm_storage (\<lambda>s. fst (append_tc L ?tc s)) pm"
  let ?p2 = "emit_peer_event E (Timeout (Context_broadcast (pm_id pm) (pm_view pm)) ?tc) ?p1"
  from True ret obtain p3 where p3: "goto_new_view E S L (v + 1) ?p2 = Return p3"
      and rest: "(if pm_sync_state p3 = SYNC_SYNCHRONIZING
        then check_pending_prop E C S
          (height (ls_get_leaf L (ls_increase_view L (pm_view p3) (pm_storage p3))))
          ((on_pm_storage (ls_increase_view L (pm_view p3)) p3)\<lparr>pm_sync_state := SYNC_IDLE\<rparr>)
        else Return (on_pm_storage (ls_increase_view L (pm_view p3)) p3)) = Return pm1"
    by (auto simp: process_local_timeout_def exec_bind_eq_Return Let_def cong: if_cong)
  have a1: "pm_advanced S invar pm ?p2" using append_tc_advanced [OF ok] by simp
  also have "pm_advanced S invar ?p2 p3"
    using goto_new_view_advanced [OF pm_advanced_ok [OF a1] p3] .
  also have a4: "pm_advanced S invar p3 (on_pm_storage (ls_increase_view L (pm_view p3)) p3)"
    using pm_advanced_ok [OF calculation] by (rule increase_view_advanced [where v = "pm_view p3"]) simp_all
  finally have a5: "pm_advanced S invar pm (on_pm_storage (ls_increase_view L (pm_view p3)) p3)" .
  show ?thesis
  proof (cases "pm_sync_state p3 = SYNC_SYNCHRONIZING")
    case True
    with rest a5 have "pm_advanced S invar
        ((on_pm_storage (ls_increase_view L (pm_view p3)) p3)\<lparr>pm_sync_state := SYNC_IDLE\<rparr>) pm1"
      by (intro check_pending_prop_advanced) (auto dest: pm_advanced_ok)
    with a5 show ?thesis by (auto intro: pm_advanced_trans)
  qed (use rest a5 in simp)
qed

lemma new_view_set_advanced:
  assumes "pm_ok S invar pm" and "\<And>m. hm_wf m \<Longrightarrow> hm_wf (f m)"
  shows "pm_advanced S invar pm (on_pm_storage (\<lambda>s. snd (new_view_set L v f s)) pm)"
  using assms by (intro storage_advanced)
    (auto simp: pm_ok_invar view_new_view_set invar_new_view_set progress_new_view_set)

lemma on_pm_storage_const: "on_pm_storage (\<lambda>_. f (pm_storage pm)) pm = on_pm_storage f pm"
  by (simp add: on_pm_storage_def on_storage_def)

lemma process_network_event_advanced:
  assumes ok: "pm_ok S invar pm" and ret: "process_network_event E C S L ev pm = Return pm1"
  shows "pm_advanced S invar pm pm1"
proof (cases ev)
  case (PeNewProposal ctx p)
  with ret ok have "pm_advanced S invar (pm\<lparr>pm_pending_prop := heap_push
      (SafetyEventWrapper_from (qc_view (justify p)) (RecvProposal ctx p)) (pm_pending_prop pm)\<rparr>) pm1"
    by (intro check_pending_prop_advanced) (auto simp: Let_def)
  then show ?thesis by simp
next
  case (AcceptProposal ctx p sign)
  with ret ok show ?thesis
    by (auto simp: pm_advanced_refl split: option.splits intro: emit_safety_event_advanced)
next
  case (Timeout ctx tc)
  let ?p1 = "on_pm_storage (\<lambda>_. fst (append_tc L tc (pm_storage pm))) pm"
  have a1: "pm_advanced S invar pm ?p1"
    unfolding on_pm_storage_const [of "\<lambda>s. fst (append_tc L tc s)" pm] by (rule append_tc_advanced [OF ok])
  have "pm1 = ?p1 \<or> (\<exists>v. process_local_timeout E C S L v ?p1 = Return pm1)"
    using ret Timeout
    by (auto simp: Let_def case_prod_unfold split: sum.splits if_splits)
  then show ?thesis
    using a1 process_local_timeout_advanced [OF pm_advanced_ok [OF a1]] pm_advanced_trans by blast
next
  case (BranchSyncRequest ctx st)
  with ret ok show ?thesis by (auto simp: pm_advanced_refl split: sum.splits)
next
  case (BranchSyncResponse ctx st bd status)
  with ret ok show ?thesis
    by (auto simp: pm_advanced_refl split: SyncStatus.splits option.splits intro: emit_safety_event_advanced)
next
  case (NewView ctx qc)
  let ?p1 = "on_pm_storage (\<lambda>s. snd (new_view_set L (ctx_view ctx) (hm_insert (ctx_from ctx) qc) s)) pm"
  have a1: "pm_advanced S invar pm ?p1" using ok by (intro new_view_set_advanced) auto
  with ret NewView have "pm_advanced S invar ?p1 pm1"
    by (intro emit_safety_event_advanced) (auto dest: pm_advanced_ok simp: Let_def)
  with a1 show ?thesis by (rule pm_advanced_trans)
qed (use ok ret in \<open>simp add: pm_advanced_refl\<close>)

lemma process_ready_event_advanced:
  assumes ok: "pm_ok S invar pm" and ret: "process_ready_event E C S L r pm = Return pm1"
  shows "pm_advanced S invar pm pm1"
proof (cases r)
  case (UpdateQCHigh ctx node)
  with ret have "pm1 = on_pm_storage (\<lambda>s. fst (ls_update_qc_high L node (justify node) s)) pm" by simp
  with ok show ?thesis
    by (auto intro!: storage_advanced
        simp: pm_ok_invar view_ls_update_qc_high invar_ls_update_qc_high progress_ls_update_qc_high)
next
  case (Signature ctx p sign)
  let ?p1 = "emit_peer_event E (AcceptProposal ctx p (Some sign)) pm"
  from ret Signature have "pm1 = ?p1 \<or> (\<exists>v. process_local_timeout E C S L v ?p1 = Return pm1)"
    by (auto simp: exec_bind_eq_Return Let_def split: DeliveryType.splits if_splits)
  then show ?thesis
    using ok process_local_timeout_advanced [of ?p1 E _ pm1] by (auto simp: pm_advanced_refl)
next
  case (BranchSyncDone leaf)
  with ret ok show ?thesis
    using check_pending_prop_advanced [of "pm\<lparr>pm_sync_state := SYNC_IDLE\<rparr>" E "height leaf" pm1]
    by (auto simp: pm_advanced_refl split: if_splits)
next
  case (ProposalReachConsensus v)
  with ret ok show ?thesis by (auto intro: process_local_timeout_advanced)
qed (use ok ret in \<open>auto simp: pm_advanced_refl\<close>)

lemma drain_ready_advanced:
  "pm_ok S invar pm \<Longrightarrow> drain_ready E C S L pm = Return pm1 \<Longrightarrow> pm_advanced S invar pm pm1"
proof (induction "pm_work pm" arbitrary: pm rule: less_induct)
  case less
  show ?case
  proof (cases "pm_ready_queue pm")
    case Nil
    with less.prems show ?thesis by (simp add: drain_ready.simps [of _ _ _ _ pm] pm_advanced_refl)
  next
    case (Cons r rest)
    let ?p = "pm\<lparr>pm_ready_queue := rest\<rparr>"
    from Cons less.prems(2) obtain p2 where p2: "process_ready_event E C S L r ?p = Return p2"
        and d: "drain_ready E C S L p2 = Return pm1"
      by (auto simp: drain_ready.simps [of _ _ _ _ pm] exec_bind_eq_Return)
    have a: "pm_advanced S invar ?p p2" using less.prems(1) p2 by (intro process_ready_event_advanced) auto
    have "pm_work p2 < pm_work pm"
      using process_ready_event_work [OF p2] Cons by (simp add: pm_work_def)
    with less.hyps d a have "pm_advanced S invar p2 pm1" by (blast dest: pm_advanced_ok)
    with a show ?thesis by (auto intro: pm_advanced_trans)
  qed
qed

lemma flush_unwrap_advanced:
  assumes ok: "pm_ok S invar pm" and ret: "flush_unwrap L pm = Return pm1"
  shows "pm_advanced S invar pm pm1"
proof -
  from ret obtain s1 r where f: "ls_flush L (pm_storage pm) = Return (s1, r)"
      and c: "(case r of Inr _ \<Rightarrow> Return (on_pm_storage (\<lambda>_. s1) pm) | Inl _ \<Rightarrow> Panic UnwrapNone) = Return pm1"
    by (auto simp: flush_unwrap_def exec_bind_eq_Return)
  from c have pm1: "pm1 = on_pm_storage (\<lambda>_. s1) pm" by (cases r) auto
  show ?thesis unfolding pm1
    using ok f pm_ok_invar [OF ok] view_flush [OF f] invar_flush [OF _ f] progress_flush [OF _ f]
    by (intro storage_advanced) auto
qed

lemma make_new_proposal_advanced:
  assumes ok: "pm_ok S invar pm" and ret: "make_new_proposal C S L cmds pm = Return (pm1, r)"
  shows "pm_advanced S invar pm pm1"
proof -
  let ?p1 = "on_pm_storage (\<lambda>_. snd (new_view_set L (pm_view pm) (\<lambda>m. m) (pm_storage pm))) pm"
  let ?p2 = "on_pm_storage (clean_new_view_set L (pm_view pm + 1)) ?p1"
  have a1: "pm_advanced S invar pm ?p1"
    unfolding on_pm_storage_const [of "\<lambda>s. snd (new_view_set L (pm_view pm) (\<lambda>m. m) s)" pm]
    by (rule new_view_set_advanced [OF ok])
  have a2: "pm_advanced S invar pm ?p2"
    using a1 clean_advanced [OF pm_advanced_ok [OF a1]] by (rule pm_advanced_trans)
  have "pm1 = ?p1 \<or> pm1 = ?p2\<lparr>pm_machine := fst (on_beat C S cmds (pm_machine ?p2))\<rparr>"
    using ret by (auto simp: make_new_proposal_def Let_def case_prod_unfold split: if_splits sum.splits)
  moreover have "pm_advanced S invar ?p2 (?p2\<lparr>pm_machine := fst (on_beat C S cmds (pm_machine ?p2))\<rparr>)"
  proof -
    let ?I = "\<lambda>s. invar s \<and> get_view S s = pm_view ?p2"
    have "machine_ok ?I (pm_machine ?p2)" using pm_advanced_ok [OF a2] by (simp add: pm_ok_def machine_ok_def)
    then have "advanced S ?I (pm_machine ?p2) (fst (on_beat C S cmds (pm_machine ?p2)))"
      by (rule safety_storage_core.on_beat_advanced [OF fixed_view])
    then show ?thesis by (simp add: advanced_def pm_advanced_def pm_ok_def machine_ok_def)
  qed
  ultimately show ?thesis using a1 a2 by (auto intro: pm_advanced_trans)
qed

lemma propose_if_fetched_advanced:
  assumes ok: "pm_ok S invar pm" and ret: "propose_if_fetched C S L H pm = Return pm1"
  shows "pm_advanced S invar pm pm1"
proof -
  let ?p1 = "on_pm_storage (\<lambda>_. snd (new_view_set L (pm_view pm) (\<lambda>m. m) (pm_storage pm))) pm"
  have a1: "pm_advanced S invar pm ?p1"
    unfolding on_pm_storage_const [of "\<lambda>s. snd (new_view_set L (pm_view pm) (\<lambda>m. m) s)" pm]
    by (rule new_view_set_advanced [OF ok])
  show ?thesis
  proof (cases "fetch H (length (fst (new_view_set L (pm_view pm) (\<lambda>m. m) (pm_storage pm)))
      > get_threshold L (pm_storage ?p1))")
    case None
    with ret a1 show ?thesis by (simp add: propose_if_fetched_def Let_def case_prod_unfold)
  next
    case (Some cmds)
    with ret obtain p2 r where m: "make_new_proposal C S L cmds ?p1 = Return (p2, r)"
        and pm1: "pm1 = (case r of Some r' \<Rightarrow> p2\<lparr>pm_ready_queue := pm_ready_queue p2 @ [r']\<rparr> | None \<Rightarrow> p2)"
      by (auto simp: propose_if_fetched_def Let_def case_prod_unfold exec_bind_eq_Return cong: option.case_cong)
    have "pm_advanced S invar pm p2"
      using a1 make_new_proposal_advanced [OF pm_advanced_ok [OF a1] m] by (rule pm_advanced_trans)
    then show ?thesis by (simp add: pm1 split: option.split)
  qed
qed

lemma recv_timeout_advanced:
  "pm_ok S invar pm \<Longrightarrow> recv_timeout pm = Some (te, pm1) \<Longrightarrow> pm_advanced S invar pm pm1"
  by (auto simp: recv_timeout_def pm_advanced_refl split: list.splits)

lemma timeout_arm_advanced:
  assumes ok: "pm_ok S invar pm" and r: "recv_timeout pm = Some (te, p1)"
    and ret: "process_timeout_event E C S L te p1 = Return p2"
  shows "pm_advanced S invar pm p2"
proof -
  have a: "pm_advanced S invar pm p1" using ok r by (rule recv_timeout_advanced)
  then have "pm_advanced S invar p1 p2"
    using ret by (cases te) (auto intro: process_local_timeout_advanced dest: pm_advanced_ok)
  with a show ?thesis by (rule pm_advanced_trans)
qed

lemma run_select_advanced:
  assumes ok: "pm_ok S invar pm" and ret: "run_select E C S L arm pm = Return (pm1, g)"
  shows "pm_advanced S invar pm pm1"
proof (cases arm)
  case Tick
  with ret obtain p1 where "flush_unwrap L pm = Return p1" "drain_ready E C S L p1 = Return pm1"
    by (auto simp: exec_bind_eq_Return)
  then show ?thesis
    using flush_unwrap_advanced [OF ok] drain_ready_advanced pm_advanced_trans pm_advanced_ok by blast
qed (use ok ret in \<open>auto simp: exec_bind_eq_Return pm_advanced_refl split: option.splits
    intro: process_network_event_advanced timeout_arm_advanced\<close>)

lemma loop_select_advanced:
  assumes ok: "pm_ok S invar pm" and ret: "loop_select E C S L arm pm = Return (pm1, g)"
  shows "pm_advanced S invar pm pm1"
  using ok ret
  by (cases arm) (auto simp: exec_bind_eq_Return pm_advanced_refl split: option.splits
    intro: process_network_event_advanced timeout_arm_advanced flush_unwrap_advanced)

lemma event_loop_round_advanced:
  assumes ok: "pm_ok S invar pm" and ret: "event_loop_round E C S L H arm pm = Return (pm1, g)"
  shows "pm_advanced S invar pm pm1"
proof (cases "end_fn H (pm_view pm)")
  case True
  with ok ret show ?thesis by (simp add: event_loop_round_def pm_advanced_refl)
next
  case False
  with ret obtain p1 p2 where p1: "propose_if_fetched C S L H pm = Return p1"
      and p2: "loop_select E C S L arm p1 = Return (p2, g)" and d: "drain_ready E C S L p2 = Return pm1"
    by (auto simp: event_loop_round_def exec_bind_eq_Return)
  have a1: "pm_advanced S invar pm p1" using propose_if_fetched_advanced [OF ok p1] .
  have a2: "pm_advanced S invar p1 p2" using loop_select_advanced [OF pm_advanced_ok [OF a1] p2] .
  have "pm_advanced S invar p2 pm1" using drain_ready_advanced [OF pm_advanced_ok [OF a2] d] .
  with a1 a2 show ?thesis by (blast intro: pm_advanced_trans)
qed

lemma pm_step_advanced: "pm_step E C S L pm pm1 \<Longrightarrow> pm_ok S invar pm \<Longrightarrow> pm_advanced S invar pm pm1"
  by (induction rule: pm_step.induct)
    (auto simp: timer_fires_pm_def pm_advanced_refl intro: run_select_advanced event_loop_round_advanced)

lemma run_start_advanced:
  "pm_ok S invar pm \<Longrightarrow> run_start E S L pm = Return pm1 \<Longrightarrow> pm_advanced S invar pm pm1"
  by (auto simp: run_start_def exec_bind_eq_Return exec_of_option_eq_Return intro: goto_new_view_advanced)

lemma pm_steps_advanced:
  assumes "(pm_step E C S L)\<^sup>*\<^sup>* pm pm1" and "pm_ok S invar pm"
  shows "pm_advanced S invar pm pm1"
  using assms
proof (induction rule: rtranclp_induct)
  case base
  then show ?case by (rule pm_advanced_refl)
next
  case (step p q)
  then show ?case using pm_step_advanced [OF step.hyps(2)] pm_advanced_ok pm_advanced_trans by blast
qed

end

end
