(* ===== verification/PmSound.thy ===== *)
theory PmSound
  imports PmInvariant HssMachine
begin

section \<open>The pacemaker over the in-memory store: no panics, one timer, one queue\<close>

text \<open>
  A replica as it runs: the pacemaker with the machine and the store of \<^verbatim>\<open>hss\<close>. \<open>sound\<close> is a
  partial-correctness assertion on an outcome that also rules panics out; one lemma per handler
  shows that it keeps \<open>pm_sound\<close>: a non-empty roster, votes in the ready queue addressed to
  one replica, at most one timer waiting, and no timer event for a view the replica has not
  reached.
\<close>

subsection \<open>The machine does not panic\<close>

definition no_panic :: "'a exec \<Rightarrow> bool" where
  "no_panic m \<longleftrightarrow> (\<forall>p. m \<noteq> Panic p)"

lemma no_panic_bind:
  "no_panic m \<Longrightarrow> (\<And>x. m = Return x \<Longrightarrow> no_panic (f x)) \<Longrightarrow> no_panic (exec_bind m f)"
  by (cases m) (auto simp: no_panic_def)

lemma no_panic_simps [simp]: "no_panic (Return x)" "no_panic Diverge" "\<not> no_panic (Panic p)"
  by (simp_all add: no_panic_def)

lemma acceptable_no_panic: "no_panic (acceptable (hss_safety_storage C) p q m)"
  by (auto simp: acceptable_def safe_node_def hss_is_conflicting_def Let_def split: option.split)

lemma update_nodes_no_panic: "no_panic (update_nodes (hss_safety_storage C) p m)"
  using update_nodes_store [of C p m] by auto

lemma on_recv_proposal_no_panic: "no_panic (on_recv_proposal C (hss_safety_storage C) ctx p j m)"
  by (auto simp: on_recv_proposal_def Let_def split: sum.split option.split
      intro!: no_panic_bind acceptable_no_panic update_nodes_no_panic)

lemma branch_sync_loop_no_panic: "no_panic (branch_sync_loop C (hss_safety_storage C) ps m)"
proof (induction ps arbitrary: m)
  case (Cons p ps)
  then show ?case
    by (auto split: sum.split option.split
        intro!: no_panic_bind acceptable_no_panic update_nodes_no_panic)
qed simp

lemma on_recv_vote_returns:
  "\<exists>m1 r. on_recv_vote C S ctx p sign m = Return (m1, r) \<and> (\<forall>c q s. r \<noteq> Inr (Signature c q s))"
proof -
  obtain vt r where av: "add_vote ctx (height p) sign (m_voter m) = (vt, r)" by fastforce
  obtain vt2 res where "voter_combine_partial_sign C (height p) vt = Return (vt2, res)"
    using voter_combine_no_panic [of C "height p" vt] by fastforce
  then show ?thesis by (cases r; cases res) (simp_all add: on_recv_vote_def av Let_def)
qed

lemma process_safety_event_no_panic: "no_panic (process_safety_event C (hss_safety_storage C) e m)"
proof (cases e)
  case (RecvSign ctx p s)
  then show ?thesis using on_recv_vote_returns [of C "hss_safety_storage C" ctx p s m] by auto
next
  case (BranchSync ctx ps)
  then show ?thesis by (auto simp: on_branch_sync_def intro!: no_panic_bind branch_sync_loop_no_panic)
qed (auto simp: on_recv_proposal_no_panic Let_def)

lemma signature_addressed:
  assumes "process_safety_event C (hss_safety_storage C) e m = Return (m1, Inr (Signature c p s))"
  shows "\<exists>r. ctx_to c = Single r"
proof (cases e)
  case (RecvProposal ctx q)
  show ?thesis
  proof (cases "\<exists>x. justified C (hss_safety_storage C) q x m")
    case True
    then obtain x ok where x: "justified C (hss_safety_storage C) q x m"
        "acceptable (hss_safety_storage C) q x m = Return ok"
      using assms RecvProposal acceptable_no_panic [of C q _ m]
      by (auto simp: on_recv_proposal_def verify_proposal_iff justified_def exec_bind_eq_Return
          split: option.splits if_splits)
    with assms RecvProposal show ?thesis
      by (auto simp: justified_outcome exec_bind_eq_Return simp del: process_safety_event.simps split: if_splits)
  qed (use assms RecvProposal not_justified_rejected [of C "hss_safety_storage C" q m ctx] in auto)
next
  case (RecvSign ctx q sg)
  with assms on_recv_vote_returns [of C "hss_safety_storage C" ctx q sg m] show ?thesis by auto
qed (use assms in \<open>auto simp: on_branch_sync_def exec_bind_eq_Return on_beat_def form_update_qc_high_def
    Let_def case_prod_unfold\<close>)

subsection \<open>Soundness of an outcome\<close>

fun event_view :: "TimeoutEvent \<Rightarrow> ViewNumber" where
  "event_view (ViewTimeout v) = v"

definition votes_addressed :: "Ready list \<Rightarrow> bool" where
  "votes_addressed q \<longleftrightarrow> (\<forall>c p s. Signature c p s \<in> set q \<longrightarrow> (\<exists>r. ctx_to c = Single r))"

definition timers_sound :: "'s Pacemaker \<Rightarrow> bool" where
  "timers_sound pm \<longleftrightarrow> length (tm_live (pm_timer pm)) \<le> 1
     \<and> (\<forall>(te, d) \<in> set (tm_live (pm_timer pm)). event_view te \<le> pm_view pm)
     \<and> (\<forall>te \<in> set (tm_channel (pm_timer pm)). event_view te \<le> pm_view pm)"

definition pm_sound :: "'s Pacemaker \<Rightarrow> bool" where
  "pm_sound pm \<longleftrightarrow> round_mapper (pm_elector pm) \<noteq> [] \<and> votes_addressed (pm_ready_queue pm)
     \<and> timers_sound pm"

fun sound :: "'s Pacemaker exec \<Rightarrow> bool" where
  "sound (Return pm) = pm_sound pm"
| "sound (Panic p) = False"
| "sound Diverge = True"

lemma sound_bind:
  "sound m \<Longrightarrow> (\<And>pm. m = Return pm \<Longrightarrow> pm_sound pm \<Longrightarrow> sound (f pm)) \<Longrightarrow> sound (exec_bind m f)"
  by (cases m) auto

lemma sound_no_panic: "sound m \<Longrightarrow> no_panic m"
  by (cases m) auto

lemma pm_sound_frame [simp]:
  "pm_sound (pm\<lparr>pm_sync_state := x\<rparr>) = pm_sound pm"
  "pm_sound (pm\<lparr>pm_pending_prop := y\<rparr>) = pm_sound pm"
  "pm_sound (pm\<lparr>pm_machine := m\<rparr>) = pm_sound pm"
  "pm_sound (on_pm_storage f pm) = pm_sound pm"
  "pm_sound (emit_peer_event E pe pm) = pm_sound pm"
  by (simp_all add: pm_sound_def timers_sound_def)

lemma get_leader_returns: "round_mapper e \<noteq> [] \<Longrightarrow> \<exists>r. get_leader E v e = Return r"
  by (simp add: get_leader_def view_hash_def)

lemma votes_addressed_queued:
  assumes "process_safety_event C (hss_safety_storage C) e m = Return (m1, r)" and "votes_addressed q"
  shows "votes_addressed (q @ queued r)"
proof (cases r)
  case (Inr x)
  then show ?thesis
    using assms signature_addressed [of C e m m1] by (auto simp: votes_addressed_def)
qed (use assms(2) in simp)

lemma emit_safety_event_sound:
  assumes "pm_sound pm"
  shows "sound (emit_safety_event C (hss_safety_storage C) se pm)"
proof (cases "process_safety_event C (hss_safety_storage C) se (pm_machine pm)")
  case (Return x)
  obtain m r where x: "x = (m, r)" by (cases x)
  with votes_addressed_queued [of C se "pm_machine pm" m r "pm_ready_queue pm"] Return assms show ?thesis
    by (auto simp: emit_safety_event_eq pm_sound_def timers_sound_def)
next
  case (Panic p)
  then show ?thesis using process_safety_event_no_panic [of C se "pm_machine pm"] by simp
qed (simp add: emit_safety_event_eq)

lemma check_pending_prop_sound:
  assumes "pm_sound pm"
  shows "sound (check_pending_prop E C (hss_safety_storage C) h pm)"
proof -
  obtain r where r: "get_leader E (pm_view pm) (pm_elector pm) = Return r"
    using assms get_leader_returns unfolding pm_sound_def by blast
  show ?thesis
    using assms r by (auto simp: check_pending_prop_def Let_def emit_safety_event_sound split: option.split)
qed

lemma goto_new_view_sound:
  assumes "pm_sound pm"
  shows "sound (goto_new_view E S L v pm)"
proof -
  obtain r where r: "get_leader E (max (pm_view pm) v) (pm_elector pm) = Return r"
    using assms get_leader_returns unfolding pm_sound_def by blast
  have "timers_sound pm" using assms by (simp add: pm_sound_def)
  then have "timers_sound (update_pm_status L v (pm\<lparr>pm_timer := view_timeout v d t\<rparr>))"
    if "tm_channel t = tm_channel (pm_timer pm)" for d t
    using that by (auto simp: timers_sound_def view_timeout_def timer_start_def stop_view_timer_def le_max_iff_disj)
  from this [of "snd (timeout_by_delay E (pm_timer pm))" "fst (timeout_by_delay E (pm_timer pm))"] assms r
  show ?thesis
    by (simp add: goto_new_view_def Let_def case_prod_unfold pm_sound_def timeout_by_delay_def timers_sound_def)
qed

lemma process_local_timeout_sound:
  "pm_sound pm \<Longrightarrow> sound (process_local_timeout E C (hss_safety_storage C) L v pm)"
  by (auto simp: process_local_timeout_def Let_def
      intro!: sound_bind goto_new_view_sound check_pending_prop_sound)

lemma process_network_event_sound:
  assumes "pm_sound pm"
  shows "sound (process_network_event E C (hss_safety_storage C) L ev pm)"
proof (cases ev)
  case (Timeout ctx tc)
  with assms show ?thesis
    by (auto simp: Let_def case_prod_unfold process_local_timeout_sound split: sum.split)
qed (use assms in \<open>auto simp: Let_def emit_safety_event_sound check_pending_prop_sound
    split: option.split sum.split SyncStatus.split\<close>)

lemma process_ready_event_sound:
  assumes "pm_sound pm" and "\<And>c p s. r = Signature c p s \<Longrightarrow> \<exists>q. ctx_to c = Single q"
    and "DUR_REPLICA_WAIT E \<noteq> None"
  shows "sound (process_ready_event E C (hss_safety_storage C) L r pm)"
proof (cases r)
  case (Signature c p s)
  then obtain q where "ctx_to c = Single q" using assms(2) by blast
  with assms(1,3) Signature show ?thesis by (auto simp: Let_def process_local_timeout_sound)
qed (use assms in \<open>auto simp: process_local_timeout_sound check_pending_prop_sound\<close>)

lemma drain_ready_sound:
  assumes "DUR_REPLICA_WAIT E \<noteq> None"
  shows "pm_sound pm \<Longrightarrow> sound (drain_ready E C (hss_safety_storage C) L pm)"
proof (induction "pm_work pm" arbitrary: pm rule: less_induct)
  case less
  show ?case
  proof (cases "pm_ready_queue pm")
    case Nil
    with less.prems show ?thesis by (simp add: drain_ready.simps [of _ _ _ _ pm])
  next
    case (Cons r rest)
    let ?p = "pm\<lparr>pm_ready_queue := rest\<rparr>"
    have p: "pm_sound ?p" and sig: "\<And>c q s. r = Signature c q s \<Longrightarrow> \<exists>x. ctx_to c = Single x"
      using less.prems Cons by (auto simp: pm_sound_def timers_sound_def votes_addressed_def)
    have "sound (drain_ready E C (hss_safety_storage C) L p2)"
      if "process_ready_event E C (hss_safety_storage C) L r ?p = Return p2" and "pm_sound p2" for p2
      using less.hyps [of p2] that process_ready_event_work [OF that(1)] Cons by (simp add: pm_work_def)
    moreover have "sound (process_ready_event E C (hss_safety_storage C) L r ?p)"
      using p assms sig by (intro process_ready_event_sound) auto
    ultimately show ?thesis
      unfolding drain_ready.simps [of _ _ _ _ pm] by (auto simp: Cons intro: sound_bind)
  qed
qed

lemma flush_unwrap_sound: "pm_sound pm \<Longrightarrow> sound (flush_unwrap (hss_liveness_storage C) pm)"
  by (cases "async_flush (pm_storage pm)")
    (auto simp: flush_unwrap_def hss_ls_flush_def async_flush_frame(6) dest: async_flush_frame(6)
      simp: async_flush_def mysql_async_flush_def Let_def split: if_splits option.splits receiver.splits)

lemma make_new_proposal_sound:
  assumes "pm_sound pm"
  shows "\<exists>pm1 r. make_new_proposal C (hss_safety_storage C) L cmds pm = Return (pm1, r)
    \<and> pm_sound pm1 \<and> pm_ready_queue pm1 = pm_ready_queue pm
    \<and> (\<forall>x. r = Some x \<longrightarrow> (\<exists>c p. x = NewProposal c p))"
  using assms by (auto simp: make_new_proposal_def Let_def case_prod_unfold on_beat_def)

lemma propose_if_fetched_sound:
  assumes "pm_sound pm"
  shows "sound (propose_if_fetched C (hss_safety_storage C) L H pm)"
proof -
  let ?p1 = "on_pm_storage (\<lambda>_. snd (new_view_set L (pm_view pm) (\<lambda>m. m) (pm_storage pm))) pm"
  have p1: "pm_sound ?p1" using assms by simp
  have "sound (case fetch H b of None \<Rightarrow> Return ?p1
      | Some cmds \<Rightarrow> exec_bind (make_new_proposal C (hss_safety_storage C) L cmds ?p1) (\<lambda>(pm2, ready).
          Return (case ready of Some r \<Rightarrow> pm2\<lparr>pm_ready_queue := pm_ready_queue pm2 @ [r]\<rparr> | None \<Rightarrow> pm2)))" for b
  proof (cases "fetch H b")
    case (Some cmds)
    obtain pm1 r where m: "make_new_proposal C (hss_safety_storage C) L cmds ?p1 = Return (pm1, r)"
        and pm1: "pm_sound pm1" and r: "\<forall>x. r = Some x \<longrightarrow> (\<exists>c p. x = NewProposal c p)"
      using make_new_proposal_sound [OF p1, of C L cmds] by blast
    then have "r = Some x \<Longrightarrow> pm_sound (pm1\<lparr>pm_ready_queue := pm_ready_queue pm1 @ [x]\<rparr>)" for x
      by (fastforce simp: pm_sound_def timers_sound_def votes_addressed_def)
    with m pm1 Some show ?thesis by (simp split: option.split)
  qed (use p1 in simp)
  then show ?thesis by (simp add: propose_if_fetched_def Let_def case_prod_unfold)
qed

lemma recv_timeout_sound: "pm_sound pm \<Longrightarrow> recv_timeout pm = Some (te, pm1) \<Longrightarrow> pm_sound pm1"
  by (auto simp: recv_timeout_def pm_sound_def timers_sound_def split: list.splits)

lemma process_timeout_event_sound:
  "pm_sound pm \<Longrightarrow> sound (process_timeout_event E C (hss_safety_storage C) L te pm)"
  by (cases te) (simp add: process_local_timeout_sound)

text \<open>Rounds answer with a flag beside the state; \<open>round_sound\<close> looks at the state.\<close>

definition round_sound :: "('s Pacemaker \<times> bool) exec \<Rightarrow> bool" where
  "round_sound m \<longleftrightarrow> sound (exec_bind m (\<lambda>(pm, _). Return pm))"

lemma round_sound_simps [simp]:
  "round_sound (Return (pm, g)) = pm_sound pm"
  "round_sound (exec_bind m (\<lambda>pm. Return (pm, g))) = sound m"
  by (cases m; simp add: round_sound_def)+

lemma round_sound_no_panic: "round_sound m \<Longrightarrow> no_panic m"
  by (cases m) (auto simp: round_sound_def)

lemma round_sound_bind:
  "sound m \<Longrightarrow> (\<And>pm. m = Return pm \<Longrightarrow> pm_sound pm \<Longrightarrow> round_sound (f pm)) \<Longrightarrow> round_sound (exec_bind m f)"
  by (cases m) (auto simp: round_sound_def)

lemma run_select_sound:
  assumes "pm_sound pm" and "DUR_REPLICA_WAIT E \<noteq> None"
  shows "round_sound (run_select E C (hss_safety_storage C) (hss_liveness_storage C) arm pm)"
proof (cases arm)
  case TimeoutRecv
  with assms show ?thesis
    by (auto split: option.split intro: process_timeout_event_sound recv_timeout_sound)
qed (use assms in \<open>auto intro!: round_sound_bind flush_unwrap_sound drain_ready_sound
    simp: process_network_event_sound\<close>)

lemma loop_select_sound:
  assumes "pm_sound pm"
  shows "round_sound (loop_select E C (hss_safety_storage C) (hss_liveness_storage C) arm pm)"
  using assms by (cases arm)
    (auto simp: process_network_event_sound flush_unwrap_sound split: option.split
      intro: process_timeout_event_sound recv_timeout_sound)

lemma observed_state_returns:
  "pm_sound pm \<Longrightarrow> \<exists>x. observed_state E S pm = Return x"
  using get_leader_returns [of "pm_elector pm" E "pm_view pm"] by (auto simp: observed_state_def pm_sound_def)

lemma event_loop_round_sound:
  assumes "pm_sound pm" and "DUR_REPLICA_WAIT E \<noteq> None"
  shows "round_sound (event_loop_round E C (hss_safety_storage C) (hss_liveness_storage C) H arm pm)"
proof (cases "end_fn H (pm_view pm)")
  case True
  with assms(1) show ?thesis by (simp add: event_loop_round_def)
next
  case False
  have sel: "round_sound (exec_bind (loop_select E C (hss_safety_storage C) (hss_liveness_storage C) arm p)
      (\<lambda>(pm2, go_on). exec_bind (drain_ready E C (hss_safety_storage C) (hss_liveness_storage C) pm2)
        (\<lambda>pm3. Return (pm3, go_on))))" if "pm_sound p" for p
    using loop_select_sound [OF that, of E C arm] drain_ready_sound [OF assms(2)]
    by (cases "loop_select E C (hss_safety_storage C) (hss_liveness_storage C) arm p")
      (auto simp: round_sound_def [of "Panic _"] round_sound_def [of Diverge])
  have "round_sound (exec_bind (if observe_fn H then exec_bind (observed_state E (hss_safety_storage C) p) (\<lambda>_. Return ())
      else Return ()) (\<lambda>_. exec_bind (loop_select E C (hss_safety_storage C) (hss_liveness_storage C) arm p)
      (\<lambda>(pm2, go_on). exec_bind (drain_ready E C (hss_safety_storage C) (hss_liveness_storage C) pm2)
        (\<lambda>pm3. Return (pm3, go_on)))))" if "pm_sound p" for p
    using sel [OF that] observed_state_returns [OF that, of E "hss_safety_storage C"] by auto
  with False propose_if_fetched_sound [OF assms(1)] show ?thesis
    by (auto simp: event_loop_round_def intro: round_sound_bind)
qed

lemma pm_step_sound:
  assumes "pm_step E C (hss_safety_storage C) (hss_liveness_storage C) pm pm1" and "pm_sound pm"
    and "DUR_REPLICA_WAIT E \<noteq> None"
  shows "pm_sound pm1"
  using assms(1)
proof cases
  case (run_round arm go_on)
  with run_select_sound [OF assms(2,3), of C arm] show ?thesis by simp
next
  case (loop_round arm H go_on)
  with event_loop_round_sound [OF assms(2,3), of C H arm] show ?thesis by simp
next
  case (fires i)
  then have i: "i < length (tm_live (pm_timer pm))" by simp
  have t: "timers_sound pm" using assms(2) by (simp add: pm_sound_def)
  have "fst (tm_live (pm_timer pm) ! i) \<in> fst ` set (tm_live (pm_timer pm))" using i by simp
  then have "event_view (fst (tm_live (pm_timer pm) ! i)) \<le> pm_view pm"
    using t unfolding timers_sound_def by force
  then have "timers_sound pm1"
    using t i fires by (auto simp: timers_sound_def timer_fires_pm_def timer_fires_def
        dest: in_set_takeD in_set_dropD)
  then show ?thesis using assms(2) fires by (simp add: pm_sound_def timer_fires_pm_def)
qed

end
