(* ===== verification/PmProps.thy ===== *)
theory PmProps
  imports PmSound
begin

section \<open>Properties of a running replica\<close>

text \<open>
  The properties of the pacemaker over the store of \<^verbatim>\<open>hss\<close>: what holds in every state a replica
  can reach from its start, and what each of its decisions does.
\<close>

definition fresh_pacemaker ::
    "crypto \<Rightarrow> usize \<Rightarrow> ReplicaID \<Rightarrow> ReplicaID list \<Rightarrow> DefaultSignaturer \<Rightarrow> NetworkAdaptor
       \<Rightarrow> HotstuffStorage Pacemaker" where
  "fresh_pacemaker C n i roster sg na =
     Pacemaker_new i (elector_init roster elector_default) (fresh_machine C n i [] sg) na sg"

text \<open>The states a replica reaches: its start, then any number of rounds and timer firings.\<close>

definition replica_reaches ::
    "env \<Rightarrow> crypto \<Rightarrow> HotstuffStorage Pacemaker \<Rightarrow> HotstuffStorage Pacemaker \<Rightarrow> bool" where
  "replica_reaches E C pm0 pm \<longleftrightarrow>
     (\<exists>p1. run_start E (hss_safety_storage C) (hss_liveness_storage C) pm0 = Return p1
        \<and> (pm_step E C (hss_safety_storage C) (hss_liveness_storage C))\<^sup>*\<^sup>* p1 pm)"

lemma fresh_pacemaker_simps [simp]:
  "pm_view (fresh_pacemaker C n i rs sg na) = 0"
  "pm_machine (fresh_pacemaker C n i rs sg na) = fresh_machine C n i [] sg"
  "pm_elector (fresh_pacemaker C n i rs sg na) = elector_init rs elector_default"
  "pm_ready_queue (fresh_pacemaker C n i rs sg na) = []"
  "pm_pending_prop (fresh_pacemaker C n i rs sg na) = []"
  "pm_sync_state (fresh_pacemaker C n i rs sg na) = SYNC_IDLE"
  "tm_live (pm_timer (fresh_pacemaker C n i rs sg na)) = []"
  "tm_channel (pm_timer (fresh_pacemaker C n i rs sg na)) = []"
  by (simp_all add: fresh_pacemaker_def Pacemaker_new_def DefaultTimer_new_def Let_def)

lemma roster_nonempty: "rs \<noteq> [] \<Longrightarrow> round_mapper (elector_init rs e) \<noteq> []"
  by (simp add: roster_of_set)

lemma fresh_pacemaker_sound: "rs \<noteq> [] \<Longrightarrow> pm_sound (fresh_pacemaker C n i rs sg na)"
  by (simp add: pm_sound_def votes_addressed_def timers_sound_def roster_nonempty)

lemma fresh_pacemaker_ok: "pm_ok (hss_safety_storage C) (hss_inv C) (fresh_pacemaker C n i rs sg na)"
  using machine_ok_weaken [OF fresh_machine_ok] by (simp add: pm_ok_def hss_get_view_def)

lemma run_start_sound:
  assumes "pm_sound pm" and "FLUSH_INTERVAL E \<noteq> None"
  shows "sound (run_start E S L pm)"
  using assms by (auto simp: run_start_def intro!: sound_bind goto_new_view_sound)

lemma replica_reaches_sound:
  assumes "replica_reaches E C pm0 pm" and "pm_sound pm0" and "DUR_REPLICA_WAIT E \<noteq> None"
  shows "pm_sound pm"
proof -
  from assms(1) obtain p1 where p1: "run_start E (hss_safety_storage C) (hss_liveness_storage C) pm0 = Return p1"
      and steps: "(pm_step E C (hss_safety_storage C) (hss_liveness_storage C))\<^sup>*\<^sup>* p1 pm"
    by (auto simp: replica_reaches_def)
  have "sound (goto_new_view E (hss_safety_storage C) (hss_liveness_storage C) 1 pm0)"
    using assms(2) by (rule goto_new_view_sound)
  with p1 have "pm_sound p1" by (auto simp: run_start_def exec_bind_eq_Return)
  with steps show ?thesis
    by (induction rule: rtranclp_induct) (auto intro: pm_step_sound [OF _ _ assms(3)])
qed

lemma replica_reaches_advanced:
  assumes "replica_reaches E C pm0 pm" and "pm_ok (hss_safety_storage C) (hss_inv C) pm0"
  shows "pm_advanced (hss_safety_storage C) (hss_inv C) pm0 pm"
  using assms hssl.run_start_advanced hssl.pm_steps_advanced pm_advanced_ok pm_advanced_trans
  unfolding replica_reaches_def by blast

lemma reaches_step:
  "replica_reaches E C pm0 pm \<Longrightarrow> pm_step E C (hss_safety_storage C) (hss_liveness_storage C) pm pm1
   \<Longrightarrow> replica_reaches E C pm0 pm1"
  unfolding replica_reaches_def by (meson rtranclp.rtrancl_into_rtrancl)

subsection \<open>Every reachable state\<close>


text \<open>A replica of the examples, started.\<close>

definition toy_net :: NetworkAdaptor where
  "toy_net = \<lparr>na_sent = [], na_sends = 0, na_mode = Test, na_self_addr = ''addr'', na_max_transport_limit = 1000\<rparr>"

definition toy_replica :: "HotstuffStorage Pacemaker" where
  "toy_replica = fresh_pacemaker toy 4 ''a'' [''a'', ''b'', ''c'', ''d''] (toy_signaturer 0) toy_net"

lemma toy_env_simps [simp]:
  "DUR_REPLICA_WAIT toy_env = Some 500" "FLUSH_INTERVAL toy_env = Some 500" "accepts toy_env k"
  by (simp_all add: toy_env_def)


lemma toy_replica_started:
  "\<exists>p1. run_start toy_env (hss_safety_storage toy) (hss_liveness_storage toy) toy_replica = Return p1
    \<and> replica_reaches toy_env toy toy_replica p1 \<and> pm_view p1 = 1 \<and> tm_channel (pm_timer p1) = []
    \<and> tm_live (pm_timer p1) = [(ViewTimeout 1, 28999)]"
proof -
  obtain ld where ld: "get_leader toy_env 1 (elector_init [''a'', ''b'', ''c'', ''d''] elector_default) = Return ld"
    using get_leader_returns [OF roster_nonempty] by blast
  have tm: "pm_timer toy_replica = DefaultTimer_new 30000 12000"
    by (simp add: toy_replica_def fresh_pacemaker_def Pacemaker_new_def Let_def)
  show ?thesis
    using ld by (auto simp: replica_reaches_def run_start_def goto_new_view_def Let_def case_prod_unfold
        tm [unfolded toy_replica_def] toy_replica_def timeout_by_delay_def DefaultTimer_new_def view_timeout_def timer_start_def
        stop_view_timer_def toy_env_def exec_bind_eq_Return intro!: exI)
qed

text \<open>C11: in every state a replica reaches from its start, the pacemaker's view is the one its store
  records, the store is well formed (proposals under their own hash; leaf, lock and last commit
  stored; committed height that of the last commit), and neither the view nor the locked nor
  the committed height is below what it was in any earlier state.\<close>

theorem replica_view_invariant:
  assumes "replica_reaches E C (fresh_pacemaker C n i roster sg na) pm"
    and "(pm_step E C (hss_safety_storage C) (hss_liveness_storage C))\<^sup>*\<^sup>* pm pm1"
  shows "pm_view pm1 = hss_get_view (pm_storage pm1) \<and> hss_inv C (pm_storage pm1)
    \<and> pm_view pm \<le> pm_view pm1
    \<and> height (hss_get_locked_node (pm_storage pm)) \<le> height (hss_get_locked_node (pm_storage pm1))
    \<and> height (hss_get_last_committed (pm_storage pm)) \<le> height (hss_get_last_committed (pm_storage pm1))"
proof -
  have ok: "pm_ok (hss_safety_storage C) (hss_inv C) pm"
    using replica_reaches_advanced [OF assms(1) fresh_pacemaker_ok] by (rule pm_advanced_ok)
  have adv: "pm_advanced (hss_safety_storage C) (hss_inv C) pm pm1"
    using hssl.pm_steps_advanced [OF assms(2) ok] .
  then show ?thesis
    using ok by (auto simp: pm_advanced_def pm_ok_def progress_def machine_ok_def)
qed

theorem replica_view_invariant_witness:
  "\<exists>p1. replica_reaches toy_env toy toy_replica p1 \<and> pm_view p1 = 1
    \<and> pm_view (timer_fires_pm 0 p1) = hss_get_view (pm_storage (timer_fires_pm 0 p1))"
proof -
  obtain p1 where p1: "replica_reaches toy_env toy toy_replica p1" "pm_view p1 = 1"
      "tm_live (pm_timer p1) = [(ViewTimeout 1, 28999)]"
    using toy_replica_started by blast
  have "(pm_step toy_env toy (hss_safety_storage toy) (hss_liveness_storage toy))\<^sup>*\<^sup>* p1 (timer_fires_pm 0 p1)"
    using p1(3) by (intro r_into_rtranclp pm_step.fires) simp
  with replica_view_invariant [OF p1(1) [unfolded toy_replica_def] this] p1 show ?thesis
    by (auto simp: toy_replica_def)
qed



subsection \<open>Leaving a view\<close>



subsection \<open>Pending proposals\<close>

lemma sw_key_from:
  assumes "v < 2 ^ 63"
  shows "sw_key (SafetyEventWrapper_from v se) = - uint v"
proof -
  have u: "uint v < 2 ^ 63" "0 \<le> uint v" using assms by (simp_all add: word_less_alt)
  have self: "signed_take_bit 63 k = k" if "- (2 ^ 63) \<le> k" "k < 2 ^ 63" for k :: int
    using that by (rule signed_take_bit_int_eq_self)
  have "sint v = uint v" using self [of "uint v"] u by (simp add: sint_uint)
  then have "sint (- v) = signed_take_bit 63 (- uint v)"
    by (simp add: sint_word_ariths)
  also have "\<dots> = - uint v" using u by (intro self) linarith+
  finally show ?thesis by (simp add: sw_key_def SafetyEventWrapper_from_def)
qed

text \<open>The wrapper that orders pending proposals. Negating the view and negating it back is the
  identity at every view, and below \<open>2\<^sup>6\<^sup>3\<close> the heap's order is the reverse of the order of views,
  so the heap hands out the least view first.\<close>

lemma wrapper_roundtrip_order:
  "- sw_view (SafetyEventWrapper_from v se) = v
   \<and> (v < 2 ^ 63 \<and> w < 2 ^ 63 \<longrightarrow>
      (sw_key (SafetyEventWrapper_from v se) \<le> sw_key (SafetyEventWrapper_from w se') \<longleftrightarrow> w \<le> v))"
  by (auto simp: sw_key_from word_le_def) (simp_all add: SafetyEventWrapper_from_def)

lemma wrapper_roundtrip_order_example:
  "sw_key (SafetyEventWrapper_from 7 RequestSnapshot) \<le> sw_key (SafetyEventWrapper_from 5 RequestSnapshot)"
  using wrapper_roundtrip_order [of 7 RequestSnapshot 5 RequestSnapshot] by simp

text \<open>Pending proposals as \<open>process_network_event\<close> files them: under the view of their justification.\<close>

definition filed_pending :: "SafetyEventWrapper \<Rightarrow> bool" where
  "filed_pending sw \<longleftrightarrow> (\<exists>ctx p. sw = SafetyEventWrapper_from (qc_view (justify p)) (RecvProposal ctx p)
     \<and> qc_view (justify p) < 2 ^ 63)"

lemma filed_pendingI:
  "qc_view (justify p) = v \<Longrightarrow> v < 2 ^ 63 \<Longrightarrow> filed_pending (SafetyEventWrapper_from v (RecvProposal ctx p))"
  unfolding filed_pending_def by blast

lemma heap_pop_least:
  assumes "heap_pop sw_key q = Some (sw, rest)" and "\<And>x. x \<in> set q \<Longrightarrow> filed_pending x" and "x \<in> set q"
  shows "- sw_view sw \<le> - sw_view x"
proof -
  have "sw \<in># mset q" using heap_pop_mset [OF assms(1)] by simp
  then have "sw \<in> set q" by simp
  then obtain v w se se' where "sw = SafetyEventWrapper_from v se" "v < 2 ^ 63"
      "x = SafetyEventWrapper_from w se'" "w < 2 ^ 63"
    using assms(2) [of sw] assms(2) [OF assms(3)] by (auto simp: filed_pending_def)
  moreover have "sw_key x \<le> sw_key sw" using heap_pop_max [OF assms(1,3)] .
  ultimately show ?thesis by (simp add: sw_key_from word_le_def) (simp add: SafetyEventWrapper_from_def)
qed


definition toy_behind :: "HotstuffStorage Pacemaker" where
  "toy_behind = toy_replica\<lparr>pm_pending_prop :=
     [SafetyEventWrapper_from 3 (RecvProposal (Context_broadcast ''b'' 1) (toy_block 4 (toy_hash_of 3) 3)),
      SafetyEventWrapper_from 2 (RecvProposal (Context_broadcast ''b'' 1) (toy_block 3 (toy_hash_of 2) 2))]\<rparr>"


subsection \<open>Proposing and draining\<close>

text \<open>The new-view messages held for a view.\<close>

definition new_views_at :: "ViewNumber \<Rightarrow> HotstuffStorage \<Rightarrow> new_views" where
  "new_views_at v s = (case bt_get v (hs_new_view_set s) of None \<Rightarrow> [] | Some nv \<Rightarrow> nv)"

lemma new_view_set_fst: "fst (hss_new_view_set v f s) = f (new_views_at v s)"
  by (simp add: hss_new_view_set_def bt_entry_or_def new_views_at_def Let_def split: option.split)

lemma new_views_at_clean:
  "new_views_at v (hss_clean_new_view_set w s) = (if w \<le> v then new_views_at v s else [])"
  by (simp add: new_views_at_def hss_clean_new_view_set_def map_simps)

lemma new_views_at_frame: "hs_new_view_set t = hs_new_view_set s \<Longrightarrow> new_views_at v t = new_views_at v s"
  by (simp add: new_views_at_def)

lemma new_views_count:
  assumes "hss_inv C s"
  shows "length (new_views_at v s) = card {x. hm_get x (new_views_at v s) \<noteq> None}"
proof -
  have "hm_wf (new_views_at v s)"
    using assms views_wf_get [of "hs_new_view_set s" v]
    by (auto simp: hss_inv_def new_views_at_def split: option.split)
  moreover have "{x. hm_get x (new_views_at v s) \<noteq> None} = fst ` set (new_views_at v s)"
    by (auto simp: hm_get_eq_None)
  ultimately show ?thesis by (simp add: hm_length_card)
qed


text \<open>Handling a result only ever takes pending proposals out.\<close>

lemma check_pending_prop_pending:
  assumes "check_pending_prop E C S h pm = Return pm1"
  shows "mset (pm_pending_prop pm1) \<subseteq># mset (pm_pending_prop pm)"
proof (cases "heap_pop sw_key (pm_pending_prop pm)")
  case None
  with assms show ?thesis by (simp add: check_pending_prop_def)
next
  case (Some p)
  obtain sw rest where p: "p = (sw, rest)" by (cases p)
  have "mset (pm_pending_prop pm) = add_mset sw (mset rest)"
    using Some unfolding p by (rule heap_pop_mset)
  then show ?thesis
    using assms Some by (auto simp: check_pending_prop_def p heap_push_def emit_safety_event_eq
        exec_bind_eq_Return Let_def split: if_splits)
qed

lemma process_local_timeout_pending:
  assumes "process_local_timeout E C S L v pm = Return pm1"
  shows "mset (pm_pending_prop pm1) \<subseteq># mset (pm_pending_prop pm)"
  using assms
  by (auto simp: process_local_timeout_def exec_bind_eq_Return Let_def goto_new_view_frame
      dest!: check_pending_prop_pending split: if_splits)

lemma process_ready_event_pending:
  assumes "process_ready_event E C S L r pm = Return pm1"
  shows "mset (pm_pending_prop pm1) \<subseteq># mset (pm_pending_prop pm)"
  using assms
proof (cases r)
  case (Signature c p s)
  with assms show ?thesis
    by (auto simp: exec_bind_eq_Return Let_def dest!: process_local_timeout_pending
        split: DeliveryType.splits if_splits)
next
  case (BranchSyncDone leaf)
  with assms show ?thesis
    by (auto dest!: check_pending_prop_pending split: if_splits)
qed (auto dest: process_local_timeout_pending)


text \<open>A leader of the examples with new-view messages of three replicas, and with a result to handle.\<close>

definition toy_quorum :: "HotstuffStorage Pacemaker" where
  "toy_quorum = on_pm_storage (\<lambda>s. s\<lparr>hs_new_view_set :=
     [(0, [(''a'', INIT_QC toy), (''b'', INIT_QC toy), (''c'', INIT_QC toy)])]\<rparr>) toy_replica"

lemma toy_quorum_ok: "pm_ok (hss_safety_storage toy) (hss_inv toy) toy_quorum"
  using fresh_store_inv [of toy 4 "''a''" "[]" "toy_signaturer 0"]
  by (simp add: pm_ok_def machine_ok_def toy_quorum_def toy_replica_def voter_wf_new hss_inv_qc_def hss_inv_def
      hss_get_def hss_get_view_def views_wf_def bt_wf_def hm_wf_def)



end
