(* ===== verification/ReplicaRounds.thy ===== *)
theory ReplicaRounds
  imports PmProps HonestChain
begin

section \<open>A proposal through a whole replica\<close>

text \<open>
  What a proposal from the network does to a replica that is at rest: the pacemaker hands it to
  the machine, the machine votes, and the next tick sends the vote and moves to the next view.
  The chain state after both rounds is the one the paper's procedures give.
\<close>

text \<open>At rest: no work queued, no synchronisation under way, and a store without a database.\<close>

definition at_rest :: "HotstuffStorage Pacemaker \<Rightarrow> bool" where
  "at_rest pm \<longleftrightarrow> pm_ready_queue pm = [] \<and> pm_pending_prop pm = [] \<and> pm_sync_state pm = SYNC_IDLE
     \<and> round_mapper (pm_elector pm) \<noteq> [] \<and> hs_backend (pm_storage pm) = None"

text \<open>What a round keeps of a replica besides its chain state.\<close>

definition same_replica :: "'s Pacemaker \<Rightarrow> 's Pacemaker \<Rightarrow> bool" where
  "same_replica pm pm1 \<longleftrightarrow> pm_id pm1 = pm_id pm \<and> m_voter (pm_machine pm1) = m_voter (pm_machine pm)
     \<and> set (na_sent (pm_net_adaptor pm)) \<subseteq> set (na_sent (pm_net_adaptor pm1))"

lemma same_replica_trans: "same_replica pm pm1 \<Longrightarrow> same_replica pm1 pm2 \<Longrightarrow> same_replica pm pm2"
  by (auto simp: same_replica_def)

lemma sent_grows [simp]: "set (na_sent na) \<subseteq> set (na_sent (send_timeout E pe na))"
  by (auto simp: send_timeout_def)

lemma goto_new_view_rest:
  assumes "at_rest pm"
  shows "\<exists>pm1. goto_new_view E (hss_safety_storage C) (hss_liveness_storage C) v pm = Return pm1 \<and> at_rest pm1
    \<and> same_replica pm pm1 \<and> chain_of (pm_storage pm1) = chain_of (pm_storage pm)"
proof -
  obtain r where "get_leader E (max (pm_view pm) v) (pm_elector pm) = Return r"
    using assms get_leader_returns unfolding at_rest_def by blast
  then show ?thesis
    using assms by (auto simp: goto_new_view_def Let_def case_prod_unfold at_rest_def same_replica_def send_timeout_def)
qed

lemma local_timeout_rest:
  assumes "at_rest pm"
  shows "\<exists>pm1. process_local_timeout E C (hss_safety_storage C) (hss_liveness_storage C) v pm = Return pm1
    \<and> at_rest pm1 \<and> same_replica pm pm1 \<and> chain_of (pm_storage pm1) = chain_of (pm_storage pm)"
proof (cases "pm_view pm \<le> v")
  case True
  let ?pm2 = "emit_peer_event E (Timeout (Context_broadcast (pm_id pm) (pm_view pm))
      (sign_tc C (pm_view pm) (hss_get_qc_high (pm_storage pm)) pm))
      (on_pm_storage (\<lambda>s. fst (hss_append_tc C (sign_tc C (pm_view pm) (hss_get_qc_high (pm_storage pm)) pm) s)) pm)"
  have "at_rest ?pm2" "same_replica pm ?pm2" "chain_of (pm_storage ?pm2) = chain_of (pm_storage pm)"
    using assms by (simp_all add: at_rest_def same_replica_def)
  note rest2 = this
  obtain pm3 where pm3: "goto_new_view E (hss_safety_storage C) (hss_liveness_storage C) (v + 1) ?pm2 = Return pm3"
      "at_rest pm3" "same_replica ?pm2 pm3" "chain_of (pm_storage pm3) = chain_of (pm_storage ?pm2)"
    using goto_new_view_rest [OF rest2(1)] by blast
  have "process_local_timeout E C (hss_safety_storage C) (hss_liveness_storage C) v pm
      = Return (on_pm_storage (hss_increase_view (pm_view pm3)) pm3)"
    using True pm3(1,2) by (simp add: process_local_timeout_def Let_def at_rest_def SYNC_IDLE_def SYNC_SYNCHRONIZING_def)
  moreover have "at_rest (on_pm_storage (hss_increase_view (pm_view pm3)) pm3)"
    "chain_of (pm_storage (on_pm_storage (hss_increase_view (pm_view pm3)) pm3)) = chain_of (pm_storage pm)"
    using pm3(2,4) rest2(3) by (simp_all add: at_rest_def)
  moreover have "same_replica pm3 (on_pm_storage (hss_increase_view (pm_view pm3)) pm3)"
    by (simp add: same_replica_def)
  ultimately show ?thesis using same_replica_trans rest2(2) pm3(3) by blast
qed (use assms in \<open>simp add: process_local_timeout_def same_replica_def\<close>)

subsection \<open>The two rounds\<close>

lemma flush_rest: "at_rest pm \<or> hs_backend (pm_storage pm) = None
   \<Longrightarrow> flush_unwrap (hss_liveness_storage C) pm = Return pm"
  by (auto simp: at_rest_def flush_unwrap_def hss_ls_flush_def async_flush_def on_pm_storage_def on_storage_def)

text \<open>
  A proposal that meets the voting rule, with a certificate of view 0: the view of a certificate
  is neither signed nor checked, and one that is not above the leaf is handed on at once.
\<close>

lemma proposal_rounds:
  assumes rest: "at_rest pm" and ok: "pm_ok (hss_safety_storage C) (hss_inv C) pm"
    and E: "DUR_REPLICA_WAIT E \<noteq> None" "\<And>k. accepts E k"
    and view: "qc_view (justify p) = 0" and other: "ctx_from ctx \<noteq> pm_id pm"
    and just: "justified C (hss_safety_storage C) p q (pm_machine pm)"
    and conf: "hss_is_conflicting C p (hss_get_locked_node (pm_storage pm)) (pm_storage pm) = Return cf"
    and rule: "hss_get_vheight (pm_storage pm) < height p" "\<not> cf \<or> height (hss_get_locked_node (pm_storage pm)) < height q"
  shows "\<exists>pm1 pm2 c. run_select E C (hss_safety_storage C) (hss_liveness_storage C) (NetRecv (PeNewProposal ctx p)) pm
        = Return (pm1, True)
    \<and> run_select E C (hss_safety_storage C) (hss_liveness_storage C) Tick pm1 = Return (pm2, True)
    \<and> at_rest pm2 \<and> same_replica pm pm2
    \<and> AcceptProposal c p (Some (voter_sign C (m_voter (pm_machine pm)) p)) \<in> set (na_sent (pm_net_adaptor pm2))
    \<and> chain_of (pm_storage pm2) = spec_update C p (spec_accept C p (chain_of (pm_storage pm)))"
proof -
  let ?S = "hss_safety_storage C" and ?L = "hss_liveness_storage C" and ?m = "pm_machine pm"
  let ?sig = "voter_sign C (m_voter ?m) p"
  have "machine_ok (hss_inv C) ?m" using ok by (simp add: pm_ok_def)
  then obtain m1 c where m1: "process_safety_event C ?S (RecvProposal ctx p) ?m = Return (m1, Inr (Signature c p ?sig))"
      and c: "ctx_to c = Single (ctx_from ctx)" and v: "m_voter m1 = m_voter ?m"
      and be: "hs_backend (m_storage m1) = hs_backend (m_storage ?m)"
      and ch: "chain_of (m_storage m1) = spec_update C p (spec_accept C p (chain_of (m_storage ?m)))"
    using recv_step [OF _ just conf rule] by blast
  let ?pm1 = "pm\<lparr>pm_machine := m1, pm_ready_queue := [Signature c p ?sig]\<rparr>"
  have r1: "run_select E C ?S ?L (NetRecv (PeNewProposal ctx p)) pm = Return (?pm1, True)"
    using rest m1 by (simp add: at_rest_def heap_push_def check_pending_prop_def SafetyEventWrapper_from_def view
        emit_safety_event_eq del: process_safety_event.simps)
  let ?pm1' = "emit_peer_event E (AcceptProposal c p (Some ?sig)) (?pm1\<lparr>pm_ready_queue := []\<rparr>)"
  have "at_rest ?pm1'" using rest be by (simp add: at_rest_def)
  moreover have "same_replica pm ?pm1'" using v by (simp add: same_replica_def)
  moreover have sent: "AcceptProposal c p (Some ?sig) \<in> set (na_sent (pm_net_adaptor ?pm1'))"
    using E(2) by (simp add: send_timeout_def)
  ultimately obtain pm2 where pm2: "process_local_timeout E C ?S ?L (height p) ?pm1' = Return pm2" "at_rest pm2"
      "same_replica pm pm2" "same_replica ?pm1' pm2" "chain_of (pm_storage pm2) = chain_of (m_storage m1)"
    using local_timeout_rest [of ?pm1' E C "height p"] same_replica_trans [of pm ?pm1'] by force
  have "process_ready_event E C ?S ?L (Signature c p ?sig) (?pm1\<lparr>pm_ready_queue := []\<rparr>) = Return pm2"
    using pm2(1) other c E(1) by auto
  then have "drain_ready E C ?S ?L ?pm1 = Return pm2"
    using pm2(2) by (simp add: drain_ready.simps [of E C ?S ?L ?pm1] drain_ready.simps [of E C ?S ?L pm2] at_rest_def
        del: process_ready_event.simps)
  moreover have "flush_unwrap ?L ?pm1 = Return ?pm1" using rest be by (intro flush_rest) (simp add: at_rest_def)
  ultimately have "run_select E C ?S ?L Tick ?pm1 = Return (pm2, True)" by simp
  moreover have "AcceptProposal c p (Some ?sig) \<in> set (na_sent (pm_net_adaptor pm2))"
    using sent pm2(4) unfolding same_replica_def by blast
  moreover have "chain_of (pm_storage pm2) = spec_update C p (spec_accept C p (chain_of (pm_storage pm)))"
    using pm2(5) ch by simp
  ultimately show ?thesis using r1 pm2(2,3) by (intro exI conjI) assumption+
qed

end
