(* ===== verification/Agreement.thy ===== *)
theory Agreement
  imports ReplicaRounds
begin

section \<open>Agreement between replicas\<close>

text \<open>
  A cluster of four replicas, three of them running the code and the fourth, which proposes,
  faulty. Its certificates are real ones: each combines votes that the three sent for the block
  it names. The theory shows what the reset of the voting height by \<open>update_leaf\<close> costs: the
  three vote for both arms of a fork, height by height, and two of them execute different blocks
  of the same height.
\<close>

subsection \<open>The cluster\<close>

type_synonym cluster = "HotstuffStorage Pacemaker list"

text \<open>The votes for a block that replicas have sent, and the certificates they allow.\<close>

definition voted :: "cluster \<Rightarrow> TreeNode \<Rightarrow> SignKit \<Rightarrow> bool" where
  "voted cl p kit \<longleftrightarrow> (\<exists>pm \<in> set cl. \<exists>c. AcceptProposal c p (Some kit) \<in> set (na_sent (pm_net_adaptor pm)))"

definition backed :: "crypto \<Rightarrow> SecretKeySet \<Rightarrow> cluster \<Rightarrow> GenericQC \<Rightarrow> bool" where
  "backed C s cl qc \<longleftrightarrow> qc = INIT_QC C \<or>
     (\<exists>p kits. qc_node qc = TreeNode_hash C p \<and> (\<forall>kit \<in> set kits. voted cl p kit)
        \<and> combine_signatures C (public_keys C s) (map (\<lambda>kit. (sk_sign_id kit, sk_sign_of kit)) kits)
            = Some (qc_combined_sign qc))"

text \<open>
  A step of the cluster: a replica takes a proposal of the faulty one whose certificate is backed,
  or a message that another replica sent, or runs a round of its own, or one of its timers fires.
\<close>

inductive cluster_step :: "env \<Rightarrow> crypto \<Rightarrow> SecretKeySet \<Rightarrow> ReplicaID \<Rightarrow> cluster \<Rightarrow> cluster \<Rightarrow> bool"
  for E C s faulty where
  proposed: "i < length cl \<Longrightarrow> backed C s cl (justify p)
    \<Longrightarrow> run_select E C (hss_safety_storage C) (hss_liveness_storage C)
          (NetRecv (PeNewProposal (Context_broadcast faulty v) p)) (cl ! i) = Return (pm, go_on)
    \<Longrightarrow> cluster_step E C s faulty cl (cl[i := pm])"
| relayed: "i < length cl \<Longrightarrow> j < length cl \<Longrightarrow> pe \<in> set (na_sent (pm_net_adaptor (cl ! j)))
    \<Longrightarrow> run_select E C (hss_safety_storage C) (hss_liveness_storage C) (NetRecv pe) (cl ! i) = Return (pm, go_on)
    \<Longrightarrow> cluster_step E C s faulty cl (cl[i := pm])"
| own: "i < length cl \<Longrightarrow> arm = Tick \<or> arm = TimeoutRecv \<Longrightarrow> arm_enabled arm (cl ! i)
    \<Longrightarrow> run_select E C (hss_safety_storage C) (hss_liveness_storage C) arm (cl ! i) = Return (pm, go_on)
    \<Longrightarrow> cluster_step E C s faulty cl (cl[i := pm])"
| timer: "i < length cl \<Longrightarrow> k < length (tm_live (pm_timer (cl ! i)))
    \<Longrightarrow> cluster_step E C s faulty cl (cl[i := timer_fires_pm k (cl ! i)])"

definition cluster_started ::
    "env \<Rightarrow> crypto \<Rightarrow> SecretKeySet \<Rightarrow> ReplicaID list \<Rightarrow> ReplicaID \<Rightarrow> NetworkAdaptor \<Rightarrow> cluster \<Rightarrow> bool" where
  "cluster_started E C s honest faulty na cl \<longleftrightarrow> length cl = length honest \<and>
     (\<forall>i < length honest. run_start E (hss_safety_storage C) (hss_liveness_storage C)
        (fresh_pacemaker C (Suc (length honest)) (honest ! i) (honest @ [faulty]) (key_of C s i) na) = Return (cl ! i))"

definition cluster_reaches ::
    "env \<Rightarrow> crypto \<Rightarrow> SecretKeySet \<Rightarrow> ReplicaID list \<Rightarrow> ReplicaID \<Rightarrow> NetworkAdaptor \<Rightarrow> cluster \<Rightarrow> bool" where
  "cluster_reaches E C s honest faulty na cl \<longleftrightarrow>
     (\<exists>cl0. cluster_started E C s honest faulty na cl0 \<and> (cluster_step E C s faulty)\<^sup>*\<^sup>* cl0 cl)"

subsection \<open>The fork\<close>

text \<open>The certificate that the votes of the first three keys give, with view 0.\<close>

definition shares_for :: "crypto \<Rightarrow> SecretKeySet \<Rightarrow> TreeNode \<Rightarrow> SignKit list" where
  "shares_for C s p = map (\<lambda>i. signaturer_sign C (key_of C s i) p) [0..<3]"

definition quorum_cert :: "crypto \<Rightarrow> SecretKeySet \<Rightarrow> TreeNode \<Rightarrow> GenericQC" where
  "quorum_cert C s p = GenericQC_new 0 (TreeNode_hash C p)
     (case combine_signatures C (public_keys C s) (map (\<lambda>kit. (sk_sign_id kit, sk_sign_of kit)) (shares_for C s p)) of
        Some sg \<Rightarrow> sg | None \<Rightarrow> zeroed_sign C)"

definition child :: "crypto \<Rightarrow> SecretKeySet \<Rightarrow> Txn \<Rightarrow> TreeNode \<Rightarrow> TreeNode" where
  "child C s tx p = TreeNode_new [tx] (height p + 1) (TreeNode_hash C p) (quorum_cert C s p)"

definition fork_root :: "crypto \<Rightarrow> Txn \<Rightarrow> TreeNode" where
  "fork_root C tx = TreeNode_new [tx] 1 (TreeNode_hash C (INIT_NODE C)) (INIT_QC C)"

text \<open>Block \<open>k\<close> of an arm whose blocks above the root carry the transaction \<open>tx\<close>.\<close>

fun lane :: "crypto \<Rightarrow> SecretKeySet \<Rightarrow> Txn \<Rightarrow> Txn \<Rightarrow> nat \<Rightarrow> TreeNode" where
  "lane C s ta tx 0 = INIT_NODE C"
| "lane C s ta tx (Suc 0) = fork_root C ta"
| "lane C s ta tx (Suc (Suc k)) = child C s tx (lane C s ta tx (Suc k))"

text \<open>Both arms up to height \<open>k\<close>, the last block first.\<close>

fun fork_blocks :: "crypto \<Rightarrow> SecretKeySet \<Rightarrow> Txn \<Rightarrow> Txn \<Rightarrow> nat \<Rightarrow> TreeNode list" where
  "fork_blocks C s ta tb 0 = [INIT_NODE C]"
| "fork_blocks C s ta tb (Suc 0) = [fork_root C ta, INIT_NODE C]"
| "fork_blocks C s ta tb (Suc (Suc k)) = lane C s ta tb (Suc (Suc k)) # lane C s ta ta (Suc (Suc k)) # fork_blocks C s ta tb (Suc k)"

definition collision_free :: "crypto \<Rightarrow> TreeNode list \<Rightarrow> bool" where
  "collision_free C bs \<longleftrightarrow> distinct (map (TreeNode_hash C) bs) \<and> zeroed_node_hash \<notin> set (map (TreeNode_hash C) bs)"

subsection \<open>Chain states of the fork\<close>

definition tree :: "crypto \<Rightarrow> TreeNode list \<Rightarrow> NodeHash \<Rightarrow> TreeNode option" where
  "tree C K = map_of (map (\<lambda>b. (TreeNode_hash C b, b)) K)"

definition snap :: "crypto \<Rightarrow> TreeNode list \<Rightarrow> GenericQC \<Rightarrow> TreeNode \<Rightarrow> ViewNumber \<Rightarrow> TreeNode \<Rightarrow> TreeNode \<Rightarrow> chain_state" where
  "snap C K qc lf vh lk ex = \<lparr>cs_node = tree C K, cs_qc_high = qc, cs_leaf = lf, cs_vheight = vh,
     cs_locked = lk, cs_exec = ex\<rparr>"

lemma tree_get: "collision_free C K \<Longrightarrow> b \<in> set K \<Longrightarrow> tree C K (TreeNode_hash C b) = Some b"
  by (simp add: collision_free_def tree_def map_of_eq_Some_iff comp_def image_iff)

lemma tree_zeroed: "collision_free C K \<Longrightarrow> tree C K zeroed_node_hash = None"
  by (simp add: collision_free_def tree_def map_of_eq_None_iff image_image)

lemma spec_accept_snap:
  "spec_accept C p (snap C K qc lf vh lk ex) = snap C (p # K) qc lf (max vh (height p)) lk ex"
  by (simp add: spec_accept_def snap_def tree_def)

text \<open>
  The update of a snapshot whose certificates name blocks of the snapshot: \<open>q\<close> is named by the
  proposal, \<open>q1\<close> and \<open>q2\<close> by its ancestors, \<open>q0\<close> by the best certificate.
\<close>

lemma spec_update_snap:
  assumes K: "collision_free C K" and q: "q \<in> set K" "qc_node (justify p) = TreeNode_hash C q"
    and q0: "q0 \<in> set K" "qc_node qc = TreeNode_hash C q0"
    and q1: "case m1 of None \<Rightarrow> qc_node (justify q) = zeroed_node_hash
      | Some q1 \<Rightarrow> q1 \<in> set K \<and> qc_node (justify q) = TreeNode_hash C q1 \<and> parent q = TreeNode_hash C q1"
    and q2: "case m1 of None \<Rightarrow> True | Some q1 \<Rightarrow> (case m2 of None \<Rightarrow> qc_node (justify q1) = zeroed_node_hash
      | Some q2 \<Rightarrow> q2 \<in> set K \<and> qc_node (justify q1) = TreeNode_hash C q2 \<and> parent q1 = TreeNode_hash C q2)"
  shows "spec_update C p (snap C K qc lf vh lk ex) =
    (let up = height q0 < height q in
     snap C K (if up then justify p else qc) (if up then q else lf) (if up then height q else vh)
       (case m1 of Some q1 \<Rightarrow> if height lk < height q1 then q1 else lk | None \<Rightarrow> lk)
       (case m1 of Some q1 \<Rightarrow> (case m2 of Some q2 \<Rightarrow> if height ex < height q2 then q2 else ex | None \<Rightarrow> ex) | None \<Rightarrow> ex))"
proof -
  let ?cs = "snap C K qc lf vh lk ex"
  note get = tree_get [OF K] tree_zeroed [OF K]
  have "(tree C K)(TreeNode_hash C q \<mapsto> q) = tree C K"
    using get(1) [OF q(1)] by (intro ext) auto
  then have up: "spec_update_qc_high C q (justify p) ?cs = (if height q0 < height q
      then snap C K (justify p) q (height q) lk ex else ?cs)"
    using q0 get(1) [OF q0(1)] by (simp add: spec_update_qc_high_def snap_def)
  have jp: "justify_node ?cs p = Some q" using q get(1) by (simp add: justify_node_def snap_def)
  have jq: "justify_node ?cs q = m1"
    using q1 get by (simp add: justify_node_def snap_def split: option.splits)
  show ?thesis
  proof (cases m1)
    case None
    then show ?thesis by (simp add: spec_update_def jp jq up Let_def)
  next
    case m1: (Some q1)
    have jq1: "justify_node ?cs q1 = m2"
      using q2 get by (simp add: justify_node_def snap_def m1 split: option.splits)
    have par: "parent q = TreeNode_hash C q1" using q1 by (simp add: m1)
    show ?thesis
    proof (cases m2)
      case None
      then show ?thesis by (simp add: spec_update_def jp jq m1 jq1 up Let_def spec_lock_def) (simp add: snap_def)
    next
      case m2: (Some q2)
      have "parent q1 = TreeNode_hash C q2" using q2 by (simp add: m1 m2)
      with par show ?thesis
        by (simp add: spec_update_def jp jq m1 jq1 m2 up Let_def spec_lock_def spec_exec_def) (simp add: snap_def)
    qed
  qed
qed

text \<open>Every block of the list stands on another one of the list, down to height 0.\<close>

definition rooted :: "crypto \<Rightarrow> TreeNode list \<Rightarrow> bool" where
  "rooted C K \<longleftrightarrow> (\<forall>b \<in> set K. height b = 0 \<or> (\<exists>a \<in> set K. parent b = TreeNode_hash C a \<and> height a < height b))"

lemma tree_parent:
  assumes "cs_node (chain_of s) = tree C K" and "collision_free C K" and "a \<in> set K" and "parent n = TreeNode_hash C a"
  shows "parent_of (hs_in_mem_queue s) n = Some a"
  using assms tree_get [OF assms(2,3)] by (simp add: parent_of_def hss_get_def fun_eq_iff)

lemma rooted_walk:
  assumes s: "cs_node (chain_of s) = tree C K" and K: "collision_free C K" "rooted C K" and n: "n \<in> set K"
  shows "\<exists>r. conflict_walk (hs_in_mem_queue s) h n = Some r"
  using n
proof (induction "unat (height n)" arbitrary: n rule: less_induct)
  case less
  show ?case
  proof (cases "h < height n")
    case True
    then have "height n \<noteq> 0" by auto
    then obtain a where a: "a \<in> set K" "parent n = TreeNode_hash C a" "height a < height n"
      using K(2) less.prems unfolding rooted_def by blast
    with less.hyps [of a] tree_parent [OF s K(1) a(1,2)] True show ?thesis
      by (simp add: conflict_walk_step word_less_nat_alt)
  qed (simp add: not_less)
qed

text \<open>A block on a known lower one has an answer to the test for conflicts, and none with its parent.\<close>

lemma rooted_conflict:
  assumes s: "cs_node (chain_of s) = tree C K" and K: "collision_free C K" "rooted C K" and lk: "lk \<in> set K"
    and a: "a \<in> set K" "parent p = TreeNode_hash C a" "height a < height p"
  shows "\<exists>cf. hss_is_conflicting C p lk s = Return cf \<and> (lk = a \<longrightarrow> \<not> cf)"
proof -
  have par: "parent_of (hs_in_mem_queue s) p = Some a" using tree_parent [OF s K(1) a(1,2)] .
  obtain r where r: "conflict_walk (hs_in_mem_queue s) (height lk) a = Some r"
    using rooted_walk [OF s K a(1)] by blast
  obtain r' where r': "conflict_walk (hs_in_mem_queue s) (height p) lk = Some r'"
    using rooted_walk [OF s K lk] by blast
  have "\<exists>r. conflict_walk (hs_in_mem_queue s) (height lk) p = Some r"
    using r par by (cases "height lk < height p") (simp_all add: conflict_walk_step not_less)
  moreover have "conflict_walk (hs_in_mem_queue s) (height lk) p = Some lk" if "lk = a"
    using that par a(3) by (simp add: conflict_walk_step)
  ultimately show ?thesis
    using r' a(3) by (auto simp: hss_is_conflicting_def)
qed

subsection \<open>A proposal at one replica\<close>

definition replica_at :: "crypto \<Rightarrow> SecretKeySet \<Rightarrow> ReplicaID \<Rightarrow> usize \<Rightarrow> chain_state \<Rightarrow> HotstuffStorage Pacemaker \<Rightarrow> bool" where
  "replica_at C s faulty i cs pm \<longleftrightarrow> at_rest pm \<and> pm_ok (hss_safety_storage C) (hss_inv C) pm \<and> pm_id pm \<noteq> faulty
     \<and> vt_signature (m_voter (pm_machine pm)) = key_of C s i \<and> chain_of (pm_storage pm) = cs"

text \<open>What makes a replica with such a snapshot vote for \<open>p\<close>.\<close>

definition votable :: "crypto \<Rightarrow> SecretKeySet \<Rightarrow> TreeNode list \<Rightarrow> ViewNumber \<Rightarrow> TreeNode \<Rightarrow> TreeNode \<Rightarrow> TreeNode \<Rightarrow> bool" where
  "votable C s K vh lk q p \<longleftrightarrow> collision_free C K \<and> rooted C K \<and> q \<in> set K \<and> lk \<in> set K
     \<and> qc_view (justify p) = 0 \<and> qc_node (justify p) = TreeNode_hash C q \<and> parent p = TreeNode_hash C q
     \<and> (is_init_qc C (justify p) \<or> combined_verify C (public_keys C s) (qc_combined_sign (justify p)) (TreeNode_to_be_bytes q))
     \<and> vh < height p \<and> height q < height p \<and> (lk = q \<or> height lk < height q)"

lemma replica_round:
  assumes at: "replica_at C s faulty i (snap C K qc lf vh lk ex) pm" and vt: "votable C s K vh lk q p"
    and E: "DUR_REPLICA_WAIT E \<noteq> None" "\<And>k. accepts E k"
  shows "\<exists>pm1 pm2 c. run_select E C (hss_safety_storage C) (hss_liveness_storage C)
        (NetRecv (PeNewProposal (Context_broadcast faulty v) p)) pm = Return (pm1, True)
    \<and> run_select E C (hss_safety_storage C) (hss_liveness_storage C) Tick pm1 = Return (pm2, True)
    \<and> replica_at C s faulty i (spec_update C p (snap C (p # K) qc lf (max vh (height p)) lk ex)) pm2
    \<and> same_replica pm pm2
    \<and> AcceptProposal c p (Some (signaturer_sign C (key_of C s i) p)) \<in> set (na_sent (pm_net_adaptor pm2))"
proof -
  let ?S = "hss_safety_storage C" and ?L = "hss_liveness_storage C"
  have rest: "at_rest pm" and ok: "pm_ok ?S (hss_inv C) pm" and id: "pm_id pm \<noteq> faulty"
    and key: "vt_signature (m_voter (pm_machine pm)) = key_of C s i"
    and ch: "chain_of (pm_storage pm) = snap C K qc lf vh lk ex"
    using at by (simp_all add: replica_at_def)
  have vts: "collision_free C K" "rooted C K" "q \<in> set K" "lk \<in> set K" "qc_view (justify p) = 0"
      "qc_node (justify p) = TreeNode_hash C q" "parent p = TreeNode_hash C q" "vh < height p" "height q < height p"
      "lk = q \<or> height lk < height q"
    and ver: "is_init_qc C (justify p) \<or> combined_verify C (public_keys C s) (qc_combined_sign (justify p)) (TreeNode_to_be_bytes q)"
    using vt by (simp_all add: votable_def)
  have nodes: "cs_node (chain_of (pm_storage pm)) = tree C K" and vh: "hss_get_vheight (pm_storage pm) = vh"
    and lk: "hss_get_locked_node (pm_storage pm) = lk"
    using arg_cong [OF ch, of cs_node] arg_cong [OF ch, of cs_vheight] arg_cong [OF ch, of cs_locked]
    by (simp_all add: snap_def hss_get_vheight_def hss_get_locked_node_def del: chain_of_simps(1))
  have just: "justified C ?S p q (pm_machine pm)"
    using ver tree_get [OF vts(1,3)] fun_cong [OF nodes, of "TreeNode_hash C q"]
    by (simp add: justified_def vts(6) key key_of_def DefaultSignaturer_new_def)
  obtain cf where cf: "hss_is_conflicting C p lk (pm_storage pm) = Return cf" "lk = q \<longrightarrow> \<not> cf"
    using rooted_conflict [OF nodes vts(1,2,4,3,7,9)] by blast
  obtain pm1 pm2 c where r: "run_select E C ?S ?L (NetRecv (PeNewProposal (Context_broadcast faulty v) p)) pm = Return (pm1, True)"
      "run_select E C ?S ?L Tick pm1 = Return (pm2, True)" "at_rest pm2" "same_replica pm pm2"
      "AcceptProposal c p (Some (voter_sign C (m_voter (pm_machine pm)) p)) \<in> set (na_sent (pm_net_adaptor pm2))"
      "chain_of (pm_storage pm2) = spec_update C p (spec_accept C p (chain_of (pm_storage pm)))"
    using proposal_rounds [OF rest ok E vts(5) _ just, of "Context_broadcast faulty v" cf] cf vts(8,10) id
    unfolding lk vh by auto
  have "pm_ok ?S (hss_inv C) pm2"
    using hssl.run_select_advanced [OF _ r(2)] hssl.run_select_advanced [OF ok r(1)] pm_advanced_ok by blast
  then have "replica_at C s faulty i (spec_update C p (snap C (p # K) qc lf (max vh (height p)) lk ex)) pm2"
    using r(3,4,6) id key by (simp add: replica_at_def same_replica_def ch spec_accept_snap)
  then show ?thesis using r(1,2,4,5) by (auto simp: voter_sign_def key simp del: run_select.simps)
qed

subsection \<open>A proposal at every replica\<close>

definition sent_within :: "cluster \<Rightarrow> cluster \<Rightarrow> bool" where
  "sent_within cl cl1 \<longleftrightarrow> length cl1 = length cl \<and>
     (\<forall>i < length cl. set (na_sent (pm_net_adaptor (cl ! i))) \<subseteq> set (na_sent (pm_net_adaptor (cl1 ! i))))"

lemma sent_within_trans: "sent_within cl cl1 \<Longrightarrow> sent_within cl1 cl2 \<Longrightarrow> sent_within cl cl2"
  unfolding sent_within_def by (metis subset_trans)

lemma voted_mono: "sent_within cl cl1 \<Longrightarrow> voted cl p kit \<Longrightarrow> voted cl1 p kit"
  unfolding sent_within_def voted_def set_conv_nth [of cl] set_conv_nth [of cl1] by fastforce

lemma backed_mono: "sent_within cl cl1 \<Longrightarrow> backed C s cl qc \<Longrightarrow> backed C s cl1 qc"
  unfolding backed_def by (meson voted_mono)

lemma cluster_member_round:
  assumes i: "i < length cl" and at: "replica_at C s faulty i (snap C K qc lf vh lk ex) (cl ! i)"
    and vt: "votable C s K vh lk q p" and bk: "backed C s cl (justify p)"
    and E: "DUR_REPLICA_WAIT E \<noteq> None" "\<And>k. accepts E k"
  shows "\<exists>pm. (cluster_step E C s faulty)\<^sup>*\<^sup>* cl (cl[i := pm]) \<and> sent_within cl (cl[i := pm])
    \<and> replica_at C s faulty i (spec_update C p (snap C (p # K) qc lf (max vh (height p)) lk ex)) pm
    \<and> voted (cl[i := pm]) p (signaturer_sign C (key_of C s i) p)"
proof -
  obtain pm1 pm2 c where r: "run_select E C (hss_safety_storage C) (hss_liveness_storage C)
        (NetRecv (PeNewProposal (Context_broadcast faulty 0) p)) (cl ! i) = Return (pm1, True)"
      "run_select E C (hss_safety_storage C) (hss_liveness_storage C) Tick pm1 = Return (pm2, True)"
      and at2: "replica_at C s faulty i (spec_update C p (snap C (p # K) qc lf (max vh (height p)) lk ex)) pm2"
      and same: "same_replica (cl ! i) pm2"
      and sent: "AcceptProposal c p (Some (signaturer_sign C (key_of C s i) p)) \<in> set (na_sent (pm_net_adaptor pm2))"
    using replica_round [OF at vt E] by blast
  have "cluster_step E C s faulty cl (cl[i := pm1])" using i bk r(1) by (rule cluster_step.proposed)
  moreover have "cluster_step E C s faulty (cl[i := pm1]) (cl[i := pm1, i := pm2])"
    using i r(2) by (intro cluster_step.own [where arm = Tick]) (simp_all add: arm_enabled_def del: run_select.simps)
  ultimately have "(cluster_step E C s faulty)\<^sup>*\<^sup>* cl (cl[i := pm2])" by simp
  moreover have "sent_within cl (cl[i := pm2])"
    using same i by (simp add: sent_within_def same_replica_def nth_list_update)
  moreover have "voted (cl[i := pm2]) p (signaturer_sign C (key_of C s i) p)"
    using sent i unfolding voted_def by (meson set_update_memI)
  ultimately show ?thesis using at2 by blast
qed

lemma cluster_round:
  assumes at: "\<forall>i < length cl. replica_at C s faulty i (snap C K qc lf vh lk ex) (cl ! i)"
    and vt: "votable C s K vh lk q p" and bk: "backed C s cl (justify p)"
    and E: "DUR_REPLICA_WAIT E \<noteq> None" "\<And>k. accepts E k"
    and new: "spec_update C p (snap C (p # K) qc lf (max vh (height p)) lk ex) = cs"
  shows "\<exists>cl1. (cluster_step E C s faulty)\<^sup>*\<^sup>* cl cl1 \<and> sent_within cl cl1
    \<and> (\<forall>i < length cl. replica_at C s faulty i cs (cl1 ! i) \<and> voted cl1 p (signaturer_sign C (key_of C s i) p))"
proof -
  have "\<exists>cl1. (cluster_step E C s faulty)\<^sup>*\<^sup>* cl cl1 \<and> sent_within cl cl1
      \<and> (\<forall>i < n. replica_at C s faulty i cs (cl1 ! i) \<and> voted cl1 p (signaturer_sign C (key_of C s i) p))
      \<and> (\<forall>i < length cl. n \<le> i \<longrightarrow> cl1 ! i = cl ! i)" if "n \<le> length cl" for n
    using that
  proof (induction n)
    case 0
    have "sent_within cl cl" by (simp add: sent_within_def)
    then show ?case by auto
  next
    case (Suc n)
    then obtain cl1 where c1: "(cluster_step E C s faulty)\<^sup>*\<^sup>* cl cl1" and w1: "sent_within cl cl1"
      and d1: "\<forall>i < n. replica_at C s faulty i cs (cl1 ! i) \<and> voted cl1 p (signaturer_sign C (key_of C s i) p)"
      and k1: "\<forall>i < length cl. n \<le> i \<longrightarrow> cl1 ! i = cl ! i" by auto
    have n: "n < length cl1" using w1 Suc.prems by (simp add: sent_within_def)
    have atn: "replica_at C s faulty n (snap C K qc lf vh lk ex) (cl1 ! n)"
      using at k1 Suc.prems by simp
    obtain pm where pm: "(cluster_step E C s faulty)\<^sup>*\<^sup>* cl1 (cl1[n := pm])" "sent_within cl1 (cl1[n := pm])"
        "replica_at C s faulty n cs pm" "voted (cl1[n := pm]) p (signaturer_sign C (key_of C s n) p)"
      using cluster_member_round [OF n atn vt backed_mono [OF w1 bk] E] new by blast
    have "replica_at C s faulty i cs (cl1[n := pm] ! i) \<and> voted (cl1[n := pm]) p (signaturer_sign C (key_of C s i) p)"
      if "i < Suc n" for i
      using that d1 pm(3,4) n voted_mono [OF pm(2)] by (cases "i = n") simp_all
    moreover have "\<forall>i < length cl. Suc n \<le> i \<longrightarrow> cl1[n := pm] ! i = cl ! i" using k1 by simp
    ultimately show ?case
      using rtranclp_trans [OF c1 pm(1)] sent_within_trans [OF w1 pm(2)] by blast
  qed
  from this [of "length cl"] show ?thesis by auto
qed

subsection \<open>The run\<close>

definition quorum_scheme :: "crypto \<Rightarrow> SecretKeySet \<Rightarrow> bool" where
  "quorum_scheme C s \<longleftrightarrow> share_sound C s \<and> combine_sound C (public_keys C s) \<and> pks_threshold C (public_keys C s) < 3"

definition certifiable :: "crypto \<Rightarrow> SecretKeySet \<Rightarrow> cluster \<Rightarrow> TreeNode \<Rightarrow> bool" where
  "certifiable C s cl p \<longleftrightarrow> (\<forall>i < 3. voted cl p (signaturer_sign C (key_of C s i) p))"

lemma quorum_cert_combines:
  assumes "quorum_scheme C s"
  shows "combine_signatures C (public_keys C s) (map (\<lambda>kit. (sk_sign_id kit, sk_sign_of kit)) (shares_for C s p))
      = Some (qc_combined_sign (quorum_cert C s p))"
    and "combined_verify C (public_keys C s) (qc_combined_sign (quorum_cert C s p)) (TreeNode_to_be_bytes p)"
proof -
  let ?shares = "map (\<lambda>kit. (sk_sign_id kit, sk_sign_of kit)) (shares_for C s p)"
  have "distinct (map fst ?shares)" "pks_threshold C (public_keys C s) < length ?shares"
      "\<forall>(i, sh) \<in> set ?shares. share_verify C (public_keys C s) i sh (TreeNode_to_be_bytes p)"
    using assms by (auto simp: quorum_scheme_def share_sound_def shares_for_def signaturer_sign_def key_of_def
        DefaultSignaturer_new_def SignKit_new_def comp_def)
  then obtain sg where "combine_signatures C (public_keys C s) ?shares = Some sg"
      "combined_verify C (public_keys C s) sg (TreeNode_to_be_bytes p)"
    using assms unfolding quorum_scheme_def combine_sound_def by blast
  then show "combine_signatures C (public_keys C s) ?shares = Some (qc_combined_sign (quorum_cert C s p))"
    "combined_verify C (public_keys C s) (qc_combined_sign (quorum_cert C s p)) (TreeNode_to_be_bytes p)"
    by (simp_all add: quorum_cert_def)
qed

lemma certifiable_backed:
  assumes "quorum_scheme C s" and "certifiable C s cl p"
  shows "backed C s cl (quorum_cert C s p)"
proof -
  have "\<forall>kit \<in> set (shares_for C s p). voted cl p kit" using assms(2) by (auto simp: certifiable_def shares_for_def)
  then show ?thesis
    unfolding backed_def using quorum_cert_combines(1) [OF assms(1)]
    by (intro disjI2 exI [of _ p] exI [of _ "shares_for C s p"]) (simp add: quorum_cert_def)
qed

lemma certifiable_mono: "sent_within cl cl1 \<Longrightarrow> certifiable C s cl p \<Longrightarrow> certifiable C s cl1 p"
  unfolding certifiable_def by (blast intro: voted_mono)

lemma lane_Suc:
  "height (lane C s ta tx (Suc k)) = height (lane C s ta tx k) + 1"
  "parent (lane C s ta tx (Suc k)) = TreeNode_hash C (lane C s ta tx k)"
  "qc_node (justify (lane C s ta tx (Suc k))) = TreeNode_hash C (lane C s ta tx k)"
  "qc_view (justify (lane C s ta tx (Suc k))) = 0"
  by (cases k; simp add: child_def fork_root_def TreeNode_new_def quorum_cert_def)+

lemma lane_height: "height (lane C s ta tx k) = of_nat k"
  by (induction k) (simp_all add: lane_Suc)

lemma lane_justify: "0 < k \<Longrightarrow> justify (lane C s ta tx (Suc k)) = quorum_cert C s (lane C s ta tx k)"
  by (cases k) (simp_all add: child_def TreeNode_new_def)

lemma lane_less: "i < 2 ^ 64 \<Longrightarrow> j < 2 ^ 64 \<Longrightarrow> height (lane C s ta tx i) < height (lane C s ta ty j) \<longleftrightarrow> i < j"
  by (simp add: lane_height word_less_nat_alt unat_of_nat)

lemma lane_mem: "i \<le> k \<Longrightarrow> lane C s ta ta i \<in> set (fork_blocks C s ta tb k) \<and> lane C s ta tb i \<in> set (fork_blocks C s ta tb k)"
  by (induction C s ta tb k rule: fork_blocks.induct) (auto simp: le_Suc_eq)

lemma fork_blocks_lane: "b \<in> set (fork_blocks C s ta tb k) \<Longrightarrow> \<exists>i \<le> k. b = lane C s ta ta i \<or> b = lane C s ta tb i"
proof (induction C s ta tb k rule: fork_blocks.induct)
  case (2 C s ta tb)
  then show ?case by (auto intro: exI [of _ 0] exI [of _ "Suc 0"])
next
  case (3 C s ta tb k)
  from 3(2) consider "b = lane C s ta tb (Suc (Suc k)) \<or> b = lane C s ta ta (Suc (Suc k))"
    | "b \<in> set (fork_blocks C s ta tb (Suc k))" by (auto simp del: lane.simps)
  then show ?case
  proof cases
    case 2
    with 3(1) show ?thesis by (meson le_SucI)
  qed blast
qed simp

lemma lanes_rooted:
  assumes K: "\<forall>b \<in> set K. \<exists>tx i. b = lane C s ta tx i \<and> i < 2 ^ 64 \<and> (0 < i \<longrightarrow> lane C s ta tx (i - 1) \<in> set K)"
  shows "rooted C K"
  unfolding rooted_def
proof
  fix b
  assume "b \<in> set K"
  with K obtain tx i where b: "b = lane C s ta tx i" "i < 2 ^ 64" "0 < i \<longrightarrow> lane C s ta tx (i - 1) \<in> set K" by blast
  show "height b = 0 \<or> (\<exists>a \<in> set K. parent b = TreeNode_hash C a \<and> height a < height b)"
  proof (cases i)
    case (Suc j)
    then show ?thesis
      using b by (intro disjI2 bexI [of _ "lane C s ta tx j"]) (simp_all add: lane_Suc(2) lane_less del: lane.simps)
  qed (simp add: b)
qed

lemma fork_blocks_rooted:
  assumes "Suc k < 2 ^ 64"
  shows "rooted C (fork_blocks C s ta tb k)" and "rooted C (lane C s ta ta (Suc k) # fork_blocks C s ta tb k)"
proof -
  have old: "\<exists>tx i. b = lane C s ta tx i \<and> i < 2 ^ 64 \<and> (0 < i \<longrightarrow> lane C s ta tx (i - 1) \<in> set (fork_blocks C s ta tb k))"
    if "b \<in> set (fork_blocks C s ta tb k)" for b
  proof -
    from fork_blocks_lane [OF that] obtain tx i where "i \<le> k" "b = lane C s ta tx i" "tx = ta \<or> tx = tb" by blast
    then show ?thesis using assms lane_mem [of "i - 1" k C s ta tb] by (intro exI [of _ tx] exI [of _ i]) auto
  qed
  then show "rooted C (fork_blocks C s ta tb k)" by (intro lanes_rooted) blast
  let ?K = "lane C s ta ta (Suc k) # fork_blocks C s ta tb k"
  show "rooted C ?K"
  proof (intro lanes_rooted ballI)
    fix b
    assume "b \<in> set ?K"
    then consider "b = lane C s ta ta (Suc k)" | "b \<in> set (fork_blocks C s ta tb k)" by (auto simp del: lane.simps)
    then show "\<exists>tx i. b = lane C s ta tx i \<and> i < 2 ^ 64 \<and> (0 < i \<longrightarrow> lane C s ta tx (i - 1) \<in> set ?K)"
    proof cases
      case 1
      then show ?thesis
        using assms lane_mem [of k k C s ta tb] by (intro exI [of _ ta] exI [of _ "Suc k"]) simp
    next
      case 2
      with old [OF this] show ?thesis by (metis list.set_intros(2))
    qed
  qed
qed

lemma fork_blocks_collision_free:
  "collision_free C (fork_blocks C s ta tb (Suc k)) \<Longrightarrow> collision_free C (fork_blocks C s ta tb k)"
  "collision_free C (fork_blocks C s ta tb (Suc k)) \<Longrightarrow> 0 < k \<Longrightarrow> collision_free C (lane C s ta ta (Suc k) # fork_blocks C s ta tb k)"
  by (cases k; simp add: collision_free_def del: lane.simps)+

text \<open>The chain state of every replica once it has both blocks of height \<open>k\<close>.\<close>

definition fork_snap :: "crypto \<Rightarrow> SecretKeySet \<Rightarrow> Txn \<Rightarrow> Txn \<Rightarrow> nat \<Rightarrow> chain_state" where
  "fork_snap C s ta tb k = snap C (fork_blocks C s ta tb k) (justify (lane C s ta ta k)) (lane C s ta ta (k - 1)) (of_nat k)
     (lane C s ta ta (k - 2)) (lane C s ta ta (k - 3))"

lemma max_next_height: "Suc k < 2 ^ 64 \<Longrightarrow> max (of_nat k) (height (lane C s ta tx (Suc k))) = height (lane C s ta tx (Suc k))"
  using lane_less [of k "Suc k" C s ta tx tx] by (auto simp: lane_height max_def simp del: lane.simps)

text \<open>The first block of the next height, on either arm: it brings a better certificate.\<close>

lemma fork_lead:
  assumes k: "0 < k" "Suc k < 2 ^ 64" and tx: "tx = ta \<or> tx = tb"
    and free: "collision_free C (lane C s ta tx (Suc k) # fork_blocks C s ta tb k)"
  shows "spec_update C (lane C s ta tx (Suc k)) (snap C (lane C s ta tx (Suc k) # fork_blocks C s ta tb k)
        (justify (lane C s ta ta k)) (lane C s ta ta (k - 1)) (height (lane C s ta tx (Suc k)))
        (lane C s ta ta (k - 2)) (lane C s ta ta (k - 3)))
    = snap C (lane C s ta tx (Suc k) # fork_blocks C s ta tb k) (justify (lane C s ta tx (Suc k))) (lane C s ta tx k)
        (of_nat k) (lane C s ta tx (k - 1)) (lane C s ta tx (k - 2))"
proof -
  let ?K = "lane C s ta tx (Suc k) # fork_blocks C s ta tb k"
  have mem: "lane C s ta ty i \<in> set ?K" if "i \<le> k" "ty = ta \<or> ty = tb" for i ty
    using that lane_mem [of i k C s ta tb] by auto
  obtain j where j: "k = Suc j" using k(1) by (cases k) auto
  have q1: "lane C s ta tx j \<in> set ?K" "qc_node (justify (lane C s ta tx k)) = TreeNode_hash C (lane C s ta tx j)"
      "parent (lane C s ta tx k) = TreeNode_hash C (lane C s ta tx j)"
    using mem [of j] tx by (simp_all add: j lane_Suc del: lane.simps)
  have q0: "lane C s ta ta j \<in> set ?K" "qc_node (justify (lane C s ta ta k)) = TreeNode_hash C (lane C s ta ta j)"
    using mem [of j ta] by (simp_all add: j lane_Suc del: lane.simps)
  have up: "height (lane C s ta ta j) < height (lane C s ta tx k)"
    using k by (simp add: j lane_less del: lane.simps)
  define m2 where "m2 = (case j of 0 \<Rightarrow> None | Suc i \<Rightarrow> Some (lane C s ta tx i))"
  have q2: "case m2 of None \<Rightarrow> qc_node (justify (lane C s ta tx j)) = zeroed_node_hash
      | Some q2 \<Rightarrow> q2 \<in> set ?K \<and> qc_node (justify (lane C s ta tx j)) = TreeNode_hash C q2
          \<and> parent (lane C s ta tx j) = TreeNode_hash C q2"
  proof (cases j)
    case (Suc i)
    then show ?thesis using mem [of i tx] tx by (simp add: m2_def j lane_Suc del: lane.simps)
  qed (simp add: m2_def zeroed_qc_def)
  have lk: "(if height (lane C s ta ta (j - Suc 0)) < height (lane C s ta tx j) then lane C s ta tx j else lane C s ta ta (j - Suc 0))
      = lane C s ta tx j"
    using k by (cases j) (simp_all add: j lane_less del: lane.simps(2,3))
  have ex: "(case m2 of Some q2 \<Rightarrow> if height (lane C s ta ta (j - 2)) < height q2 then q2 else lane C s ta ta (j - 2)
      | None \<Rightarrow> lane C s ta ta (j - 2)) = lane C s ta tx (j - Suc 0)"
  proof (cases j)
    case (Suc i)
    then have "i < 2 ^ 64" using k by (simp add: j)
    moreover have "lane C s ta ta (i - 1) = lane C s ta tx i" if "i = 0" using that by simp
    ultimately show ?thesis
      using lane_less [of "i - 1" i C s ta ta tx] by (cases "i = 0") (simp_all add: Suc m2_def del: lane.simps(2,3))
  qed (simp add: m2_def)
  have m1: "case Some (lane C s ta tx j) of None \<Rightarrow> qc_node (justify (lane C s ta tx k)) = zeroed_node_hash
      | Some q1 \<Rightarrow> q1 \<in> set ?K \<and> qc_node (justify (lane C s ta tx k)) = TreeNode_hash C q1 \<and> parent (lane C s ta tx k) = TreeNode_hash C q1"
    using q1 by simp
  show ?thesis
    using spec_update_snap [OF free mem [OF order_refl tx] lane_Suc(3) q0 m1, of m2] q2 up lk ex
    by (simp add: Let_def j lane_height [of C s ta tx "Suc j"] del: lane.simps)
qed

text \<open>The second block of the next height changes nothing but the voting height.\<close>

lemma fork_follow:
  assumes k: "0 < k" "Suc k < 2 ^ 64" and free: "collision_free C (fork_blocks C s ta tb (Suc k))"
  shows "spec_update C (lane C s ta tb (Suc k)) (snap C (lane C s ta tb (Suc k) # lane C s ta ta (Suc k) # fork_blocks C s ta tb k)
        (justify (lane C s ta ta (Suc k))) (lane C s ta ta k) (height (lane C s ta tb (Suc k)))
        (lane C s ta ta (k - 1)) (lane C s ta ta (k - 2)))
    = fork_snap C s ta tb (Suc k)"
proof -
  obtain j where j: "k = Suc j" using k(1) by (cases k) auto
  let ?K = "lane C s ta tb (Suc k) # lane C s ta ta (Suc k) # fork_blocks C s ta tb k"
  have K: "fork_blocks C s ta tb (Suc k) = ?K" by (simp add: j del: lane.simps)
  have mem: "lane C s ta ty i \<in> set ?K" if "i \<le> k" "ty = ta \<or> ty = tb" for i ty
    using that lane_mem [of i k C s ta tb] by auto
  have m1: "case Some (lane C s ta tb j) of None \<Rightarrow> qc_node (justify (lane C s ta tb k)) = zeroed_node_hash
      | Some q1 \<Rightarrow> q1 \<in> set ?K \<and> qc_node (justify (lane C s ta tb k)) = TreeNode_hash C q1 \<and> parent (lane C s ta tb k) = TreeNode_hash C q1"
    using mem [of j] by (simp add: j lane_Suc del: lane.simps)
  define m2 where "m2 = (case j of 0 \<Rightarrow> None | Suc i \<Rightarrow> Some (lane C s ta tb i))"
  have q2: "case m2 of None \<Rightarrow> qc_node (justify (lane C s ta tb j)) = zeroed_node_hash
      | Some q2 \<Rightarrow> q2 \<in> set ?K \<and> qc_node (justify (lane C s ta tb j)) = TreeNode_hash C q2
          \<and> parent (lane C s ta tb j) = TreeNode_hash C q2"
  proof (cases j)
    case (Suc i)
    then show ?thesis using mem [of i tb] by (simp add: m2_def j lane_Suc del: lane.simps)
  qed (simp add: m2_def zeroed_qc_def)
  have ex: "(case m2 of Some q2 \<Rightarrow> if height (lane C s ta ta (j - Suc 0)) < height q2 then q2 else lane C s ta ta (j - Suc 0)
      | None \<Rightarrow> lane C s ta ta (j - Suc 0)) = lane C s ta ta (j - Suc 0)"
    using k by (cases j) (simp_all add: j m2_def lane_less del: lane.simps(2,3))
  show ?thesis
    using spec_update_snap [OF free [unfolded K] mem [of k tb] lane_Suc(3) mem [of k ta] lane_Suc(3) m1, of m2] q2 ex
    by (simp add: Let_def lane_height fork_snap_def K j del: lane.simps)
qed

lemma fork_first:
  assumes "collision_free C (fork_blocks C s ta tb 1)"
  shows "spec_update C (fork_root C ta) (snap C [fork_root C ta, INIT_NODE C] (INIT_QC C) (INIT_NODE C) (height (fork_root C ta))
      (INIT_NODE C) (INIT_NODE C)) = fork_snap C s ta tb 1"
  using spec_update_snap [of C "[fork_root C ta, INIT_NODE C]" "INIT_NODE C" "fork_root C ta" "INIT_NODE C" "INIT_QC C" None] assms
  by (simp add: fork_snap_def fork_root_def TreeNode_new_def zeroed_qc_def)

lemma lane_votable:
  assumes "quorum_scheme C s" and "0 < k" and "Suc k < 2 ^ 64" and "i < k"
    and "collision_free C K" and "rooted C K" and "lane C s ta tx k \<in> set K" and "lane C s ta ty i \<in> set K"
  shows "votable C s K (of_nat k) (lane C s ta ty i) (lane C s ta tx k) (lane C s ta tx (Suc k))"
proof -
  have "combined_verify C (public_keys C s) (qc_combined_sign (justify (lane C s ta tx (Suc k)))) (TreeNode_to_be_bytes (lane C s ta tx k))"
    using quorum_cert_combines(2) [OF assms(1)] by (simp only: lane_justify [OF assms(2)])
  moreover have "height (lane C s ta tx k) < height (lane C s ta tx (Suc k))" "height (lane C s ta ty i) < height (lane C s ta tx k)"
    using assms(3,4) by (simp_all add: lane_less del: lane.simps)
  ultimately show ?thesis
    using assms(5-) by (simp add: votable_def lane_Suc(2-4) lane_height [of C s ta tx k] del: lane.simps)
qed

lemma cluster_start:
  assumes "length honest = 3" and "faulty \<notin> set honest" and "FLUSH_INTERVAL E \<noteq> None"
  shows "\<exists>cl. cluster_reaches E C s honest faulty na cl \<and> length cl = 3
    \<and> (\<forall>i < 3. replica_at C s faulty i (snap C [INIT_NODE C] (INIT_QC C) (INIT_NODE C) 0 (INIT_NODE C) (INIT_NODE C)) (cl ! i))"
proof -
  let ?f = "\<lambda>i. fresh_pacemaker C (Suc (length honest)) (honest ! i) (honest @ [faulty]) (key_of C s i) na"
  let ?cs = "snap C [INIT_NODE C] (INIT_QC C) (INIT_NODE C) 0 (INIT_NODE C) (INIT_NODE C)"
  have "\<exists>pm. run_start E (hss_safety_storage C) (hss_liveness_storage C) (?f i) = Return pm \<and> replica_at C s faulty i ?cs pm"
    if "i < 3" for i
  proof -
    have ok: "pm_ok (hss_safety_storage C) (hss_inv C) (?f i)" by (rule fresh_pacemaker_ok)
    have "at_rest (?f i)"
      by (simp add: at_rest_def roster_nonempty) (simp add: fresh_store_def init_in_mem_storage_def HotstuffStorage_new_def Let_def)
    from goto_new_view_rest [OF this, of E C 1] obtain pm where pm: "goto_new_view E (hss_safety_storage C) (hss_liveness_storage C) 1 (?f i) = Return pm"
        "at_rest pm" "same_replica (?f i) pm" "chain_of (pm_storage pm) = chain_of (pm_storage (?f i))" by blast
    have start: "run_start E (hss_safety_storage C) (hss_liveness_storage C) (?f i) = Return pm"
      using pm(1) assms(3) by (auto simp: run_start_def)
    have "chain_of (pm_storage (?f i)) = ?cs"
      by (simp add: chain_of_def snap_def tree_def hss_get_def hm_get_def fun_eq_iff)
    moreover have "pm_id (?f i) \<noteq> faulty"
      using that assms(1,2) nth_mem [of i honest] by (auto simp: fresh_pacemaker_def Pacemaker_new_def Let_def)
    ultimately have "replica_at C s faulty i ?cs pm"
      using pm(2-4) pm_advanced_ok [OF hssl.run_start_advanced [OF ok start]]
      by (simp add: replica_at_def same_replica_def Voter_new_def)
    with start show ?thesis by blast
  qed
  then obtain r where r: "\<And>i. i < 3 \<Longrightarrow> run_start E (hss_safety_storage C) (hss_liveness_storage C) (?f i) = Return (r i)"
      "\<And>i. i < 3 \<Longrightarrow> replica_at C s faulty i ?cs (r i)" by metis
  then have "cluster_started E C s honest faulty na (map r [0..<3])"
    using assms(1) by (auto simp: cluster_started_def)
  then have "cluster_reaches E C s honest faulty na (map r [0..<3])" by (auto simp: cluster_reaches_def)
  then show ?thesis using r(2) by (intro exI [of _ "map r [0..<3]"]) simp
qed

text \<open>One round of the cluster on a block, from a reachable state.\<close>

lemma reaches_round:
  assumes reach: "cluster_reaches E C s honest faulty na cl" "length cl = 3"
    and at: "\<forall>i < 3. replica_at C s faulty i (snap C K qc lf vh lk ex) (cl ! i)"
    and vt: "votable C s K vh lk q p" and bk: "backed C s cl (justify p)"
    and E: "DUR_REPLICA_WAIT E \<noteq> None" "\<And>k. accepts E k"
  shows "\<exists>cl1. cluster_reaches E C s honest faulty na cl1 \<and> length cl1 = 3 \<and> sent_within cl cl1 \<and> certifiable C s cl1 p
    \<and> (\<forall>i < 3. replica_at C s faulty i (spec_update C p (snap C (p # K) qc lf (max vh (height p)) lk ex)) (cl1 ! i))"
proof -
  obtain cl1 where "(cluster_step E C s faulty)\<^sup>*\<^sup>* cl cl1" "sent_within cl cl1"
      "\<forall>i < 3. replica_at C s faulty i (spec_update C p (snap C (p # K) qc lf (max vh (height p)) lk ex)) (cl1 ! i)
        \<and> voted cl1 p (signaturer_sign C (key_of C s i) p)"
    using cluster_round [OF _ vt bk E refl] at reach(2) by force
  then show ?thesis
    using reach unfolding cluster_reaches_def certifiable_def sent_within_def by (metis rtranclp_trans)
qed

definition forked_at :: "crypto \<Rightarrow> SecretKeySet \<Rightarrow> ReplicaID \<Rightarrow> Txn \<Rightarrow> Txn \<Rightarrow> nat \<Rightarrow> cluster \<Rightarrow> bool" where
  "forked_at C s faulty ta tb k cl \<longleftrightarrow> length cl = 3
     \<and> (\<forall>i < 3. replica_at C s faulty i (fork_snap C s ta tb k) (cl ! i))
     \<and> certifiable C s cl (lane C s ta ta k) \<and> certifiable C s cl (lane C s ta tb k)"

lemma fork_base:
  assumes "length honest = 3" and "faulty \<notin> set honest" and "FLUSH_INTERVAL E \<noteq> None"
    and E: "DUR_REPLICA_WAIT E \<noteq> None" "\<And>k. accepts E k" and free: "collision_free C (fork_blocks C s ta tb 1)"
  shows "\<exists>cl. cluster_reaches E C s honest faulty na cl \<and> forked_at C s faulty ta tb 1 cl"
proof -
  let ?p = "fork_root C ta"
  obtain cl where cl: "cluster_reaches E C s honest faulty na cl" "length cl = 3"
      "\<forall>i < 3. replica_at C s faulty i (snap C [INIT_NODE C] (INIT_QC C) (INIT_NODE C) 0 (INIT_NODE C) (INIT_NODE C)) (cl ! i)"
    using cluster_start [OF assms(1-3)] by blast
  have "votable C s [INIT_NODE C] 0 (INIT_NODE C) (INIT_NODE C) ?p"
    using free by (simp add: votable_def fork_root_def TreeNode_new_def is_init_qc_def INIT_QC_HASH_def collision_free_def rooted_def)
  moreover have "backed C s cl (justify ?p)" by (simp add: backed_def fork_root_def TreeNode_new_def)
  moreover have "max 0 (height ?p) = height ?p" by (simp add: max_def)
  ultimately show ?thesis
    using reaches_round [OF cl _ _ E, of "INIT_NODE C" ?p] fork_first [OF free] by (auto simp: forked_at_def)
qed

text \<open>Two rounds take the fork one height further.\<close>

lemma fork_grows:
  assumes qs: "quorum_scheme C s" and E: "DUR_REPLICA_WAIT E \<noteq> None" "\<And>k. accepts E k"
    and k: "0 < k" "Suc k < 2 ^ 64" and free: "collision_free C (fork_blocks C s ta tb (Suc k))"
    and reach: "cluster_reaches E C s honest faulty na cl" and at: "forked_at C s faulty ta tb k cl"
  shows "\<exists>cl1. cluster_reaches E C s honest faulty na cl1 \<and> forked_at C s faulty ta tb (Suc k) cl1"
proof -
  let ?K = "fork_blocks C s ta tb k" and ?a = "lane C s ta ta (Suc k)" and ?b = "lane C s ta tb (Suc k)"
  note frees = fork_blocks_collision_free [OF free] and rts = fork_blocks_rooted [OF k(2)]
  have mem: "lane C s ta ta i \<in> set ?K" "lane C s ta tb i \<in> set ?K" if "i \<le> k" for i using lane_mem [OF that] by auto
  have va: "votable C s ?K (of_nat k) (lane C s ta ta (k - 2)) (lane C s ta ta k) ?a"
    using k by (intro lane_votable [OF qs k] frees rts mem) auto
  have bka: "backed C s cl (justify ?a)"
    using at certifiable_backed [OF qs] by (simp only: lane_justify [OF k(1)] forked_at_def)
  obtain cl1 where cl1: "cluster_reaches E C s honest faulty na cl1" "length cl1 = 3" "sent_within cl cl1" "certifiable C s cl1 ?a"
      and at1: "\<forall>i < 3. replica_at C s faulty i (snap C (?a # ?K) (justify ?a) (lane C s ta ta k) (of_nat k)
          (lane C s ta ta (k - 1)) (lane C s ta ta (k - 2))) (cl1 ! i)"
    using reaches_round [OF reach _ _ va bka E] at fork_lead [OF k _ frees(2) [OF k(1)]] max_next_height [OF k(2)]
    unfolding forked_at_def fork_snap_def by metis
  have vb: "votable C s (?a # ?K) (of_nat k) (lane C s ta ta (k - 1)) (lane C s ta tb k) ?b"
    using k mem [of k] mem [of "k - 1"] by (intro lane_votable [OF qs k] frees rts) auto
  have bkb: "backed C s cl1 (justify ?b)"
    using at certifiable_backed [OF qs] certifiable_mono [OF cl1(3)] by (simp only: lane_justify [OF k(1)] forked_at_def)
  obtain cl2 where "cluster_reaches E C s honest faulty na cl2" "length cl2 = 3" "sent_within cl1 cl2" "certifiable C s cl2 ?b"
      "\<forall>i < 3. replica_at C s faulty i (fork_snap C s ta tb (Suc k)) (cl2 ! i)"
    using reaches_round [OF cl1(1,2) at1 vb bkb E] fork_follow [OF k free] max_next_height [OF k(2)] by metis
  then show ?thesis using certifiable_mono [OF _ cl1(4)] unfolding forked_at_def by blast
qed

lemma fork_reached:
  assumes "length honest = 3" and "faulty \<notin> set honest" and "FLUSH_INTERVAL E \<noteq> None"
    and "quorum_scheme C s" and E: "DUR_REPLICA_WAIT E \<noteq> None" "\<And>k. accepts E k"
    and "Suc k < 2 ^ 64" and "collision_free C (fork_blocks C s ta tb (Suc k))"
  shows "\<exists>cl. cluster_reaches E C s honest faulty na cl \<and> forked_at C s faulty ta tb (Suc k) cl"
  using assms(7,8)
proof (induction k)
  case 0
  then show ?case using fork_base [OF assms(1-3) E] by simp
next
  case (Suc k)
  then obtain cl where "cluster_reaches E C s honest faulty na cl" "forked_at C s faulty ta tb (Suc k) cl"
    using fork_blocks_collision_free(1) by (metis Suc_lessD)
  then show ?case using fork_grows [OF assms(4) E _ Suc.prems] by blast
qed

text \<open>The next block of an arm makes one replica execute the block three below it on that arm.\<close>

lemma fork_executes:
  assumes qs: "quorum_scheme C s" and E: "DUR_REPLICA_WAIT E \<noteq> None" "\<And>k. accepts E k"
    and k: "0 < k" "Suc k < 2 ^ 64" and tx: "tx = ta \<or> tx = tb" and free: "collision_free C (fork_blocks C s ta tb (Suc k))"
    and i: "i < length cl" "replica_at C s faulty i (fork_snap C s ta tb k) (cl ! i)" and c: "certifiable C s cl (lane C s ta tx k)"
  shows "\<exists>pm. (cluster_step E C s faulty)\<^sup>*\<^sup>* cl (cl[i := pm]) \<and> sent_within cl (cl[i := pm])
    \<and> hss_get_last_committed (pm_storage pm) = lane C s ta tx (k - 2)"
proof -
  let ?K = "fork_blocks C s ta tb k" and ?p = "lane C s ta tx (Suc k)"
  note frees = fork_blocks_collision_free [OF free]
  have fp: "collision_free C (?p # ?K)"
    using tx frees(2) [OF k(1)] free k(1) by (cases k) (auto simp: collision_free_def simp del: lane.simps)
  have vt: "votable C s ?K (of_nat k) (lane C s ta ta (k - 2)) (lane C s ta tx k) ?p"
    using k(1) tx lane_mem [of k k C s ta tb] lane_mem [of "k - 2" k C s ta tb]
    by (intro lane_votable [OF qs k] frees(1) fork_blocks_rooted(1) [OF k(2)]) auto
  have bk: "backed C s cl (justify ?p)"
    using certifiable_backed [OF qs c] by (simp only: lane_justify [OF k(1)])
  obtain pm where pm: "(cluster_step E C s faulty)\<^sup>*\<^sup>* cl (cl[i := pm])" "sent_within cl (cl[i := pm])"
      "replica_at C s faulty i (snap C (?p # ?K) (justify ?p) (lane C s ta tx k) (of_nat k) (lane C s ta tx (k - 1)) (lane C s ta tx (k - 2))) pm"
    using cluster_member_round [OF i(1) i(2) [unfolded fork_snap_def] vt bk E] fork_lead [OF k tx fp] max_next_height [OF k(2)] by metis
  then have "cs_exec (chain_of (pm_storage pm)) = lane C s ta tx (k - 2)"
    unfolding replica_at_def by (simp add: snap_def del: chain_of_simps)
  with pm(1,2) show ?thesis by (auto simp: hss_get_last_committed_def)
qed

lemma fork_arms_differ:
  assumes "collision_free C (fork_blocks C s ta tb k)" and "2 \<le> d" and "d \<le> k"
  shows "TreeNode_hash C (lane C s ta ta d) \<noteq> TreeNode_hash C (lane C s ta tb d)"
  using assms
proof (induction k)
  case (Suc k)
  then show ?case
    using fork_blocks_collision_free(1) [of C s ta tb k]
    by (cases k; cases "d = Suc k") (auto simp: collision_free_def simp del: lane.simps)
qed simp

text \<open>C5: agreement fails with one faulty proposer among four replicas. Three replicas run the code;
  every certificate they are shown is the initial one or combines votes that they sent for the
  block it names. For every height \<open>d\<close> from 2 on, the cluster reaches a state in which two of the
  three have executed blocks of height \<open>d\<close> with different hashes. The hypotheses are that the
  threshold scheme works with a quorum of three, that messages get through, and that the
  blocks of the fork do not collide.\<close>

theorem agreement_violated:
  assumes "length honest = 3" and "faulty \<notin> set honest" and "quorum_scheme C s"
    and "FLUSH_INTERVAL E \<noteq> None" and "DUR_REPLICA_WAIT E \<noteq> None" and "\<And>k. accepts E k"
    and "2 \<le> d" and "d + 3 < 2 ^ 64" and "collision_free C (fork_blocks C s ta tb (d + 3))"
  shows "\<exists>cl. cluster_reaches E C s honest faulty na cl \<and> length cl = 3
    \<and> height (hss_get_last_committed (pm_storage (cl ! 0))) = of_nat d
    \<and> height (hss_get_last_committed (pm_storage (cl ! 1))) = of_nat d
    \<and> TreeNode_hash C (hss_get_last_committed (pm_storage (cl ! 0)))
        \<noteq> TreeNode_hash C (hss_get_last_committed (pm_storage (cl ! 1)))"
proof -
  let ?k = "Suc (Suc d)"
  have "d + 3 = Suc ?k" by simp
  then have free: "collision_free C (fork_blocks C s ta tb (Suc ?k))" and k: "0 < ?k" "Suc ?k < 2 ^ 64"
    using assms(8,9) by (metis, simp, metis)
  note free' = fork_blocks_collision_free(1) [OF free]
  obtain cl where reach: "cluster_reaches E C s honest faulty na cl" and at: "forked_at C s faulty ta tb ?k cl"
    using fork_reached [OF assms(1,2,4,3,5,6) Suc_lessD [OF k(2)] free'] by blast
  then have len: "length cl = 3" and reps: "replica_at C s faulty 0 (fork_snap C s ta tb ?k) (cl ! 0)"
      "replica_at C s faulty 1 (fork_snap C s ta tb ?k) (cl ! 1)"
    and cert: "certifiable C s cl (lane C s ta ta ?k)" "certifiable C s cl (lane C s ta tb ?k)"
    by (simp_all only: forked_at_def)
  have km: "?k - 2 = d" and l0: "0 < length cl" using len by simp_all
  obtain p0 where p0: "(cluster_step E C s faulty)\<^sup>*\<^sup>* cl (cl[0 := p0])" "sent_within cl (cl[0 := p0])"
      "hss_get_last_committed (pm_storage p0) = lane C s ta ta d"
    using fork_executes [OF assms(3,5,6) k disjI1 [OF refl] free l0 reps(1) cert(1)] unfolding km by blast
  have l1: "1 < length (cl[0 := p0])" and r1: "replica_at C s faulty 1 (fork_snap C s ta tb ?k) (cl[0 := p0] ! 1)"
    using reps(2) len by simp_all
  obtain p1 where p1: "(cluster_step E C s faulty)\<^sup>*\<^sup>* (cl[0 := p0]) (cl[0 := p0, 1 := p1])"
      "hss_get_last_committed (pm_storage p1) = lane C s ta tb d"
    using fork_executes [OF assms(3,5,6) k disjI2 [OF refl] free l1 r1 certifiable_mono [OF p0(2) cert(2)]] unfolding km by blast
  have "cluster_reaches E C s honest faulty na (cl[0 := p0, 1 := p1])"
    using reach p0(1) p1(1) unfolding cluster_reaches_def by (meson rtranclp_trans)
  then show ?thesis
    using len p0(3) p1(2) fork_arms_differ [OF free assms(7)] lane_height
    by (intro exI [of _ "cl[0 := p0, 1 := p1]"]) simp
qed

text \<open>
  An instance for the example: the digest also keeps the first byte of the transactions, and a
  combined signature the last byte of the message, so that the arms of a fork differ in both.
\<close>

definition fork_digest :: "u8 list \<Rightarrow> u8 list" where
  "fork_digest bs = replicate 23 1 @ [if length bs > 40 then hd bs else 0] @ take 8 (drop (length bs - 40) bs)"

definition fork_tag :: "u8 list \<Rightarrow> CombinedSign" where
  "fork_tag m = CombinedSign (replicate 80 1 @ take 8 m @ replicate 7 0 @ [last m])"

fun fork_combine :: "PK \<Rightarrow> (usize \<times> Sign) list \<Rightarrow> CombinedSign option" where
  "fork_combine (PK b) ((i, Sign x) # (j, y) # z # shares) = Some (fork_tag (drop (Suc (length b)) x))"
| "fork_combine pks shares = None"

definition fork :: crypto where
  "fork = toy\<lparr>sha256 := fork_digest, combined_verify := (\<lambda>_ sg m. sg = fork_tag m), combine_signatures := fork_combine\<rparr>"

lemma fork_scheme: "quorum_scheme fork toy_keys"
proof -
  have "\<exists>sg. fork_combine pks shares = Some sg \<and> sg = fork_tag m"
    if len: "2 < length shares" and ver: "\<forall>(i, sh) \<in> set shares. toy_share_verify pks i sh m" for pks m shares
  proof -
    obtain b i x y z rest where sh: "pks = PK b" "shares = (i, Sign x) # y # z # rest"
      using len by (cases pks; cases shares; cases "tl shares"; cases "tl (tl shares)"; cases "snd (hd shares)") auto
    then have "x = b @ [word_of_nat i] @ m" using ver by simp
    then show ?thesis by (cases y) (simp add: sh)
  qed
  then show ?thesis
    using toy_share_sound [of toy_keys] by (auto simp: quorum_scheme_def combine_sound_def share_sound_def fork_def)
qed

lemma fork_free: "collision_free fork (fork_blocks fork toy_keys (Txn [10]) (Txn [11]) 5)"
  by code_simp

theorem agreement_violated_witness:
  "\<exists>cl. cluster_reaches toy_env fork toy_keys [''a'', ''b'', ''c''] ''d'' toy_net cl \<and> length cl = 3
    \<and> height (hss_get_last_committed (pm_storage (cl ! 0))) = 2
    \<and> height (hss_get_last_committed (pm_storage (cl ! 1))) = 2
    \<and> TreeNode_hash fork (hss_get_last_committed (pm_storage (cl ! 0)))
        \<noteq> TreeNode_hash fork (hss_get_last_committed (pm_storage (cl ! 1)))"
  using agreement_violated [of "[''a'', ''b'', ''c'']" "''d''" fork toy_keys toy_env 2 "Txn [10]" "Txn [11]" toy_net, OF _ _ fork_scheme]
    fork_free by simp

end
