(* ===== verification/Persistor.thy ===== *)
theory Persistor
  imports HssStorage ToyCrypto
begin

section \<open>hss, persistor.rs and recover.rs: the durable copy\<close>

text \<open>
  The database as the tables \<open>create_tables\<close> declares, each a map by its primary key, and the
  statements the source sends: \<open>insert ignore\<close> keeps the row already there, \<open>replace\<close>
  overwrites it, a select by key finds the row or none. Statements are taken to succeed and a
  transaction to be atomic. The encodings (\<^verbatim>\<open>base64\<close>, \<^verbatim>\<open>serde_json\<close>) are the functions of the
  record \<open>codec\<close>; what is relied on of them is that decoding undoes encoding (\<open>codec_ok\<close>).

  The properties: what a flush writes and what it never overwrites, the round trip of the
  configuration and the keys, and what recovery gets back of a proposal.
\<close>

record codec =
  b64_encode :: "u8 list \<Rightarrow> string"
  b64_decode :: "string \<Rightarrow> u8 list option"
  txs_to_json :: "Txn list \<Rightarrow> u8 list"
  txs_from_json :: "u8 list \<Rightarrow> Txn list option"
  sign_type_to_json :: "SignType \<Rightarrow> string"
  tc_from_json :: "string \<Rightarrow> TimeoutCertificate option"
  pk_to_json :: "PK \<Rightarrow> u8 list"
  pk_from_json :: "u8 list \<Rightarrow> PK option"
  sk_to_json :: "SK \<Rightarrow> u8 list"
  sk_from_json :: "u8 list \<Rightarrow> SK option"

definition codec_ok :: "codec \<Rightarrow> bool" where
  "codec_ok K \<longleftrightarrow> (\<forall>b. b64_decode K (b64_encode K b) = Some b)
     \<and> (\<forall>t. txs_from_json K (txs_to_json K t) = Some t)
     \<and> (\<forall>p. pk_from_json K (pk_to_json K p) = Some p) \<and> (\<forall>s. sk_from_json K (sk_to_json K s) = Some s)"

subsection \<open>Tables\<close>

record proposal_row =
  pr_parent_hash :: string
  pr_justify_view :: u64
  pr_prop_hash :: string
  pr_txn :: "u8 list"

record qc_row =
  qr_node_hash :: string
  qr_combined_sign :: string

record state_row =
  sr_current_view :: u64
  sr_last_voted_view :: u64
  sr_locked_view :: u64
  sr_committed_view :: u64
  sr_executed_view :: u64
  sr_leaf_view :: u64

record conf_row =
  cr_total :: u64
  cr_self_addr :: string
  cr_self_id :: string

record crypto_row =
  yr_pk_set :: "u8 list"
  yr_sk_share :: "u8 list"
  yr_sk_id :: u64

record db =
  t_combined_tc :: "(u64, string) btree_map"
  t_crypto :: "(string, crypto_row) btree_map"
  t_hotstuff_conf :: "(string, conf_row) btree_map"
  t_hotstuff_state :: "(string, state_row) btree_map"
  t_partial_tc :: "(u64 \<times> string, string) hash_map"
  t_peers :: "(string, string) btree_map"
  t_proposal :: "(u64, proposal_row) btree_map"
  t_qc :: "(u64, qc_row) btree_map"

text \<open>\<open>drop_tables\<close> and \<open>create_tables\<close>: afterwards every table exists and is empty.\<close>

definition create_tables :: db where
  "create_tables = \<lparr>t_combined_tc = [], t_crypto = [], t_hotstuff_conf = [], t_hotstuff_state = [],
     t_partial_tc = [], t_peers = [], t_proposal = [], t_qc = []\<rparr>"

definition insert_ignore :: "'k::linorder \<Rightarrow> 'v \<Rightarrow> ('k, 'v) btree_map \<Rightarrow> ('k, 'v) btree_map" where
  "insert_ignore k v m = (if bt_get k m = None then bt_insert k v m else m)"

definition insert_ignore_hm :: "'k \<Rightarrow> 'v \<Rightarrow> ('k, 'v) hash_map \<Rightarrow> ('k, 'v) hash_map" where
  "insert_ignore_hm k v m = (if hm_get k m = None then hm_insert k v m else m)"

subsection \<open>persistor.rs: the writer\<close>

definition flush_prop :: "codec \<Rightarrow> crypto \<Rightarrow> TreeNode \<Rightarrow> db \<Rightarrow> db" where
  "flush_prop K C prop d =
     (let view = height prop;
          parent_hash = b64_encode K (node_hash_bytes (parent prop));
          node_hash = b64_encode K (node_hash_bytes (TreeNode_hash C prop));
          sign = b64_encode K (sign_bytes (qc_combined_sign (justify prop)));
          txn = txs_to_json K (txs prop);
          d1 = d\<lparr>t_qc := insert_ignore (qc_view (justify prop))
                   \<lparr>qr_node_hash = node_hash, qr_combined_sign = sign\<rparr> (t_qc d)\<rparr>
      in d1\<lparr>t_proposal := insert_ignore view
              \<lparr>pr_parent_hash = parent_hash, pr_justify_view = qc_view (justify prop),
               pr_prop_hash = node_hash, pr_txn = txn\<rparr> (t_proposal d1)\<rparr>)"

definition flush_justify :: "codec \<Rightarrow> GenericQC \<Rightarrow> db \<Rightarrow> db" where
  "flush_justify K qc d =
     d\<lparr>t_qc := insert_ignore (qc_view qc)
         \<lparr>qr_node_hash = b64_encode K (node_hash_bytes (qc_node qc)),
          qr_combined_sign = b64_encode K (sign_bytes (qc_combined_sign qc))\<rparr> (t_qc d)\<rparr>"

definition flush_ptc :: "codec \<Rightarrow> TimeoutCertificate \<Rightarrow> db \<Rightarrow> db" where
  "flush_ptc K ptc d =
     d\<lparr>t_partial_tc := insert_ignore_hm (tc_view ptc, tc_from ptc)
         (sign_type_to_json K (tc_view_sign ptc)) (t_partial_tc d)\<rparr>"

definition flush_ctc :: "codec \<Rightarrow> TimeoutCertificate \<Rightarrow> db \<Rightarrow> db" where
  "flush_ctc K ctc d =
     d\<lparr>t_combined_tc := insert_ignore (tc_view ctc) (sign_type_to_json K (tc_view_sign ctc)) (t_combined_tc d)\<rparr>"

definition flush_state :: "InMemoryState \<Rightarrow> db \<Rightarrow> db" where
  "flush_state st d =
     d\<lparr>t_hotstuff_state := bt_insert (st_token st)
         \<lparr>sr_current_view = st_current_view st, sr_last_voted_view = st_vheight st,
          sr_locked_view = height (st_b_locked st), sr_committed_view = st_committed_height st,
          sr_executed_view = height (st_last_commit st), sr_leaf_view = height (st_leaf st)\<rparr>
         (t_hotstuff_state d)\<rparr>"

definition flusher_flush :: "codec \<Rightarrow> crypto \<Rightarrow> DirtyData \<Rightarrow> db \<Rightarrow> db" where
  "flusher_flush K C data d =
     (let d1 = fold (flush_prop K C) (dd_prop_queue data) d;
          d2 = fold (flush_justify K) (dd_justify_queue data) d1;
          d3 = fold (flush_ptc K) (dd_partial_tc_queue data) d2;
          d4 = fold (flush_ctc K) (dd_combined_tc_queue data) d3
      in flush_state (dd_state data) d4)"

text \<open>\<open>run\<close>: until the channel closes, or a waiter of a synchronous flush (\<open>done\<close>) is gone.\<close>

fun flusher_run :: "codec \<Rightarrow> crypto \<Rightarrow> (DirtyData \<Rightarrow> bool) \<Rightarrow> FlushTask list \<Rightarrow> db \<Rightarrow> db" where
  "flusher_run K C waits [] d = d"
| "flusher_run K C waits (Async data # tasks) d = flusher_run K C waits tasks (flusher_flush K C data d)"
| "flusher_run K C waits (Sync data # tasks) d =
     (let d1 = flusher_flush K C data d in if waits data then flusher_run K C waits tasks d1 else d1)"

subsection \<open>recover.rs: configuration and keys\<close>

definition persist_other_msg :: "codec \<Rightarrow> HotStuffConfig \<Rightarrow> DefaultSignaturer \<Rightarrow> db exec" where
  "persist_other_msg K conf sg =
     (let d = create_tables\<lparr>t_peers := fold (\<lambda>(i, a). bt_insert i a) (cf_peers_addr conf) []\<rparr>
      in exec_bind (exec_of_option UnwrapNone (hm_get (cf_replica_id conf) (cf_peers_addr conf))) (\<lambda>addr.
         Return (d\<lparr>t_hotstuff_conf := bt_insert (cf_token conf)
                      \<lparr>cr_total = of_nat (cf_total conf), cr_self_addr = addr, cr_self_id = cf_replica_id conf\<rparr>
                      (t_hotstuff_conf d),
                    t_crypto := bt_insert (cf_token conf)
                      \<lparr>yr_pk_set = pk_to_json K (sg_pks sg), yr_sk_share = sk_to_json K (sg_sks sg),
                       yr_sk_id = of_nat (sg_sign_id sg)\<rparr> (t_crypto d)\<rparr>)))"

text \<open>\<open>MySQLStorage::init\<close>: fresh tables, and the receiver moves into the running writer.\<close>

definition MySQLStorage_init ::
    "codec \<Rightarrow> HotStuffConfig \<Rightarrow> DefaultSignaturer \<Rightarrow> MySQLStorage \<Rightarrow> db \<Rightarrow> (MySQLStorage \<times> db) exec" where
  "MySQLStorage_init K conf sg b d =
     (case my_conn_pool b of
        None \<Rightarrow> Return (b, d)
      | Some _ \<Rightarrow>
          exec_bind (persist_other_msg K conf sg) (\<lambda>d1.
            if my_receiver b = Parked
            then Return (b\<lparr>my_conn_pool := None, my_receiver := Running\<rparr>, d1) else Panic UnwrapNone))"

definition recover_hotstuff_config :: "db \<Rightarrow> HotStuffConfig exec" where
  "recover_hotstuff_config d =
     (case t_hotstuff_conf d of
        [] \<Rightarrow> Panic UnwrapNone
      | (token, row) # _ \<Rightarrow>
          Return \<lparr>cf_token = token, cf_total = unat (cr_total row), cf_replica_id = cr_self_id row,
            cf_peers_addr = fold (\<lambda>(i, a). hm_insert i a) (t_peers d) []\<rparr>)"

definition recover_signaturer :: "codec \<Rightarrow> string \<Rightarrow> db \<Rightarrow> DefaultSignaturer exec" where
  "recover_signaturer K token d =
     exec_bind (exec_of_option UnwrapNone (bt_get token (t_crypto d))) (\<lambda>row.
     exec_bind (exec_of_option UnwrapNone (pk_from_json K (yr_pk_set row))) (\<lambda>pks.
     exec_bind (exec_of_option UnwrapNone (sk_from_json K (yr_sk_share row))) (\<lambda>sks.
       Return \<lparr>sg_sign_id = unat (yr_sk_id row), sg_pks = pks, sg_sks = sks\<rparr>)))"

subsection \<open>recover.rs: proposals and state\<close>

text \<open>A row of \<open>proposal inner join qc on proposal.justify_view = qc.view\<close>.\<close>

type_synonym joined_row = "u64 \<times> proposal_row \<times> u64 \<times> qc_row"

definition map_row_to_proposal :: "codec \<Rightarrow> crypto \<Rightarrow> joined_row \<Rightarrow> (NodeHash \<times> TreeNode) exec" where
  "map_row_to_proposal K C row =
     (case row of (view, pr, _, qr) \<Rightarrow>
        exec_bind (exec_of_option UnwrapNone (b64_decode K (qr_node_hash qr))) (\<lambda>nh.
        exec_bind (exec_of_option UnwrapNone (txs_from_json K (pr_txn pr))) (\<lambda>tx.
        exec_bind (exec_of_option UnwrapNone (b64_decode K (pr_parent_hash pr))) (\<lambda>ph.
        exec_bind (exec_of_option UnwrapNone (b64_decode K (qr_combined_sign qr))) (\<lambda>cs.
        exec_bind (combined_sign_from_vec_u8 C cs) (\<lambda>sign.
          let node_hash = NodeHash_from_vec nh
          in Return (node_hash,
               \<lparr>height = view, txs = tx, parent = NodeHash_from_vec ph,
                justify = GenericQC_new view node_hash sign\<rparr>)))))))"

definition joined_rows :: "db \<Rightarrow> joined_row list" where
  "joined_rows d =
     List.map_filter (\<lambda>(view, pr). case bt_get (pr_justify_view pr) (t_qc d) of
         None \<Rightarrow> None | Some qr \<Rightarrow> Some (view, pr, pr_justify_view pr, qr)) (t_proposal d)"

definition get_one_node_by_view :: "codec \<Rightarrow> crypto \<Rightarrow> u64 \<Rightarrow> db \<Rightarrow> (NodeHash \<times> TreeNode) exec" where
  "get_one_node_by_view K C view d =
     (case filter (\<lambda>(v, _). v = view) (joined_rows d) of
        [] \<Rightarrow> Panic UnwrapNone
      | row # _ \<Rightarrow> map_row_to_proposal K C row)"

fun map_rows :: "codec \<Rightarrow> crypto \<Rightarrow> joined_row list \<Rightarrow> (NodeHash \<times> TreeNode) list exec" where
  "map_rows K C [] = Return []"
| "map_rows K C (row # rows) =
     exec_bind (map_row_to_proposal K C row) (\<lambda>p. exec_bind (map_rows K C rows) (\<lambda>ps. Return (p # ps)))"

text \<open>\<open>order by proposal.justify_view\<close>, then \<open>collect\<close> into a \<open>HashMap\<close>: a later pair replaces an earlier.\<close>

definition recover_in_mem_queue :: "codec \<Rightarrow> crypto \<Rightarrow> db \<Rightarrow> (NodeHash, TreeNode) hash_map exec" where
  "recover_in_mem_queue K C d =
     exec_bind (map_rows K C (sort_key (\<lambda>(_, pr, _, _). pr_justify_view pr) (joined_rows d))) (\<lambda>ps.
       Return (fold (\<lambda>(h, n). hm_insert h n) ps []))"

fun recover_tcs :: "codec \<Rightarrow> ((u64 \<times> string) \<times> string) list \<Rightarrow> (ViewNumber, tc_set) btree_map
    \<Rightarrow> (ViewNumber, tc_set) btree_map exec" where
  "recover_tcs K [] m = Return m"
| "recover_tcs K (((view, _), json) # rows) m =
     exec_bind (exec_of_option UnwrapNone (tc_from_json K json)) (\<lambda>tc.
       let (tcs, m1) = bt_entry_or view [] m
       in recover_tcs K rows (bt_insert view (tc_set_insert tc tcs) m1))"

definition recover_tc_map :: "codec \<Rightarrow> db \<Rightarrow> (ViewNumber, tc_set) btree_map exec" where
  "recover_tc_map K d = recover_tcs K (t_partial_tc d) []"

definition node_or_init :: "codec \<Rightarrow> crypto \<Rightarrow> u64 \<Rightarrow> db \<Rightarrow> TreeNode exec" where
  "node_or_init K C view d =
     (if view > 0 then exec_bind (get_one_node_by_view K C view d) (\<lambda>(_, n). Return n) else Return (INIT_NODE C))"

definition recover_hotstuff_state :: "codec \<Rightarrow> crypto \<Rightarrow> db \<Rightarrow> InMemoryState exec" where
  "recover_hotstuff_state K C d =
     (case t_hotstuff_state d of
        [] \<Rightarrow> Panic UnwrapNone
      | (token, row) # _ \<Rightarrow>
          exec_bind (node_or_init K C (sr_leaf_view row) d) (\<lambda>leaf.
          exec_bind (node_or_init K C (sr_locked_view row) d) (\<lambda>b_locked.
          exec_bind (node_or_init K C (sr_executed_view row) d) (\<lambda>last_commit.
            Return \<lparr>st_token = token, st_leaf = leaf, st_qc_high = justify leaf,
              st_vheight = sr_last_voted_view row, st_current_view = sr_current_view row,
              st_committed_height = sr_committed_view row, st_last_commit = last_commit,
              st_b_locked = b_locked\<rparr>))))"

text \<open>lib.rs, \<open>HotstuffStorage::recover\<close>.\<close>

definition HotstuffStorage_recover :: "codec \<Rightarrow> crypto \<Rightarrow> string \<Rightarrow> string \<Rightarrow> db \<Rightarrow> HotstuffStorage exec" where
  "HotstuffStorage_recover K C token addr d =
     exec_bind (recover_hotstuff_config d) (\<lambda>conf.
     exec_bind (recover_in_mem_queue K C d) (\<lambda>in_mem_queue.
     exec_bind (recover_hotstuff_state K C d) (\<lambda>state.
     exec_bind (recover_tc_map K d) (\<lambda>tc_map.
     exec_bind (recover_signaturer K token d) (\<lambda>signaturer.
       Return \<lparr>hs_backend = Some (MySQLStorage_new addr), hs_state = state, hs_conf = conf,
         hs_signaturer = signaturer, hs_in_mem_queue = in_mem_queue, hs_tc_map = tc_map,
         hs_new_view_set = [], hs_combined_tc_queue = [], hs_partial_tc_queue = [],
         hs_prop_queue = [], hs_justify_queue = [], hs_dirty = False\<rparr>)))))"

text \<open>lib.rs, \<open>init\<close> and \<open>init_hotstuff_storage\<close>: a store with a database.\<close>

definition hss_init :: "codec \<Rightarrow> HotstuffStorage \<Rightarrow> db \<Rightarrow> (HotstuffStorage \<times> db) exec" where
  "hss_init K s d =
     (case hs_backend s of
        None \<Rightarrow> Return (s, d)
      | Some b \<Rightarrow> exec_bind (MySQLStorage_init K (hs_conf s) (hs_signaturer s) b d) (\<lambda>(b1, d1).
          Return (s\<lparr>hs_backend := Some b1\<rparr>, d1)))"

definition init_hotstuff_storage ::
    "codec \<Rightarrow> crypto \<Rightarrow> string \<Rightarrow> usize \<Rightarrow> TreeNode \<Rightarrow> NodeHash \<Rightarrow> ReplicaID \<Rightarrow> (ReplicaID, string) hash_map
       \<Rightarrow> string \<Rightarrow> DefaultSignaturer \<Rightarrow> db \<Rightarrow> (HotstuffStorage \<times> db) exec" where
  "init_hotstuff_storage K C token n init_node init_node_hash self_id peers_addr mysql_addr sg d =
     (let backend = Some (MySQLStorage_new mysql_addr);
          conf = \<lparr>cf_token = token, cf_total = n, cf_replica_id = self_id, cf_peers_addr = peers_addr\<rparr>;
          hss = HotstuffStorage_new token (INIT_NODE C) (INIT_QC C) conf sg backend
      in exec_bind (hss_init K hss d) (\<lambda>(hss1, d1).
           Return (hss1\<lparr>hs_in_mem_queue := hm_insert init_node_hash init_node (hs_in_mem_queue hss1)\<rparr>, d1)))"

end
