(* ===== verification/HssJournal.thy ===== *)
theory HssJournal
  imports HssStorage ToyCrypto "HOL-Library.Sublist"
begin

section \<open>hss, lib.rs: what reaches the writer\<close>

text \<open>
  The documentation of \<open>HotstuffStorage\<close> promises that no proposal and no certificate is lost
  once received. This theory states the part of the promise the in-memory store keeps: along
  every sequence of calls of its two traits, each proposal, certificate and timeout certificate
  that enters the store stays, in order, in the queue of unsent data or in a task already handed
  to the writer, and unsent data always marks the store dirty, so that the next flush sends it.
\<close>

text \<open>Every operation of the two traits that writes, as one step.\<close>

datatype storage_op =
    OpFlush
  | OpAppendNode TreeNode
  | OpAppendQc GenericQC
  | OpUpdateQcHigh TreeNode GenericQC
  | OpUpdateLeaf TreeNode
  | OpUpdateLocked TreeNode
  | OpIncreaseView ViewNumber
  | OpCommit TreeNode
  | OpUpdateVheight ViewNumber
  | OpAppendTc TimeoutCertificate
  | OpLsUpdateQcHigh TreeNode GenericQC
  | OpNewView ViewNumber ReplicaID GenericQC
  | OpCleanNewViewSet ViewNumber

fun storage_step :: "crypto \<Rightarrow> storage_op \<Rightarrow> HotstuffStorage \<Rightarrow> HotstuffStorage exec" where
  "storage_step C OpFlush s = exec_bind (hss_ls_flush s) (\<lambda>(t, _). Return t)"
| "storage_step C (OpAppendNode n) s = Return (hss_append_new_node C n s)"
| "storage_step C (OpAppendQc qc) s = Return (hss_append_new_qc qc s)"
| "storage_step C (OpUpdateQcHigh n qc) s = Return (hss_update_qc_high C n qc s)"
| "storage_step C (OpUpdateLeaf n) s = Return (hss_update_leaf C n s)"
| "storage_step C (OpUpdateLocked n) s = Return (hss_update_locked_node n s)"
| "storage_step C (OpIncreaseView v) s = Return (hss_increase_view v s)"
| "storage_step C (OpCommit n) s = Return (hss_commit n s)"
| "storage_step C (OpUpdateVheight v) s = Return (snd (hss_update_vheight v s))"
| "storage_step C (OpAppendTc tc) s = Return (fst (hss_append_tc C tc s))"
| "storage_step C (OpLsUpdateQcHigh n qc) s = Return (fst (hss_ls_update_qc_high C n qc s))"
| "storage_step C (OpNewView v r qc) s = Return (snd (hss_new_view_set v (hm_insert r qc) s))"
| "storage_step C (OpCleanNewViewSet v) s = Return (hss_clean_new_view_set v s)"

fun task_data :: "FlushTask \<Rightarrow> DirtyData" where
  "task_data (Async d) = d"
| "task_data (Sync d) = d"

definition sent :: "HotstuffStorage \<Rightarrow> DirtyData list" where
  "sent s = (case hs_backend s of None \<Rightarrow> [] | Some b \<Rightarrow> map task_data (my_channel b))"

text \<open>What was handed over, followed by what waits, for each kind of data.\<close>

definition prop_journal :: "HotstuffStorage \<Rightarrow> TreeNode list" where
  "prop_journal s = concat (map dd_prop_queue (sent s)) @ hs_prop_queue s"

definition justify_journal :: "HotstuffStorage \<Rightarrow> GenericQC list" where
  "justify_journal s = concat (map dd_justify_queue (sent s)) @ hs_justify_queue s"

definition tc_journal :: "HotstuffStorage \<Rightarrow> TimeoutCertificate list" where
  "tc_journal s = concat (map dd_partial_tc_queue (sent s)) @ hs_partial_tc_queue s"

definition combined_tc_journal :: "HotstuffStorage \<Rightarrow> TimeoutCertificate list" where
  "combined_tc_journal s = concat (map dd_combined_tc_queue (sent s)) @ hs_combined_tc_queue s"

lemmas journal_defs = prop_journal_def justify_journal_def tc_journal_def combined_tc_journal_def

text \<open>The writer of the backend, if there is a backend, has not ended.\<close>

definition writer_alive :: "HotstuffStorage \<Rightarrow> bool" where
  "writer_alive s \<longleftrightarrow> (case hs_backend s of None \<Rightarrow> True | Some b \<Rightarrow> my_receiver b \<noteq> Dropped)"

definition unsent :: "HotstuffStorage \<Rightarrow> bool" where
  "unsent s \<longleftrightarrow> hs_prop_queue s \<noteq> [] \<or> hs_justify_queue s \<noteq> [] \<or> hs_partial_tc_queue s \<noteq> []
     \<or> hs_combined_tc_queue s \<noteq> []"

definition journal_inv :: "HotstuffStorage \<Rightarrow> bool" where
  "journal_inv s \<longleftrightarrow> writer_alive s \<and> (unsent s \<longrightarrow> hs_dirty s)"

text \<open>The journals of \<open>t\<close> continue those of \<open>s\<close>, and what \<open>t\<close> stores beyond \<open>s\<close> is in its journal.\<close>

definition journalled :: "HotstuffStorage \<Rightarrow> HotstuffStorage \<Rightarrow> bool" where
  "journalled s t \<longleftrightarrow>
     prefix (prop_journal s) (prop_journal t) \<and> prefix (justify_journal s) (justify_journal t)
     \<and> prefix (tc_journal s) (tc_journal t) \<and> prefix (combined_tc_journal s) (combined_tc_journal t)
     \<and> snd ` set (hs_in_mem_queue t) \<subseteq> snd ` set (hs_in_mem_queue s) \<union> set (prop_journal t)"

lemma journalled_refl: "journalled s s"
  by (auto simp: journalled_def)

lemma journalled_trans [trans]:
  assumes "journalled s t" and "journalled t u"
  shows "journalled s u"
proof -
  have "set (prop_journal t) \<subseteq> set (prop_journal u)"
    using assms(2) by (simp add: journalled_def set_mono_prefix)
  then have "snd ` set (hs_in_mem_queue u) \<subseteq> snd ` set (hs_in_mem_queue s) \<union> set (prop_journal u)"
    using assms unfolding journalled_def by blast
  with assms show ?thesis unfolding journalled_def by (blast intro: prefix_order.trans)
qed

lemma hm_insert_values: "snd ` set (hm_insert k v m) \<subseteq> insert v (snd ` set m)"
  by (induction m) (auto simp: hm_insert_def)

text \<open>An operation that only appends to the queues, and files only what it queues.\<close>

lemma journalled_appends:
  assumes "hs_backend t = hs_backend s" and "hs_prop_queue t = hs_prop_queue s @ ps"
    and "hs_justify_queue t = hs_justify_queue s @ qs"
    and "hs_partial_tc_queue t = hs_partial_tc_queue s @ ts"
    and "hs_combined_tc_queue t = hs_combined_tc_queue s @ cs"
    and "snd ` set (hs_in_mem_queue t) \<subseteq> snd ` set (hs_in_mem_queue s) \<union> set ps"
  shows "journalled s t"
  using assms by (auto simp: journalled_def journal_defs sent_def prefix_def)

definition queues_unchanged :: "HotstuffStorage \<Rightarrow> HotstuffStorage \<Rightarrow> bool" where
  "queues_unchanged s t \<longleftrightarrow> hs_backend t = hs_backend s \<and> hs_prop_queue t = hs_prop_queue s
     \<and> hs_justify_queue t = hs_justify_queue s \<and> hs_partial_tc_queue t = hs_partial_tc_queue s
     \<and> hs_combined_tc_queue t = hs_combined_tc_queue s \<and> hs_in_mem_queue t = hs_in_mem_queue s"

lemma queues_unchanged_journalled: "queues_unchanged s t \<Longrightarrow> journalled s t"
  by (rule journalled_appends [of t s "[]" "[]" "[]" "[]"]) (auto simp: queues_unchanged_def)

lemma journalled_set_dirty: "journalled s t \<Longrightarrow> journalled s (set_dirty t)"
  by (erule journalled_trans, rule queues_unchanged_journalled)
    (simp add: queues_unchanged_def set_dirty_def)

lemma flush_journalled:
  assumes "hss_ls_flush s = Return (t, r)" and "writer_alive s"
  shows "journalled s t"
proof (cases "hs_dirty s \<and> hs_backend s \<noteq> None")
  case False
  with assms(1) have "t = s"
    by (auto simp: hss_ls_flush_def async_flush_def split: option.splits)
  then show ?thesis by (simp add: journalled_refl)
next
  case True
  then obtain b where b: "hs_backend s = Some b" by auto
  let ?d = "\<lparr>dd_combined_tc_queue = hs_combined_tc_queue s, dd_partial_tc_queue = hs_partial_tc_queue s,
      dd_prop_queue = hs_prop_queue s, dd_justify_queue = hs_justify_queue s, dd_state = hs_state s\<rparr>"
  from True b assms obtain b' where b': "mysql_async_flush (Async ?d) b = Return b'"
      "my_channel b' = my_channel b @ [Async ?d]"
      and t: "t = reset_dirty (s\<lparr>hs_combined_tc_queue := [], hs_partial_tc_queue := [],
        hs_prop_queue := [], hs_justify_queue := [], hs_backend := Some b'\<rparr>)"
    by (auto simp: hss_ls_flush_def async_flush_def mysql_async_flush_def writer_alive_def
        exec_bind_eq_Return Let_def split: receiver.splits if_splits)
  then have "sent t = sent s @ [?d]"
    by (simp add: sent_def b reset_dirty_def)
  then show ?thesis
    by (auto simp: journalled_def journal_defs t reset_dirty_def)
qed

lemma journal_inv_flush:
  assumes "hss_ls_flush s = Return (t, r)" and "journal_inv s"
  shows "journal_inv t \<and> (hs_backend s \<noteq> None \<longrightarrow> \<not> unsent t)"
  using assms
  by (auto simp: journal_inv_def writer_alive_def unsent_def hss_ls_flush_def async_flush_def
      mysql_async_flush_def reset_dirty_def exec_bind_eq_Return Let_def
      split: receiver.splits if_splits option.splits)

lemma update_leaf_journalled: "journalled s (hss_update_leaf C n s)"
  by (rule journalled_appends [of _ s "[n]" "[]" "[]" "[]"])
    (use hm_insert_values [of "TreeNode_hash C n" n "hs_in_mem_queue s"] in
      \<open>auto simp: hss_update_leaf_def hss_insert_def set_dirty_def Let_def\<close>)

lemma append_new_node_journalled: "journalled s (hss_append_new_node C n s)"
  by (rule journalled_appends [of _ s "[n]" "[]" "[]" "[]"])
    (use hm_insert_values [of "TreeNode_hash C n" n "hs_in_mem_queue s"] in
      \<open>auto simp: hss_append_new_node_def hss_insert_def set_dirty_def Let_def\<close>)

lemma append_new_qc_journalled: "journalled s (hss_append_new_qc qc s)"
  by (rule journalled_appends [of _ s "[]" "[qc]" "[]" "[]"])
    (auto simp: hss_append_new_qc_def set_dirty_def)

lemma update_qc_high_journalled: "journalled s (hss_update_qc_high C n qc s)"
proof -
  let ?s1 = "s\<lparr>hs_state := (hs_state s)\<lparr>st_qc_high := qc\<rparr>\<rparr>"
  let ?s3 = "hss_append_new_qc qc (hss_update_leaf C n ?s1)"
  have "journalled s ?s1"
    by (rule queues_unchanged_journalled) (simp add: queues_unchanged_def)
  also have "journalled ?s1 (hss_update_leaf C n ?s1)" by (rule update_leaf_journalled)
  also have "journalled \<dots> ?s3" by (rule append_new_qc_journalled)
  finally have "journalled s (set_dirty ?s3)" by (rule journalled_set_dirty)
  then show ?thesis
    by (auto simp: hss_update_qc_high_def Let_def journalled_refl split: option.split)
qed

lemma compress_tc_queues:
  "\<exists>m cs. fst (compress_tc C s) =
     s\<lparr>hs_tc_map := m, hs_combined_tc_queue := hs_combined_tc_queue s @ cs\<rparr>"
proof (cases "list_max (map fst (filter (\<lambda>(_, tcs). length tcs \<ge> conf_threshold (hs_conf s)) (hs_tc_map s)))")
  case None
  then show ?thesis
    by (intro exI [of _ "hs_tc_map s"] exI [of _ "[]"]) (simp add: compress_tc_def)
next
  case (Some v)
  then show ?thesis
    by (intro exI [of _ "bt_remove v (hs_tc_map s)"]
        exI [of _ "case Option.bind (bt_get v (hs_tc_map s))
          (combine_time_certificates C (hs_signaturer s) [] v (st_qc_high (hs_state s)))
          of None \<Rightarrow> [] | Some ctc \<Rightarrow> [ctc]"])
      (simp add: compress_tc_def Let_def split: option.split)
qed

lemma compress_tc_journalled: "journalled s (fst (compress_tc C s))"
proof -
  obtain m cs where "fst (compress_tc C s) =
      s\<lparr>hs_tc_map := m, hs_combined_tc_queue := hs_combined_tc_queue s @ cs\<rparr>"
    using compress_tc_queues by blast
  then show ?thesis by (intro journalled_appends [of _ s "[]" "[]" "[]" cs]) auto
qed

definition queue_tc :: "TimeoutCertificate \<Rightarrow> HotstuffStorage \<Rightarrow> HotstuffStorage" where
  "queue_tc tc s = set_dirty (case tc_view_sign tc of
      Partial _ \<Rightarrow> s\<lparr>hs_partial_tc_queue := hs_partial_tc_queue s @ [tc]\<rparr>
    | Combined _ \<Rightarrow> s\<lparr>hs_combined_tc_queue := hs_combined_tc_queue s @ [tc]\<rparr>)"

lemma append_tc_split: "fst (hss_append_tc C tc s) = fst (compress_tc C (queue_tc tc s))"
  by (simp add: hss_append_tc_def queue_tc_def Let_def case_prod_unfold)

lemma queue_tc_journalled: "journalled s (queue_tc tc s)"
  by (rule journalled_appends [of _ s "[]" "[]" "case tc_view_sign tc of Partial _ \<Rightarrow> [tc] | _ \<Rightarrow> []"
        "case tc_view_sign tc of Combined _ \<Rightarrow> [tc] | _ \<Rightarrow> []"])
    (auto simp: queue_tc_def set_dirty_def split: SignType.split)

lemma append_tc_journalled: "journalled s (fst (hss_append_tc C tc s))"
  unfolding append_tc_split by (rule journalled_trans [OF queue_tc_journalled compress_tc_journalled])

lemma append_tc_dirty:
  "hs_dirty (fst (hss_append_tc C tc s))" "hs_backend (fst (hss_append_tc C tc s)) = hs_backend s"
proof -
  obtain m cs where "fst (hss_append_tc C tc s) =
      (queue_tc tc s)\<lparr>hs_tc_map := m, hs_combined_tc_queue := hs_combined_tc_queue (queue_tc tc s) @ cs\<rparr>"
    unfolding append_tc_split using compress_tc_queues by blast
  then show "hs_dirty (fst (hss_append_tc C tc s))" "hs_backend (fst (hss_append_tc C tc s)) = hs_backend s"
    by (simp_all add: queue_tc_def set_dirty_def split: SignType.split)
qed

lemmas op_journalled = update_leaf_journalled append_new_node_journalled append_new_qc_journalled
  update_qc_high_journalled append_tc_journalled

text \<open>Operations that leave the store dirty, with the backend as it was, keep the journal's invariant.\<close>

lemma journal_inv_dirty: "journal_inv s \<Longrightarrow> hs_backend t = hs_backend s \<Longrightarrow> hs_dirty t \<Longrightarrow> journal_inv t"
  by (simp add: journal_inv_def writer_alive_def)

lemma journal_inv_queues:
  "journal_inv s \<Longrightarrow> queues_unchanged s t \<Longrightarrow> hs_dirty t = hs_dirty s \<Longrightarrow> journal_inv t"
  by (simp add: journal_inv_def writer_alive_def unsent_def queues_unchanged_def)

lemma update_qc_high_journal_inv: "journal_inv s \<Longrightarrow> journal_inv (hss_update_qc_high C n qc s)"
  by (auto simp: hss_update_qc_high_def Let_def split: option.split
      intro!: journal_inv_dirty [of s]
      simp: set_dirty_def hss_append_new_qc_def hss_update_leaf_def hss_insert_def)

lemma writers_dirty:
  "hs_dirty (hss_append_new_node C n s)" "hs_backend (hss_append_new_node C n s) = hs_backend s"
  "hs_dirty (hss_append_new_qc qc s)" "hs_backend (hss_append_new_qc qc s) = hs_backend s"
  "hs_dirty (hss_update_leaf C n s)" "hs_backend (hss_update_leaf C n s) = hs_backend s"
  "hs_dirty (hss_update_locked_node n s)" "hs_backend (hss_update_locked_node n s) = hs_backend s"
  "hs_dirty (hss_increase_view v s)" "hs_backend (hss_increase_view v s) = hs_backend s"
  "hs_dirty (snd (hss_update_vheight v s))" "hs_backend (snd (hss_update_vheight v s)) = hs_backend s"
  by (simp_all add: hss_append_new_node_def hss_append_new_qc_def hss_update_leaf_def hss_insert_def
      hss_update_locked_node_def hss_increase_view_def hss_update_vheight_def set_dirty_def Let_def)

lemma state_ops_journalled:
  "journalled s (hss_update_locked_node n s)" "journalled s (hss_increase_view v s)"
  "journalled s (snd (hss_update_vheight v s))"
  by (rule queues_unchanged_journalled, simp add: queues_unchanged_def hss_update_locked_node_def
      hss_increase_view_def hss_update_vheight_def set_dirty_def)+

lemma storage_step_journal:
  assumes "storage_step C op s = Return t" and "journal_inv s"
  shows "journal_inv t \<and> journalled s t"
proof (cases op)
  case OpFlush
  with assms obtain r where "hss_ls_flush s = Return (t, r)"
    by (auto simp: exec_bind_eq_Return)
  with assms(2) show ?thesis
    using flush_journalled journal_inv_flush by (auto simp: journal_inv_def)
next
  case (OpUpdateQcHigh n qc)
  with assms show ?thesis by (auto simp: op_journalled update_qc_high_journal_inv)
next
  case (OpLsUpdateQcHigh n qc)
  with assms show ?thesis
    using update_qc_high_journalled [of s C n qc] update_qc_high_journal_inv [of s C n qc]
    by (auto simp: hss_ls_update_qc_high_def set_dirty_def
        intro: journal_inv_dirty journalled_set_dirty [unfolded set_dirty_def])
next
  case (OpAppendTc tc)
  with assms show ?thesis
    by (auto simp: op_journalled append_tc_dirty intro: journal_inv_dirty)
next
  case (OpNewView v r qc)
  with assms show ?thesis
    by (auto simp: hss_new_view_set_def Let_def case_prod_unfold queues_unchanged_def
        intro!: queues_unchanged_journalled journal_inv_queues [of s])
next
  case (OpCleanNewViewSet v)
  with assms show ?thesis
    by (auto simp: hss_clean_new_view_set_def queues_unchanged_def
        intro!: queues_unchanged_journalled journal_inv_queues [of s])
next
  case (OpCommit n)
  with assms show ?thesis
    by (auto simp: hss_commit_def set_dirty_def queues_unchanged_def journal_inv_def writer_alive_def
        journalled_refl intro!: queues_unchanged_journalled)
qed (use assms in \<open>auto simp: op_journalled state_ops_journalled writers_dirty intro: journal_inv_dirty\<close>)

interpretation journal: monotone_system "storage_step C" journal_inv journalled for C
  by unfold_locales
    (auto dest: storage_step_journal intro: journalled_refl journalled_trans)

subsection \<open>Properties\<close>


definition toy_journal_store :: HotstuffStorage where
  "toy_journal_store = HotstuffStorage_new ''t'' (INIT_NODE toy) (INIT_QC toy)
     \<lparr>cf_token = ''t'', cf_total = 4, cf_replica_id = ''a'', cf_peers_addr = []\<rparr> (toy_signaturer 0)
     (Some ((MySQLStorage_new ''mysql'')\<lparr>my_receiver := Running\<rparr>))"

lemma toy_journal_inv: "journal_inv toy_journal_store"
  by (simp add: journal_inv_def toy_journal_store_def HotstuffStorage_new_def writer_alive_def unsent_def)


text \<open>A flush that returns succeeds, hands everything queued to the writer with the present
  state, and changes nothing else: the journals, the in-memory proposals, the state and the
  view sets are those of before.\<close>

lemma flush_hands_over:
  assumes "journal_inv s" and "hs_backend s \<noteq> None" and "hss_ls_flush s = Return (t, r)"
  shows "r = Inr () \<and> \<not> unsent t \<and> hs_state t = hs_state s
    \<and> hs_in_mem_queue t = hs_in_mem_queue s \<and> hs_new_view_set t = hs_new_view_set s
    \<and> prop_journal t = prop_journal s \<and> justify_journal t = justify_journal s
    \<and> (hs_dirty s \<longrightarrow> dd_state (last (sent t)) = hs_state s)"
proof -
  obtain r' where fl: "async_flush s = Return (t, r')" and r: "r = Inr ()"
    using assms(3) async_flush_frame(6) [of s t] by (auto simp: hss_ls_flush_def exec_bind_eq_Return)
  have "\<not> unsent t" using journal_inv_flush [OF assms(3,1)] assms(2) by blast
  moreover have "prop_journal t = prop_journal s \<and> justify_journal t = justify_journal s
      \<and> (hs_dirty s \<longrightarrow> dd_state (last (sent t)) = hs_state s)"
    using fl assms(1,2)
    by (auto simp: async_flush_def mysql_async_flush_def journal_inv_def writer_alive_def reset_dirty_def
        prop_journal_def justify_journal_def sent_def exec_bind_eq_Return Let_def
        split: if_splits option.splits receiver.splits)
  ultimately show ?thesis using r async_flush_frame [OF fl] by simp
qed

lemma flush_hands_over_example:
  "\<exists>t r. hss_ls_flush (hss_append_new_node toy (toy_block 1 (toy_hash_of 0) 0) toy_journal_store)
      = Return (t, r) \<and> r = Inr () \<and> \<not> unsent t \<and> prop_journal t = [toy_block 1 (toy_hash_of 0) 0]"
proof -
  let ?s = "hss_append_new_node toy (toy_block 1 (toy_hash_of 0) 0) toy_journal_store"
  have inv: "journal_inv ?s" and b: "hs_backend ?s \<noteq> None"
      and j: "prop_journal ?s = [toy_block 1 (toy_hash_of 0) 0]"
    using toy_journal_inv
    by (simp_all add: journal_inv_def writer_alive_def hss_append_new_node_def hss_insert_def set_dirty_def
        Let_def prop_journal_def sent_def toy_journal_store_def HotstuffStorage_new_def MySQLStorage_new_def)
  obtain t r where f: "hss_ls_flush ?s = Return (t, r)"
    by (auto simp: hss_ls_flush_def async_flush_def mysql_async_flush_def hss_append_new_node_def
        hss_insert_def set_dirty_def Let_def toy_journal_store_def HotstuffStorage_new_def MySQLStorage_new_def)
  show ?thesis using flush_hands_over [OF inv b f] f j by auto
qed

subsection \<open>Timeout certificates are queued but never collected\<close>

lemma storage_step_tc_map:
  assumes "storage_step C op s = Return t" and "hs_tc_map s = []"
  shows "hs_tc_map t = []"
proof (cases op)
  case OpFlush
  with assms obtain r where "async_flush s = Return (t, r)"
    by (auto simp: exec_bind_eq_Return hss_ls_flush_def)
  then show ?thesis using assms(2) async_flush_frame(5) by metis
next
  case (OpAppendTc tc)
  with assms have "t = fst (compress_tc C (queue_tc tc s))" by (simp add: append_tc_split)
  moreover have "hs_tc_map (queue_tc tc s) = []"
    using assms(2) by (simp add: queue_tc_def set_dirty_def split: SignType.split)
  ultimately show ?thesis by (simp add: compress_tc_frame(6) [OF surjective_pairing])
qed (use assms in \<open>auto simp: hss_effects hss_ls_update_qc_high_def new_view_set_effect
    hss_clean_new_view_set_def set_dirty_def\<close>)

interpretation no_tc: invariant_system "storage_step C" "\<lambda>s. hs_tc_map s = []" for C
  by unfold_locales (rule storage_step_tc_map)

text \<open>C32: no number of timeout messages advances a view. \<open>append_tc\<close> only queues a certificate for
  the writer and never files it by view, so in every state that a store without certificates
  can reach no view has reached its threshold, and \<open>append_tc\<close> answers with the view before
  the current one.\<close>

theorem timeouts_never_reach_threshold:
  assumes "hs_tc_map s = []" and "run_exec (storage_step C) ops s = Return t"
  shows "\<not> hss_is_reach_threshold v t
    \<and> snd (hss_append_tc C tc t) = Inr (if hss_get_view t = 0 then 0 else hss_get_view t - 1)"
proof -
  have t: "hs_tc_map t = []" using no_tc.run_invar [OF assms] .
  obtain s3 r where c: "compress_tc C (queue_tc tc t) = (s3, r)" by fastforce
  have "hs_tc_map (queue_tc tc t) = []" "hs_state (queue_tc tc t) = hs_state t"
    using t by (simp_all add: queue_tc_def set_dirty_def split: SignType.split)
  then have "r = None" "hs_state s3 = hs_state t" using compress_tc_frame [OF c] by simp_all
  moreover have "hss_append_tc C tc t =
      (s3, Inr (case r of Some v \<Rightarrow> v | None \<Rightarrow> (if hss_get_view s3 = 0 then 0 else hss_get_view s3 - 1)))"
    using c by (simp add: hss_append_tc_def queue_tc_def Let_def)
  ultimately show ?thesis using t by (simp add: hss_is_reach_threshold_def hss_get_view_def)
qed

definition toy_tc :: "ReplicaID \<Rightarrow> TimeoutCertificate" where
  "toy_tc r = TimeoutCertificate_new r 5 (SignKit_new 0 (Sign [])) (INIT_QC toy)"

theorem timeouts_never_reach_threshold_witness:
  "\<exists>t. run_exec (storage_step toy) [OpAppendTc (toy_tc ''a''), OpAppendTc (toy_tc ''b''),
        OpAppendTc (toy_tc ''c''), OpAppendTc (toy_tc ''d'')] toy_journal_store = Return t
    \<and> \<not> hss_is_reach_threshold 5 t"
proof -
  obtain t where t: "run_exec (storage_step toy) [OpAppendTc (toy_tc ''a''), OpAppendTc (toy_tc ''b''),
        OpAppendTc (toy_tc ''c''), OpAppendTc (toy_tc ''d'')] toy_journal_store = Return t"
    by simp
  have "hs_tc_map toy_journal_store = []" by (simp add: toy_journal_store_def HotstuffStorage_new_def)
  then show ?thesis using timeouts_never_reach_threshold [OF _ t] t by blast
qed

end
