(* ===== verification/PersistProps.thy ===== *)
theory PersistProps
  imports Persistor HssJournal
begin

section \<open>hss: what survives a restart\<close>

text \<open>
  Properties of the writer and of recovery: rows once written stay, configuration and keys come
  back as they were, a flushed proposal is found again under its height with its content; and
  three ways in which recovery differs from what was stored.
\<close>

subsection \<open>A concrete codec\<close>

text \<open>An instance of the encodings for the examples: a byte as a character; a transaction as its
  bytes, each marked by 1, closed by 0.\<close>

fun toy_txs_parse :: "u8 list \<Rightarrow> u8 list \<Rightarrow> Txn list option" where
  "toy_txs_parse acc [] = (if acc = [] then Some [] else None)"
| "toy_txs_parse acc [x] = (if x = 0 then Some [Txn acc] else None)"
| "toy_txs_parse acc (x # b # xs) =
     (if x = 0 then map_option ((#) (Txn acc)) (toy_txs_parse [] (b # xs)) else toy_txs_parse (acc @ [b]) xs)"

definition toy_txs_print :: "Txn list \<Rightarrow> u8 list" where
  "toy_txs_print ts = concat (map (\<lambda>t. concat (map (\<lambda>b. [1, b]) (txn_bytes t)) @ [0]) ts)"

definition toy_codec :: codec where
  "toy_codec = \<lparr>b64_encode = map (\<lambda>b. char_of (unat b)), b64_decode = (\<lambda>s. Some (map (\<lambda>c. word_of_nat (of_char c)) s)),
     txs_to_json = toy_txs_print, txs_from_json = toy_txs_parse [],
     sign_type_to_json = (\<lambda>_. ''sign''), tc_from_json = (\<lambda>_. None),
     pk_to_json = (\<lambda>p. case p of PK b \<Rightarrow> b), pk_from_json = (\<lambda>b. Some (PK b)),
     sk_to_json = (\<lambda>s. case s of SK b \<Rightarrow> b), sk_from_json = (\<lambda>b. Some (SK b))\<rparr>"

lemma toy_txs_roundtrip: "toy_txs_parse [] (toy_txs_print ts) = Some ts"
proof (induction ts)
  case (Cons t ts)
  have bytes: "toy_txs_parse acc (concat (map (\<lambda>b. [1, b]) bs) @ 0 # rest)
      = map_option ((#) (Txn (acc @ bs))) (toy_txs_parse [] rest)" for acc bs rest
    by (induction bs arbitrary: acc) (cases rest, simp_all)+
  show ?case using bytes [of "[]"] Cons by (simp add: toy_txs_print_def)
qed (simp add: toy_txs_print_def)

lemma toy_codec_ok: "codec_ok toy_codec"
proof -
  have "(word_of_nat (of_char (char_of (unat b) :: char)) :: u8) = b" for b :: u8
  proof -
    have "unat b < 256" using unsigned_less [of b] by simp
    then show ?thesis by simp
  qed
  then show ?thesis
    by (simp add: codec_ok_def toy_codec_def toy_txs_roundtrip comp_def split: PK.split SK.split)
qed

definition toy_conf :: HotStuffConfig where
  "toy_conf = \<lparr>cf_token = ''token'', cf_total = 4, cf_replica_id = ''B'',
     cf_peers_addr = [(''B'', ''localhost:8001''), (''A'', ''localhost:8000'')]\<rparr>"

definition toy_state :: InMemoryState where
  "toy_state = hs_state (HotstuffStorage_new ''token'' (INIT_NODE toy) (INIT_QC toy) toy_conf (toy_signaturer 1) None)"

definition toy_data :: "TreeNode list \<Rightarrow> TimeoutCertificate list \<Rightarrow> DirtyData" where
  "toy_data ps tcs = \<lparr>dd_combined_tc_queue = [], dd_partial_tc_queue = tcs, dd_prop_queue = ps,
     dd_justify_queue = [], dd_state = toy_state\<rparr>"

subsection \<open>Tables under the writer's statements\<close>

lemma insert_ignore_get [map_simps]:
  "bt_get k' (insert_ignore k v m) = (if k' = k \<and> bt_get k m = None then Some v else bt_get k' m)"
  by (simp add: insert_ignore_def map_simps)

lemma insert_ignore_wf [map_simps, intro]: "bt_wf m \<Longrightarrow> bt_wf (insert_ignore k v m)"
  by (auto simp: insert_ignore_def)

text \<open>\<open>later_db d d'\<close>: \<open>d'\<close> has every proposal and certificate row of \<open>d\<close>, and the same configuration.\<close>

definition later_db :: "db \<Rightarrow> db \<Rightarrow> bool" where
  "later_db d d' \<longleftrightarrow> (\<forall>v r. bt_get v (t_proposal d) = Some r \<longrightarrow> bt_get v (t_proposal d') = Some r)
     \<and> (\<forall>v r. bt_get v (t_qc d) = Some r \<longrightarrow> bt_get v (t_qc d') = Some r)
     \<and> t_hotstuff_conf d' = t_hotstuff_conf d \<and> t_crypto d' = t_crypto d \<and> t_peers d' = t_peers d"

lemma later_db_refl [intro]: "later_db d d"
  by (simp add: later_db_def)

lemma later_db_trans: "later_db d d1 \<Longrightarrow> later_db d1 d2 \<Longrightarrow> later_db d d2"
  by (simp add: later_db_def)

lemma later_db_fold: "(\<And>x d. later_db d (f x d)) \<Longrightarrow> later_db d (fold f xs d)"
  by (induction xs arbitrary: d) (auto intro: later_db_trans)

lemma later_db_statements:
  "later_db d (flush_prop K C p d)" "later_db d (flush_justify K qc d)" "later_db d (flush_ptc K tc d)"
  "later_db d (flush_ctc K tc d)" "later_db d (flush_state st d)"
  by (auto simp: later_db_def flush_prop_def flush_justify_def flush_ptc_def flush_ctc_def flush_state_def
      map_simps Let_def)

lemma later_db_after_props:
  "later_db (fold (flush_prop K C) (dd_prop_queue data) d) (flusher_flush K C data d)"
  unfolding flusher_flush_def Let_def
  by (rule later_db_trans [OF later_db_fold later_db_trans [OF later_db_fold
        later_db_trans [OF later_db_fold]]]; rule later_db_statements)

lemma later_db_flush: "later_db d (flusher_flush K C data d)"
  by (rule later_db_trans [OF later_db_fold later_db_after_props]) (rule later_db_statements)

lemma later_db_run: "later_db d (flusher_run K C w tasks d)"
  by (induction K C w tasks d rule: flusher_run.induct)
    (auto simp: Let_def intro: later_db_trans [OF later_db_flush] later_db_flush)

text \<open>A proposal that was flushed has a row, and so has the certificate it is joined with.\<close>

definition has_rows :: "TreeNode \<Rightarrow> db \<Rightarrow> bool" where
  "has_rows p d \<longleftrightarrow> bt_get (height p) (t_proposal d) \<noteq> None \<and> bt_get (qc_view (justify p)) (t_qc d) \<noteq> None"

lemma has_rows_later: "has_rows p d \<Longrightarrow> later_db d d' \<Longrightarrow> has_rows p d'"
  unfolding has_rows_def later_db_def by blast

lemma flush_props_rows: "p \<in> set ps \<Longrightarrow> has_rows p (fold (flush_prop K C) ps d)"
proof (induction ps arbitrary: d)
  case (Cons q ps)
  show ?case
  proof (cases "p = q")
    case True
    have "has_rows q (flush_prop K C q d)" by (simp add: has_rows_def flush_prop_def map_simps Let_def)
    moreover have "later_db (flush_prop K C q d) (fold (flush_prop K C) ps (flush_prop K C q d))"
      by (rule later_db_fold, rule later_db_statements)
    ultimately show ?thesis using True has_rows_later by fastforce
  qed (use Cons in auto)
qed simp

lemma flush_rows:
  assumes "p \<in> set (dd_prop_queue data)"
  shows "has_rows p (flusher_flush K C data d)"
  by (rule has_rows_later [OF flush_props_rows [OF assms] later_db_after_props])

lemma flusher_run_rows:
  assumes "list_all (\<lambda>t. \<exists>data. t = Async data) tasks"
    and "Async data \<in> set tasks" and "p \<in> set (dd_prop_queue data)"
  shows "has_rows p (flusher_run K C waits tasks d)"
  using assms
proof (induction tasks arbitrary: d)
  case (Cons t ts)
  from Cons.prems(1) obtain x where t: "t = Async x" by auto
  show ?case
  proof (cases "x = data")
    case True
    then show ?thesis
      using t flush_rows [OF Cons.prems(3)] later_db_run has_rows_later by fastforce
  qed (use Cons t in auto)
qed simp

text \<open>C25: rows are durable. Whatever tasks the writer handles, a proposal or certificate row once in
  the database is never changed or removed, the configuration and key tables are not touched,
  and every proposal of an asynchronous task has a row under its height and a certificate row
  to join it with.\<close>

theorem writer_keeps_rows:
  assumes "list_all (\<lambda>t. \<exists>data. t = Async data) tasks"
  shows "later_db d (flusher_run K C waits tasks d)
    \<and> (\<forall>data p. Async data \<in> set tasks \<and> p \<in> set (dd_prop_queue data) \<longrightarrow>
          has_rows p (flusher_run K C waits tasks d))"
  using later_db_run flusher_run_rows [OF assms] by blast

theorem writer_keeps_rows_witness:
  "has_rows (toy_block 1 (toy_hash_of 0) 0)
     (flusher_run toy_codec toy (\<lambda>_. True) [Async (toy_data [toy_block 1 (toy_hash_of 0) 0] [])] create_tables)"
  using writer_keeps_rows [of "[Async (toy_data [toy_block 1 (toy_hash_of 0) 0] [])]" create_tables
      toy_codec toy "\<lambda>_. True"] by (simp add: toy_data_def)

subsection \<open>Configuration and keys\<close>

lemma fold_bt_insert:
  "distinct (map fst xs) \<Longrightarrow> bt_get k (fold (\<lambda>(i, a). bt_insert i a) xs m)
     = (case map_of xs k of None \<Rightarrow> bt_get k m | Some a \<Rightarrow> Some a)"
proof (induction xs arbitrary: m)
  case (Cons x xs)
  have "map_of xs (fst x) = None" using Cons.prems by (simp add: map_of_eq_None_iff)
  then show ?case using Cons by (cases "k = fst x") (simp_all add: map_simps split_beta split: option.split)
qed simp

lemma fold_bt_insert_wf: "bt_wf m \<Longrightarrow> bt_wf (fold (\<lambda>(i, a). bt_insert i a) xs m)"
  by (induction xs arbitrary: m) auto

lemma fold_hm_insert:
  "distinct (map fst xs) \<Longrightarrow> hm_get k (fold (\<lambda>(i, a). hm_insert i a) xs m)
     = (case map_of xs k of None \<Rightarrow> hm_get k m | Some a \<Rightarrow> Some a)"
proof (induction xs arbitrary: m)
  case (Cons x xs)
  have "map_of xs (fst x) = None" using Cons.prems by (simp add: map_of_eq_None_iff)
  then show ?case using Cons by (cases "k = fst x") (simp_all add: map_simps split_beta split: option.split)
qed simp

text \<open>Configuration and keys survive. After a fresh database was written and any tasks were
  handled, recovery reads back the token, the number of replicas, the replica's id, the address
  of every peer, and the key material, all as they were.\<close>

lemma config_roundtrip:
  assumes "codec_ok K" and "persist_other_msg K conf sg = Return d" and "hm_wf (cf_peers_addr conf)"
    and "cf_total conf < 2 ^ 64" and "sg_sign_id sg < 2 ^ 64"
  shows "\<exists>conf'. recover_hotstuff_config (flusher_run K C waits tasks d) = Return conf'
    \<and> cf_token conf' = cf_token conf \<and> cf_total conf' = cf_total conf
    \<and> cf_replica_id conf' = cf_replica_id conf
    \<and> (\<forall>r. hm_get r (cf_peers_addr conf') = hm_get r (cf_peers_addr conf))
    \<and> recover_signaturer K (cf_token conf) (flusher_run K C waits tasks d) = Return sg"
proof -
  let ?d = "flusher_run K C waits tasks d"
  have same: "t_hotstuff_conf ?d = t_hotstuff_conf d" "t_crypto ?d = t_crypto d" "t_peers ?d = t_peers d"
    using later_db_run [of d K C waits tasks] by (simp_all add: later_db_def)
  obtain addr where d: "d = create_tables\<lparr>t_peers := fold (\<lambda>(i, a). bt_insert i a) (cf_peers_addr conf) [],
      t_hotstuff_conf := [(cf_token conf,
        \<lparr>cr_total = of_nat (cf_total conf), cr_self_addr = addr, cr_self_id = cf_replica_id conf\<rparr>)],
      t_crypto := [(cf_token conf, \<lparr>yr_pk_set = pk_to_json K (sg_pks sg), yr_sk_share = sk_to_json K (sg_sks sg),
        yr_sk_id = of_nat (sg_sign_id sg)\<rparr>)]\<rparr>"
    using assms(2) by (auto simp: persist_other_msg_def exec_bind_eq_Return create_tables_def Let_def)
  have peers: "t_peers d = fold (\<lambda>(i, a). bt_insert i a) (cf_peers_addr conf) []" by (simp add: d)
  have wf: "bt_wf (t_peers d)" unfolding peers by (rule fold_bt_insert_wf) simp
  have "hm_get r (fold (\<lambda>(i, a). hm_insert i a) (t_peers d) []) = bt_get r (t_peers d)" for r
    using wf by (subst fold_hm_insert) (auto simp: bt_wf_def bt_get_def split: option.split)
  moreover have "bt_get r (t_peers d) = hm_get r (cf_peers_addr conf)" for r
    unfolding peers using assms(3)
    by (subst fold_bt_insert) (auto simp: hm_wf_def hm_get_def split: option.split)
  ultimately have pa: "hm_get r (fold (\<lambda>(i, a). hm_insert i a) (t_peers d) []) = hm_get r (cf_peers_addr conf)" for r
    by simp
  have "unat (of_nat (cf_total conf) :: u64) = cf_total conf" "unat (of_nat (sg_sign_id sg) :: u64) = sg_sign_id sg"
    using assms(4,5) by (simp_all add: unat_of_nat)
  moreover have "t_hotstuff_conf d = [(cf_token conf,
        \<lparr>cr_total = of_nat (cf_total conf), cr_self_addr = addr, cr_self_id = cf_replica_id conf\<rparr>)]"
      "t_crypto d = [(cf_token conf, \<lparr>yr_pk_set = pk_to_json K (sg_pks sg), yr_sk_share = sk_to_json K (sg_sks sg),
        yr_sk_id = of_nat (sg_sign_id sg)\<rparr>)]"
    by (simp_all add: d)
  ultimately show ?thesis
    using assms(1) pa
    by (simp add: recover_hotstuff_config_def recover_signaturer_def same codec_ok_def bt_get_def)
qed

lemma config_roundtrip_example:
  "\<exists>d conf'. persist_other_msg toy_codec toy_conf (toy_signaturer 1) = Return d
    \<and> recover_hotstuff_config (flusher_run toy_codec toy (\<lambda>_. True) [Async (toy_data [] [])] d) = Return conf'
    \<and> hm_get ''A'' (cf_peers_addr conf') = Some ''localhost:8000''"
proof -
  obtain d where d: "persist_other_msg toy_codec toy_conf (toy_signaturer 1) = Return d"
    by (simp add: persist_other_msg_def toy_conf_def hm_get_def Let_def)
  have "hm_wf (cf_peers_addr toy_conf)" "cf_total toy_conf < 2 ^ 64" "sg_sign_id (toy_signaturer 1) < 2 ^ 64"
      "hm_get ''A'' (cf_peers_addr toy_conf) = Some ''localhost:8000''"
    by (simp_all add: toy_conf_def hm_wf_def hm_get_def toy_signaturer_def DefaultSignaturer_new_def)
  with d show ?thesis
    using config_roundtrip [OF toy_codec_ok d, of toy "\<lambda>_. True" "[Async (toy_data [] [])]"] by auto
qed

subsection \<open>Proposals\<close>

lemma filter_by_key:
  "bt_wf m \<Longrightarrow> filter (\<lambda>(k', _). k' = k) m = (case bt_get k m of None \<Rightarrow> [] | Some v \<Rightarrow> [(k, v)])"
proof (induction m)
  case (Cons x m)
  obtain k1 v1 where x: "x = (k1, v1)" by (cases x)
  have d: "k1 \<notin> fst ` set m" and wf: "bt_wf m"
    using Cons.prems by (auto simp: bt_wf_def x)
  have "filter (\<lambda>(k', _). k' = k1) m = []" using d by (force simp: filter_empty_conv)
  with Cons.IH [OF wf] show ?case by (auto simp: x bt_get_def split: option.split)
qed (simp add: bt_get_def)

lemma map_filter_keys:
  "(\<And>k v y. f (k, v) = Some y \<Longrightarrow> fst y = k)
   \<Longrightarrow> filter (\<lambda>(k', _). k' = k) (List.map_filter f m) = List.map_filter f (filter (\<lambda>(k', _). k' = k) m)"
  by (induction m) (fastforce simp: List.map_filter_def split: option.split)+

text \<open>The row a select by view finds is the row of the view, joined with its certificate row.\<close>

lemma joined_rows_at:
  assumes "bt_wf (t_proposal d)" and "bt_get v (t_proposal d) = Some pr"
    and "bt_get (pr_justify_view pr) (t_qc d) = Some qr"
  shows "filter (\<lambda>(k, _). k = v) (joined_rows d) = [(v, pr, pr_justify_view pr, qr)]"
proof -
  have "filter (\<lambda>(k, _). k = v) (joined_rows d)
      = List.map_filter (\<lambda>(view, pr). case bt_get (pr_justify_view pr) (t_qc d) of
         None \<Rightarrow> None | Some qr \<Rightarrow> Some (view, pr, pr_justify_view pr, qr))
         (filter (\<lambda>(k, _). k = v) (t_proposal d))"
    unfolding joined_rows_def by (rule map_filter_keys) (auto split: option.splits)
  then show ?thesis using assms by (simp add: filter_by_key List.map_filter_def)
qed

definition decodable :: "crypto \<Rightarrow> CombinedSign \<Rightarrow> bool" where
  "decodable C sg \<longleftrightarrow> length (sign_bytes sg) = 96 \<and> signature_from_bytes C (sign_bytes sg) = Some sg"

lemma map_row_of_flushed:
  assumes "codec_ok K" and "length (node_hash_bytes h) = 32" and "length (node_hash_bytes par) = 32"
    and "decodable C sg"
  shows "map_row_to_proposal K C (v,
      \<lparr>pr_parent_hash = b64_encode K (node_hash_bytes par), pr_justify_view = jv,
       pr_prop_hash = ph, pr_txn = txs_to_json K ts\<rparr>, jv,
      \<lparr>qr_node_hash = b64_encode K (node_hash_bytes h), qr_combined_sign = b64_encode K (sign_bytes sg)\<rparr>)
    = Return (h, \<lparr>height = v, txs = ts, parent = par, justify = GenericQC_new v h sg\<rparr>)"
  using assms
  by (simp add: map_row_to_proposal_def codec_ok_def decodable_def combined_sign_from_vec_u8_def
      NodeHash_from_vec_bytes)

lemma recovered_after_flush:
  assumes K: "codec_ok K" and p: "length (node_hash_bytes (TreeNode_hash C p)) = 32"
      "length (node_hash_bytes (parent p)) = 32" "decodable C (qc_combined_sign (justify p))"
    and wf: "bt_wf (t_proposal d)" "bt_wf (t_proposal d')"
    and new: "bt_get (height p) (t_proposal d) = None" "bt_get (qc_view (justify p)) (t_qc d) = None"
    and later: "later_db (flush_prop K C p d) d'"
  shows "get_one_node_by_view K C (height p) d' = Return (TreeNode_hash C p,
    p\<lparr>justify := GenericQC_new (height p) (TreeNode_hash C p) (qc_combined_sign (justify p))\<rparr>)"
proof -
  let ?pr = "\<lparr>pr_parent_hash = b64_encode K (node_hash_bytes (parent p)), pr_justify_view = qc_view (justify p),
      pr_prop_hash = b64_encode K (node_hash_bytes (TreeNode_hash C p)), pr_txn = txs_to_json K (txs p)\<rparr>"
  let ?qr = "\<lparr>qr_node_hash = b64_encode K (node_hash_bytes (TreeNode_hash C p)),
      qr_combined_sign = b64_encode K (sign_bytes (qc_combined_sign (justify p)))\<rparr>"
  have "bt_get (height p) (t_proposal (flush_prop K C p d)) = Some ?pr"
      "bt_get (qc_view (justify p)) (t_qc (flush_prop K C p d)) = Some ?qr"
    using new by (simp_all add: flush_prop_def Let_def insert_ignore_get)
  then have "bt_get (height p) (t_proposal d') = Some ?pr" "bt_get (qc_view (justify p)) (t_qc d') = Some ?qr"
    using later by (simp_all add: later_db_def)
  then have "filter (\<lambda>(k, _). k = height p) (joined_rows d') = [(height p, ?pr, qc_view (justify p), ?qr)]"
    using joined_rows_at [OF wf(2), of "height p" ?pr ?qr] by simp
  then show ?thesis
    using map_row_of_flushed [OF K p(1,2,3)] by (simp add: get_one_node_by_view_def)
qed

lemma proposal_table_wf:
  "bt_wf (t_proposal d) \<Longrightarrow> bt_wf (t_proposal (flusher_flush K C data d))"
proof -
  assume wf: "bt_wf (t_proposal d)"
  have "bt_wf (t_proposal (flush_prop K C p e))" if "bt_wf (t_proposal e)" for p e
    using that by (simp add: flush_prop_def Let_def insert_ignore_wf)
  with wf have "bt_wf (t_proposal (fold (flush_prop K C) ps d))" for ps
    by (induction ps arbitrary: d) simp_all
  moreover have "t_proposal (fold (flush_justify K) qs e) = t_proposal e"
      "t_proposal (fold (flush_ptc K) ts e) = t_proposal e"
      "t_proposal (fold (flush_ctc K) ts e) = t_proposal e" for qs ts e
    by (induction qs arbitrary: e, simp_all add: flush_justify_def)
      (induction ts arbitrary: e, simp_all add: flush_ptc_def flush_ctc_def)+
  ultimately show ?thesis by (simp add: flusher_flush_def flush_state_def Let_def)
qed

lemma proposal_table_wf_run:
  "bt_wf (t_proposal d) \<Longrightarrow> bt_wf (t_proposal (flusher_run K C w tasks d))"
  by (induction K C w tasks d rule: flusher_run.induct) (auto simp: proposal_table_wf Let_def)

text \<open>A proposal comes back under its height, with its content, and with another certificate.
  The writer gets a task whose first proposal is \<open>p\<close>, of a new height and with a certificate of
  a view not yet filed; whatever tasks follow, recovery finds at the height of \<open>p\<close> the hash of
  \<open>p\<close> and a node with its height, transactions, parent and combined signature. The certificate
  of that node is not the one of \<open>p\<close>: its view is the height of \<open>p\<close> and its node is \<open>p\<close> itself.\<close>

lemma recovered_proposal:
  assumes "codec_ok K" and "length (node_hash_bytes (TreeNode_hash C p)) = 32"
    and "length (node_hash_bytes (parent p)) = 32" and "decodable C (qc_combined_sign (justify p))"
    and "bt_wf (t_proposal d)" and "bt_get (height p) (t_proposal d) = None"
    and "bt_get (qc_view (justify p)) (t_qc d) = None" and "dd_prop_queue data = p # ps"
  shows "get_one_node_by_view K C (height p) (flusher_run K C waits (Async data # tasks) d)
    = Return (TreeNode_hash C p,
        p\<lparr>justify := GenericQC_new (height p) (TreeNode_hash C p) (qc_combined_sign (justify p))\<rparr>)"
proof -
  have "later_db (flush_prop K C p d) (fold (flush_prop K C) ps (flush_prop K C p d))"
    by (rule later_db_fold, rule later_db_statements)
  then have "later_db (flush_prop K C p d) (flusher_flush K C data d)"
    using later_db_after_props [of K C data d] assms(8) by (simp add: later_db_trans)
  then have "later_db (flush_prop K C p d) (flusher_run K C waits (Async data # tasks) d)"
    using later_db_run later_db_trans by fastforce
  with assms show ?thesis by (intro recovered_after_flush proposal_table_wf_run)
qed

lemma recovered_proposal_example:
  "get_one_node_by_view toy_codec toy 1 (flusher_run toy_codec toy (\<lambda>_. True)
      [Async (toy_data [toy_block 1 (toy_hash_of 0) 0] []), Async (toy_data [toy_block 2 (toy_hash_of 1) 1] [])]
      create_tables)
    = Return (toy_hash_of 1, (toy_block 1 (toy_hash_of 0) 0)\<lparr>justify := GenericQC_new 1 (toy_hash_of 1)
        (CombinedSign (replicate 88 1 @ u64_to_be_bytes 0))\<rparr>)"
proof -
  have "decodable toy (qc_combined_sign (justify (toy_block 1 (toy_hash_of 0) 0)))"
    by (simp add: decodable_def toy_def toy_block_def)
  then show ?thesis
    using recovered_proposal [OF toy_codec_ok, of toy "toy_block 1 (toy_hash_of 0) 0" create_tables
        "toy_data [toy_block 1 (toy_hash_of 0) 0] []" "[]" "\<lambda>_. True"
        "[Async (toy_data [toy_block 2 (toy_hash_of 1) 1] [])]"]
    by (simp add: create_tables_def toy_data_def bt_wf_def bt_get_def del: flusher_run.simps)
      (simp add: toy_block_def)
qed

subsection \<open>Timeouts\<close>

text \<open>The rows of partial timeout certificates hold the JSON of a signature.\<close>

definition ptc_form :: "codec \<Rightarrow> db \<Rightarrow> bool" where
  "ptc_form K d \<longleftrightarrow> (\<forall>(k, j) \<in> set (t_partial_tc d). \<exists>st. j = sign_type_to_json K st)"

lemma hm_insert_nonempty: "hm_insert k v m \<noteq> []"
  by (cases m) (auto simp: hm_insert_def)

lemma ptc_after_statements:
  "t_partial_tc (flush_prop K C p d) = t_partial_tc d" "t_partial_tc (flush_justify K qc d) = t_partial_tc d"
  "t_partial_tc (flush_ctc K tc d) = t_partial_tc d" "t_partial_tc (flush_state st d) = t_partial_tc d"
  by (simp_all add: flush_prop_def flush_justify_def flush_ctc_def flush_state_def Let_def)

lemma ptc_after_ptc:
  "t_partial_tc (flush_ptc K tc d) \<noteq> []" "ptc_form K d \<Longrightarrow> ptc_form K (flush_ptc K tc d)"
  using hm_insert_pairs [of "(tc_view tc, tc_from tc)" "sign_type_to_json K (tc_view_sign tc)" "t_partial_tc d"]
  by (auto simp: flush_ptc_def insert_ignore_hm_def ptc_form_def hm_insert_nonempty hm_get_def)

lemma ptc_unchanged_fold:
  "(\<And>x d. t_partial_tc (f x d) = t_partial_tc d) \<Longrightarrow> t_partial_tc (fold f xs d) = t_partial_tc d"
  by (induction xs arbitrary: d) auto

lemma ptc_flush:
  assumes "ptc_form K d"
  shows "ptc_form K (flusher_flush K C data d)"
    and "t_partial_tc d \<noteq> [] \<or> dd_partial_tc_queue data \<noteq> [] \<Longrightarrow> t_partial_tc (flusher_flush K C data d) \<noteq> []"
proof -
  let ?d2 = "fold (flush_justify K) (dd_justify_queue data) (fold (flush_prop K C) (dd_prop_queue data) d)"
  let ?d3 = "fold (flush_ptc K) (dd_partial_tc_queue data) ?d2"
  have after: "t_partial_tc (flusher_flush K C data d) = t_partial_tc ?d3"
    by (simp add: flusher_flush_def Let_def ptc_after_statements ptc_unchanged_fold)
  have before: "t_partial_tc ?d2 = t_partial_tc d"
    by (simp add: ptc_after_statements ptc_unchanged_fold)
  have grows: "(t_partial_tc e \<noteq> [] \<or> tcs \<noteq> [] \<longrightarrow> t_partial_tc (fold (flush_ptc K) tcs e) \<noteq> [])
      \<and> (ptc_form K e \<longrightarrow> ptc_form K (fold (flush_ptc K) tcs e))" for tcs e
    by (induction tcs arbitrary: e) (auto simp: ptc_after_ptc)
  have "ptc_form K ?d2" using assms before by (simp add: ptc_form_def)
  then have "ptc_form K ?d3" using grows by blast
  then show "ptc_form K (flusher_flush K C data d)" using after by (simp add: ptc_form_def)
  show "t_partial_tc d \<noteq> [] \<or> dd_partial_tc_queue data \<noteq> [] \<Longrightarrow> t_partial_tc (flusher_flush K C data d) \<noteq> []"
    using grows [of ?d2] before after by simp
qed

lemma ptc_run:
  assumes "list_all (\<lambda>t. \<exists>data. t = Async data) tasks" and "ptc_form K d"
    and "t_partial_tc d \<noteq> [] \<or> (\<exists>data. Async data \<in> set tasks \<and> dd_partial_tc_queue data \<noteq> [])"
  shows "ptc_form K (flusher_run K C waits tasks d) \<and> t_partial_tc (flusher_run K C waits tasks d) \<noteq> []"
  using assms
proof (induction tasks arbitrary: d)
  case (Cons t ts)
  from Cons.prems(1) obtain data where t: "t = Async data" by auto
  have "t_partial_tc (flusher_flush K C data d) \<noteq> []
      \<or> (\<exists>x. Async x \<in> set ts \<and> dd_partial_tc_queue x \<noteq> [])"
    using Cons.prems(3) ptc_flush(2) [OF Cons.prems(2), of data C] by (auto simp: t)
  then show ?case using Cons.IH [OF _ ptc_flush(1) [OF Cons.prems(2)]] Cons.prems(1) by (simp add: t)
qed simp

lemma recover_tc_map_fails:
  assumes "ptc_form K d" and "t_partial_tc d \<noteq> []" and "\<And>st. tc_from_json K (sign_type_to_json K st) = None"
  shows "recover_tc_map K d = Panic UnwrapNone"
proof -
  obtain v r j rows where rows: "t_partial_tc d = ((v, r), j) # rows"
    using assms(2) by (cases "t_partial_tc d") auto
  then have "tc_from_json K j = None" using assms(1,3) by (auto simp: ptc_form_def)
  then show ?thesis by (simp add: recover_tc_map_def rows)
qed

text \<open>C34: a stored timeout blocks recovery. The writer stores of a partial timeout certificate the
  JSON of its signature alone, while recovery parses the column as a whole timeout certificate.
  With a parser that rejects such a text, once one task with a partial timeout certificate was
  handled, no recovery of the store returns.\<close>

theorem timeout_blocks_recovery:
  assumes "\<forall>st. tc_from_json K (sign_type_to_json K st) = None"
    and "list_all (\<lambda>t. \<exists>data. t = Async data) tasks" and "t_partial_tc d = []"
    and "Async data \<in> set tasks" and "dd_partial_tc_queue data \<noteq> []"
  shows "\<nexists>s. HotstuffStorage_recover K C token addr (flusher_run K C waits tasks d) = Return s"
proof -
  let ?d = "flusher_run K C waits tasks d"
  have "ptc_form K ?d \<and> t_partial_tc ?d \<noteq> []"
    using ptc_run [of tasks K d C waits] assms by (auto simp: ptc_form_def)
  then have "recover_tc_map K ?d = Panic UnwrapNone"
    using recover_tc_map_fails [of K ?d] assms(1) by blast
  then show ?thesis by (auto simp: HotstuffStorage_recover_def exec_bind_eq_Return)
qed

theorem timeout_blocks_recovery_witness:
  "\<nexists>s. HotstuffStorage_recover toy_codec toy ''token'' ''db'' (flusher_run toy_codec toy (\<lambda>_. True)
      [Async (toy_data [] [TimeoutCertificate_new ''A'' 3 (SignKit_new 0 (Sign [])) (INIT_QC toy)])] create_tables)
    = Return s"
  by (rule timeout_blocks_recovery [of toy_codec _ _
        "toy_data [] [TimeoutCertificate_new ''A'' 3 (SignKit_new 0 (Sign [])) (INIT_QC toy)]"])
    (simp_all add: toy_codec_def toy_data_def create_tables_def)

subsection \<open>The writer of a recovered store\<close>

lemma parked_flush:
  assumes "hs_backend s = Some b" and "my_receiver b = Parked"
  shows "length (my_channel b) < 4 \<Longrightarrow>
      \<exists>t b'. run_exec (storage_step C) [OpIncreaseView v, OpFlush] s = Return t
        \<and> hs_backend t = Some b' \<and> my_receiver b' = Parked \<and> length (my_channel b') = Suc (length (my_channel b))"
    and "\<not> length (my_channel b) < 4 \<Longrightarrow> run_exec (storage_step C) [OpIncreaseView v, OpFlush] s = Diverge"
  using assms by (simp_all add: hss_ls_flush_def async_flush_def hss_increase_view_def set_dirty_def
      reset_dirty_def mysql_async_flush_def Let_def)

lemma parked_flushes:
  assumes "hs_backend s = Some b" and "my_receiver b = Parked"
  shows "length (my_channel b) + n \<le> 4 \<Longrightarrow>
      (\<exists>t b'. run_exec (storage_step C) (concat (replicate n [OpIncreaseView v, OpFlush])) s = Return t
        \<and> hs_backend t = Some b' \<and> my_receiver b' = Parked \<and> length (my_channel b') = length (my_channel b) + n)"
  using assms
proof (induction n arbitrary: s b)
  case (Suc n)
  obtain t b' where t: "run_exec (storage_step C) [OpIncreaseView v, OpFlush] s = Return t"
      "hs_backend t = Some b'" "my_receiver b' = Parked" "length (my_channel b') = Suc (length (my_channel b))"
    using parked_flush(1) [OF Suc.prems(2,3)] Suc.prems(1) by (metis add_Suc_right less_eq_Suc_le order.strict_trans1 le_add1)
  have split: "concat (replicate (Suc n) [OpIncreaseView v, OpFlush])
      = [OpIncreaseView v, OpFlush] @ concat (replicate n [OpIncreaseView v, OpFlush])" by simp
  show ?case
    unfolding split run_exec_append t(1) using Suc.IH [OF _ t(2,3)] Suc.prems(1) t(4) by simp
qed simp

text \<open>C35: a recovered store stops at its fifth flush. Recovery creates a new channel to the writer
  but, unlike initialisation, starts no writer. Four flushes after recovery return; the fifth
  waits for a free slot for ever.\<close>

theorem recovered_store_blocks:
  assumes "HotstuffStorage_recover K C token addr d = Return s"
  shows "(\<exists>t. run_exec (storage_step C) (concat (replicate 4 [OpIncreaseView v, OpFlush])) s = Return t)
    \<and> run_exec (storage_step C) (concat (replicate 5 [OpIncreaseView v, OpFlush])) s = Diverge"
proof -
  have s: "hs_backend s = Some (MySQLStorage_new addr)"
    using assms by (auto simp: HotstuffStorage_recover_def exec_bind_eq_Return)
  then obtain t b' where t: "run_exec (storage_step C) (concat (replicate 4 [OpIncreaseView v, OpFlush])) s = Return t"
      "hs_backend t = Some b'" "my_receiver b' = Parked" "length (my_channel b') = 4"
    using parked_flushes [OF s, of 4 C v] by (auto simp: MySQLStorage_new_def)
  have "concat (replicate 5 [OpIncreaseView v, OpFlush])
      = concat (replicate 4 [OpIncreaseView v, OpFlush]) @ [OpIncreaseView v, OpFlush]"
    by (simp add: numeral_eq_Suc)
  then have "run_exec (storage_step C) (concat (replicate 5 [OpIncreaseView v, OpFlush])) s = Diverge"
    using t(1,4) parked_flush(2) [OF t(2,3), of C v]
    by (simp only: run_exec_append exec_bind.simps less_irrefl not_False_eq_True)
  with t(1) show ?thesis by blast
qed

theorem recovered_store_blocks_witness:
  "\<exists>d s. persist_other_msg toy_codec toy_conf (toy_signaturer 1) = Return d
    \<and> HotstuffStorage_recover toy_codec toy ''token'' ''db''
        (flusher_run toy_codec toy (\<lambda>_. True) [Async (toy_data [] [])] d) = Return s
    \<and> run_exec (storage_step toy) (concat (replicate 5 [OpIncreaseView 7, OpFlush])) s = Diverge"
proof -
  obtain d where d: "persist_other_msg toy_codec toy_conf (toy_signaturer 1) = Return d"
    by (simp add: persist_other_msg_def toy_conf_def hm_get_def Let_def)
  let ?d = "flusher_run toy_codec toy (\<lambda>_. True) [Async (toy_data [] [])] d"
  have "\<exists>s. HotstuffStorage_recover toy_codec toy ''token'' ''db'' ?d = Return s"
    using d by (auto simp: persist_other_msg_def toy_conf_def hm_get_def Let_def toy_data_def
        flusher_flush_def flush_state_def HotstuffStorage_recover_def recover_hotstuff_config_def
        recover_in_mem_queue_def joined_rows_def create_tables_def recover_hotstuff_state_def toy_state_def
        HotstuffStorage_new_def node_or_init_def recover_tc_map_def recover_signaturer_def
        bt_get_def toy_codec_def List.map_filter_def)
  with d show ?thesis using recovered_store_blocks [of toy_codec toy "''token''" "''db''" ?d] by blast
qed

subsection \<open>The tasks the store sends\<close>

text \<open>The store has a writer, and every task it has sent to it is asynchronous.\<close>

definition async_backend :: "HotstuffStorage \<Rightarrow> bool" where
  "async_backend s \<longleftrightarrow> (\<exists>b. hs_backend s = Some b \<and> list_all (\<lambda>t. \<exists>data. t = Async data) (my_channel b))"

lemma backend_unchanged:
  "hs_backend (hss_append_new_node C n s) = hs_backend s" "hs_backend (hss_append_new_qc qc s) = hs_backend s"
  "hs_backend (hss_update_leaf C n s) = hs_backend s" "hs_backend (hss_update_qc_high C n qc s) = hs_backend s"
  "hs_backend (snd (hss_new_view_set v f s)) = hs_backend s"
  by (simp_all add: hss_append_new_node_def hss_append_new_qc_def hss_update_leaf_def hss_update_qc_high_def
      hss_insert_def hss_new_view_set_def set_dirty_def Let_def split: option.split prod.split)

lemma storage_step_async:
  assumes "storage_step C op s = Return t" and "async_backend s"
  shows "async_backend t"
proof (cases op)
  case OpFlush
  with assms obtain r where "async_flush s = Return (t, r)"
    by (auto simp: exec_bind_eq_Return hss_ls_flush_def)
  then show ?thesis using assms(2)
    by (auto simp: async_flush_def mysql_async_flush_def async_backend_def reset_dirty_def exec_bind_eq_Return
        Let_def split: if_splits option.splits receiver.splits)
next
  case (OpAppendTc tc)
  with assms have "t = fst (compress_tc C (queue_tc tc s))" by (simp add: append_tc_split)
  then have "hs_backend t = hs_backend (queue_tc tc s)" 
    by (simp add: compress_tc_def Let_def split: option.split)
  then show ?thesis
    using assms(2) by (simp add: async_backend_def queue_tc_def set_dirty_def split: SignType.split)
qed (use assms in \<open>auto simp: async_backend_def backend_unchanged hss_effects hss_ls_update_qc_high_def
    hss_clean_new_view_set_def set_dirty_def\<close>)

interpretation sends_async: invariant_system "storage_step C" async_backend for C
  by unfold_locales (rule storage_step_async)

lemma sent_has_rows:
  assumes "hs_backend t = Some b" and "async_backend t" and "p \<in> set (prop_journal t)" and "\<not> unsent t"
  shows "has_rows p (flusher_run K C waits (my_channel b) d)"
proof -
  have tasks: "list_all (\<lambda>t. \<exists>data. t = Async data) (my_channel b)"
    using assms(1,2) by (simp add: async_backend_def)
  obtain x where x: "x \<in> set (my_channel b)" "p \<in> set (dd_prop_queue (task_data x))"
    using assms(1,3,4) by (auto simp: prop_journal_def sent_def unsent_def)
  with tasks obtain data where "x = Async data" by (auto simp: list_all_iff)
  with x flusher_run_rows [OF tasks] show ?thesis by simp
qed

end
