(* ===== verification/RustText.thy ===== *)
theory RustText
  imports Prelude
begin

section \<open>Strings of the standard library\<close>

text \<open>
  What the source uses of Rust's strings. A \<open>String\<close> is the list of its UTF-8 bytes, one character
  each. \<open>from_utf8\<close> accepts the byte sequences of the table in the documentation of \<open>str\<close>; numbers
  are printed and parsed in decimal, and parsing fails beyond 64 bits.
\<close>

subsection \<open>Bytes and strings\<close>

definition as_bytes :: "string \<Rightarrow> u8 list" where
  "as_bytes s = map (\<lambda>c. word_of_nat (of_char c)) s"

definition from_utf8_unchecked :: "u8 list \<Rightarrow> string" where
  "from_utf8_unchecked bs = map (\<lambda>b. char_of (unat b)) bs"

definition between :: "u8 \<Rightarrow> u8 \<Rightarrow> u8 \<Rightarrow> bool" where
  "between lo hi b \<longleftrightarrow> lo \<le> b \<and> b \<le> hi"

text \<open>The bytes that may follow a leading byte of a sequence of three or four.\<close>

definition second_byte_ok :: "u8 \<Rightarrow> u8 \<Rightarrow> bool" where
  "second_byte_ok a b =
     (if a = 0xE0 then between 0xA0 0xBF b
      else if a = 0xED then between 0x80 0x9F b
      else if a = 0xF0 then between 0x90 0xBF b
      else if a = 0xF4 then between 0x80 0x8F b
      else between 0x80 0xBF b)"

fun utf8_ok :: "u8 list \<Rightarrow> bool" where
  "utf8_ok [] = True"
| "utf8_ok (a # bs) =
     (if a < 0x80 then utf8_ok bs
      else if between 0xC2 0xDF a
      then (case bs of b # cs \<Rightarrow> between 0x80 0xBF b \<and> utf8_ok cs | _ \<Rightarrow> False)
      else if between 0xE0 0xEF a
      then (case bs of b # c # cs \<Rightarrow> second_byte_ok a b \<and> between 0x80 0xBF c \<and> utf8_ok cs | _ \<Rightarrow> False)
      else if between 0xF0 0xF4 a
      then (case bs of b # c # d # cs \<Rightarrow>
              second_byte_ok a b \<and> between 0x80 0xBF c \<and> between 0x80 0xBF d \<and> utf8_ok cs | _ \<Rightarrow> False)
      else False)"

definition from_utf8 :: "u8 list \<Rightarrow> string option" where
  "from_utf8 bs = (if utf8_ok bs then Some (from_utf8_unchecked bs) else None)"

lemma as_bytes_from_utf8_unchecked [simp]: "as_bytes (from_utf8_unchecked bs) = bs"
proof -
  have "unat b mod 256 = unat b" for b :: u8
    using unsigned_less [where 'b = 8 and 'a = nat, of b] by simp
  then show ?thesis by (simp add: as_bytes_def from_utf8_unchecked_def comp_def)
qed

lemma from_utf8_unchecked_as_bytes [simp]: "from_utf8_unchecked (as_bytes s) = s"
proof -
  have "unat (word_of_nat (of_char c) :: u8) = of_char c" for c
    by (simp add: unat_of_nat)
  then show ?thesis by (simp add: as_bytes_def from_utf8_unchecked_def comp_def)
qed

lemma as_bytes_eq_iff [simp]: "as_bytes s = as_bytes t \<longleftrightarrow> s = t"
  by (metis from_utf8_unchecked_as_bytes)

lemma utf8_zeros [simp]: "utf8_ok (replicate n 0)"
  by (induction n) simp_all

subsection \<open>Decimal numbers\<close>

fun usize_to_string :: "nat \<Rightarrow> string" where
  "usize_to_string n =
     (if n < 10 then [char_of (48 + n)] else usize_to_string (n div 10) @ [char_of (48 + n mod 10)])"

declare usize_to_string.simps [simp del]

definition digit_value :: "char \<Rightarrow> nat option" where
  "digit_value c = (let v = of_char c :: nat in if 48 \<le> v \<and> v < 58 then Some (v - 48) else None)"

fun parse_digits :: "nat \<Rightarrow> string \<Rightarrow> nat option" where
  "parse_digits acc [] = Some acc"
| "parse_digits acc (c # cs) =
     (case digit_value c of
        None \<Rightarrow> None
      | Some d \<Rightarrow> if acc * 10 + d < 2 ^ 64 then parse_digits (acc * 10 + d) cs else None)"

definition parse_usize :: "string \<Rightarrow> nat option" where
  "parse_usize s =
     (let t = (if s \<noteq> [] \<and> hd s = CHR ''+'' then tl s else s) in if t = [] then None else parse_digits 0 t)"

lemma digit_value_digit [simp]: "d < 10 \<Longrightarrow> digit_value (char_of (48 + d)) = Some d"
  by (simp add: digit_value_def)

lemma parse_digits_bound: "parse_digits acc s = Some n \<Longrightarrow> acc < 2 ^ 64 \<Longrightarrow> n < 2 ^ 64"
  by (induction acc s rule: parse_digits.induct) (auto split: option.splits if_splits)

lemma parse_usize_bound: "parse_usize s = Some n \<Longrightarrow> n < 2 ^ 64"
  by (auto simp: parse_usize_def Let_def dest: parse_digits_bound split: if_splits)

lemma parse_digits_append:
  "parse_digits acc (s @ t) = Option.bind (parse_digits acc s) (\<lambda>a. parse_digits a t)"
  by (induction s arbitrary: acc) (simp_all split: option.split)

lemma parse_digits_usize:
  "n < 2 ^ 64 \<Longrightarrow> parse_digits 0 (usize_to_string n) = Some n"
proof (induction n rule: usize_to_string.induct)
  case (1 n)
  show ?case
  proof (cases "n < 10")
    case False
    then have "parse_digits 0 (usize_to_string (n div 10)) = Some (n div 10)" using 1 by simp
    with False 1(2) show ?thesis
      by (simp add: usize_to_string.simps [of n] parse_digits_append)
  qed (use 1 in \<open>simp add: usize_to_string.simps [of n]\<close>)
qed

lemma usize_to_string_digits: "usize_to_string n \<noteq> [] \<and> hd (usize_to_string n) \<noteq> CHR ''+''"
proof (induction n rule: usize_to_string.induct)
  case (1 n)
  have "char_of (48 + n) \<noteq> CHR ''+''" if "n < 10"
  proof
    assume "char_of (48 + n) = CHR ''+''"
    then have "of_char (char_of (48 + n)) = (of_char CHR ''+'' :: nat)" by simp
    with that show False by simp
  qed
  then show ?case using 1 by (auto simp: usize_to_string.simps [of n])
qed

lemma parse_usize_to_string: "n < 2 ^ 64 \<Longrightarrow> parse_usize (usize_to_string n) = Some n"
  using usize_to_string_digits [of n] by (simp add: parse_usize_def parse_digits_usize)

lemma usize_to_string_inject: "m < 2 ^ 64 \<Longrightarrow> n < 2 ^ 64 \<Longrightarrow> usize_to_string m = usize_to_string n \<longleftrightarrow> m = n"
  by (metis option.inject parse_usize_to_string)

end
