(* ===== verification/HssTest.thy ===== *)
theory HssTest
  imports PersistProps RustText
begin

section \<open>hss, tests/mod.rs: a store that is initialised, flushed, dropped and recovered\<close>

text \<open>
  The integration test of the store, with the database it runs on. The writer runs beside the
  test; whether it has handled what was sent to it by the time the store is recovered is the
  argument \<open>handled\<close>. The theory shows what the test does for every scheme and codec: it passes if
  the writer was fast enough and panics otherwise, and what is flushed after the recovery stays in
  a channel that nobody reads.
\<close>

subsection \<open>The test\<close>

definition hss_with_mysql_enabled ::
    "codec \<Rightarrow> crypto \<Rightarrow> SecretKeySet \<Rightarrow> string \<Rightarrow> string \<Rightarrow> db \<Rightarrow> (HotstuffStorage \<times> db) exec" where
  "hss_with_mysql_enabled K C s token mysql_addr d =
     (let total = 4
      in exec_bind (threshold_sign_kit C s total 2) (\<lambda>(sks, pks, _).
           let ident = 1;
               self_id = ''replica-'' @ usize_to_string ident;
               peers_addr = [(''replica-0'', ''localhost:8000''), (''replica-1'', ''localhost:8001''),
                 (''replica-2'', ''localhost:8002''), (''replica-3'', ''localhost:8003'')];
               signaturer = DefaultSignaturer_new ident pks (secret_key_share C sks ident)
           in init_hotstuff_storage K C token total (INIT_NODE C) (INIT_NODE_HASH C) self_id peers_addr
                mysql_addr signaturer d))"

definition recover_hss_with_mysql_enabled :: "codec \<Rightarrow> crypto \<Rightarrow> string \<Rightarrow> string \<Rightarrow> db \<Rightarrow> HotstuffStorage exec" where
  "recover_hss_with_mysql_enabled K C token mysql_addr d = HotstuffStorage_recover K C token mysql_addr d"

definition alice :: "string list" where
  "alice =
     [''One summer afternoon'',
      ''Alice and her sister were enjoying the cool under a big tree'',
      ''Suddenly, a rabbit in a dress and a pocket watch ran past Alice.'',
      ''As the rabbit ran, he looked at his pocket watch and said, '' @ [CHR 0x22] @ ''Late, late!'' @ [CHR 0x22],
      ''Curious, Alice got up to chase the strange rabbit'',
      ''Alice followed the rabbit into a hole in the tree. '',
      ''On a table in the tree hole, Alice saw a bottle. There is a label '' @ [CHR 0x22] @ ''Drink Me'' @ [CHR 0x22]
        @ '' on the bottle'']"

definition append_all :: "crypto \<Rightarrow> (NodeHash \<times> TreeNode) list \<Rightarrow> HotstuffStorage \<Rightarrow> HotstuffStorage" where
  "append_all C chain s = fold (\<lambda>(_, node). hss_append_new_node C node) chain s"

definition flush_or_panic :: "HotstuffStorage \<Rightarrow> HotstuffStorage exec" where
  "flush_or_panic s = exec_bind (async_flush s) (\<lambda>(t, res). case res of Inr _ \<Rightarrow> Return t | Inl _ \<Rightarrow> Panic UnwrapNone)"

text \<open>What the writer of a store makes of the tables, once it has handled every task.\<close>

definition writer_done :: "codec \<Rightarrow> crypto \<Rightarrow> HotstuffStorage \<Rightarrow> db \<Rightarrow> db" where
  "writer_done K C s d = (case hs_backend s of None \<Rightarrow> d | Some b \<Rightarrow> flusher_run K C (\<lambda>_. True) (my_channel b) d)"

definition test_init_and_recover ::
    "codec \<Rightarrow> crypto \<Rightarrow> SecretKeySet \<Rightarrow> SecretKeySet \<Rightarrow> string \<Rightarrow> bool \<Rightarrow> db \<Rightarrow> HotstuffStorage exec" where
  "test_init_and_recover K C s1 s2 addr handled d =
     exec_bind (hss_with_mysql_enabled K C s1 ''test'' addr d) (\<lambda>(hss, d1).
     exec_bind (hss_init K hss d1) (\<lambda>(hss, d2).
     exec_bind (threshold_sign_kit C s2 4 2) (\<lambda>(_, pk_set, vec_sks).
     exec_bind (form_chain C (map as_bytes alice) vec_sks pk_set) (\<lambda>chain.
     exec_bind (if length chain < 4 then Panic PanicCall else Return (take 4 chain, drop 4 chain)) (\<lambda>(first, others).
     exec_bind (flush_or_panic (append_all C first hss)) (\<lambda>hss.
     let d3 = (if handled then writer_done K C hss d2 else d2)
     in exec_bind (recover_hss_with_mysql_enabled K C ''test'' addr d3) (\<lambda>hss2.
          flush_or_panic (append_all C others hss2))))))))"

subsection \<open>The rows of a chain\<close>

definition prop_row :: "codec \<Rightarrow> crypto \<Rightarrow> TreeNode \<Rightarrow> proposal_row" where
  "prop_row K C p = \<lparr>pr_parent_hash = b64_encode K (node_hash_bytes (parent p)), pr_justify_view = qc_view (justify p),
     pr_prop_hash = b64_encode K (node_hash_bytes (TreeNode_hash C p)), pr_txn = txs_to_json K (txs p)\<rparr>"

definition cert_row :: "codec \<Rightarrow> crypto \<Rightarrow> TreeNode \<Rightarrow> qc_row" where
  "cert_row K C p = \<lparr>qr_node_hash = b64_encode K (node_hash_bytes (TreeNode_hash C p)),
     qr_combined_sign = b64_encode K (sign_bytes (qc_combined_sign (justify p)))\<rparr>"

text \<open>What recovery makes of a proposal: its certificate names the proposal itself.\<close>

definition self_certified :: "crypto \<Rightarrow> TreeNode \<Rightarrow> TreeNode" where
  "self_certified C p = p\<lparr>justify := GenericQC_new (height p) (TreeNode_hash C p) (qc_combined_sign (justify p))\<rparr>"

lemma bt_insert_last: "\<forall>k' \<in> fst ` set m. k' < k \<Longrightarrow> bt_insert k v m = m @ [(k, v)]"
  by (induction k v m rule: bt_insert.induct) auto

lemma insert_ignore_last: "\<forall>k' \<in> fst ` set m. k' < k \<Longrightarrow> insert_ignore k v m = m @ [(k, v)]"
proof -
  assume m: "\<forall>k' \<in> fst ` set m. k' < k"
  then have "bt_get k m = None" by (auto simp: bt_get_def map_of_eq_None_iff)
  then show ?thesis using bt_insert_last [OF m] by (simp add: insert_ignore_def)
qed

lemma flush_prop_eq:
  "flush_prop K C p d = d\<lparr>t_qc := insert_ignore (qc_view (justify p)) (cert_row K C p) (t_qc d),
     t_proposal := insert_ignore (height p) (prop_row K C p) (t_proposal d)\<rparr>"
  by (simp add: flush_prop_def cert_row_def prop_row_def Let_def)

text \<open>Proposals of rising heights and rising certificate views are filed in their order.\<close>

lemma flush_props_in_order:
  assumes "sorted_wrt (<) (map fst (t_proposal d) @ map height ps)"
    and "sorted_wrt (<) (map fst (t_qc d) @ map (\<lambda>p. qc_view (justify p)) ps)"
  shows "fold (flush_prop K C) ps d = d\<lparr>t_proposal := t_proposal d @ map (\<lambda>p. (height p, prop_row K C p)) ps,
     t_qc := t_qc d @ map (\<lambda>p. (qc_view (justify p), cert_row K C p)) ps\<rparr>"
  using assms
proof (induction ps arbitrary: d)
  case (Cons p ps)
  have "flush_prop K C p d = d\<lparr>t_proposal := t_proposal d @ [(height p, prop_row K C p)],
      t_qc := t_qc d @ [(qc_view (justify p), cert_row K C p)]\<rparr>"
    using Cons.prems by (simp add: flush_prop_eq insert_ignore_last sorted_wrt_append)
  moreover have "sorted_wrt (<) ((map fst (t_proposal d) @ [height p]) @ map height ps)"
      "sorted_wrt (<) ((map fst (t_qc d) @ [qc_view (justify p)]) @ map (\<lambda>p. qc_view (justify p)) ps)"
    using Cons.prems by simp_all
  ultimately show ?case using Cons.IH [of "flush_prop K C p d"] by simp
qed simp

subsection \<open>What recovery makes of them\<close>

lemma map_rows_all: "\<forall>x \<in> set xs. map_row_to_proposal K C (r x) = Return (g x) \<Longrightarrow> map_rows K C (map r xs) = Return (map g xs)"
  by (induction xs) simp_all

text \<open>Hashes and certificates as the source's types have them, and as the decoder of signatures takes them.\<close>

definition storable :: "crypto \<Rightarrow> TreeNode \<Rightarrow> bool" where
  "storable C p \<longleftrightarrow> length (node_hash_bytes (TreeNode_hash C p)) = 32 \<and> length (node_hash_bytes (parent p)) = 32
     \<and> decodable C (qc_combined_sign (justify p))"

lemma recover_in_mem_queue_chain:
  assumes "codec_ok K" and "\<forall>p \<in> set ps. storable C p"
    and "t_proposal d = map (\<lambda>p. (height p, prop_row K C p)) ps" and "t_qc d = map (\<lambda>p. (qc_view (justify p), cert_row K C p)) ps"
    and "sorted_wrt (<) (map (\<lambda>p. qc_view (justify p)) ps)"
  shows "recover_in_mem_queue K C d = Return (fold (\<lambda>p. hm_insert (TreeNode_hash C p) (self_certified C p)) ps [])"
proof -
  let ?row = "\<lambda>p. (height p, prop_row K C p, qc_view (justify p), cert_row K C p)"
  have dist: "distinct (map (\<lambda>p. qc_view (justify p)) ps)" and srt: "sorted (map (\<lambda>p. qc_view (justify p)) ps)"
    using assms(5) by (simp_all add: strict_sorted_iff)
  then have "bt_get (qc_view (justify p)) (t_qc d) = Some (cert_row K C p)" if "p \<in> set ps" for p
    using that unfolding assms(4) bt_get_def by (intro map_of_is_SomeI) (auto simp: comp_def)
  then have "joined_rows d = map ?row ps"
    unfolding joined_rows_def assms(3) by (induction ps) (auto simp: List.map_filter_def prop_row_def)
  then have "sort_key (\<lambda>(_, pr, _, _). pr_justify_view pr) (joined_rows d) = map ?row ps"
    using srt by (subst sort_key_id_if_sorted) (simp_all add: comp_def prop_row_def)
  moreover have "map_row_to_proposal K C (?row p) = Return (TreeNode_hash C p, self_certified C p)" if "p \<in> set ps" for p
    using map_row_of_flushed [OF assms(1), of "TreeNode_hash C p" "parent p" C "qc_combined_sign (justify p)" "height p"
        "qc_view (justify p)" "b64_encode K (node_hash_bytes (TreeNode_hash C p))" "txs p"] assms(2) that
    by (simp add: storable_def prop_row_def cert_row_def self_certified_def)
  ultimately show ?thesis
    using map_rows_all [of ps K C ?row "\<lambda>p. (TreeNode_hash C p, self_certified C p)"]
    by (simp add: recover_in_mem_queue_def fold_map comp_def)
qed

lemma fold_hm_insert_get:
  "distinct (map f ps) \<Longrightarrow> hm_get k (fold (\<lambda>p. hm_insert (f p) (g p)) ps m)
     = (case map_of (map (\<lambda>p. (f p, g p)) ps) k of None \<Rightarrow> hm_get k m | Some v \<Rightarrow> Some v)"
  using fold_hm_insert [of "map (\<lambda>p. (f p, g p)) ps" k m] by (simp add: fold_map comp_def)

lemma append_all_eq:
  "append_all C chain s = s\<lparr>hs_in_mem_queue := fold (\<lambda>p. hm_insert (TreeNode_hash C p) p) (map snd chain) (hs_in_mem_queue s),
     hs_prop_queue := hs_prop_queue s @ map snd chain, hs_dirty := (hs_dirty s \<or> chain \<noteq> [])\<rparr>"
  by (induction chain arbitrary: s)
    (auto simp: append_all_def hss_append_new_node_def hss_insert_def set_dirty_def Let_def split_beta)

subsection \<open>The outcome\<close>

lemma linked_views: "linked C p bs \<Longrightarrow> map (\<lambda>b. qc_view (justify b)) bs = take (length bs) (height p # map height bs)"
  by (induction bs arbitrary: p) auto

lemma linked_sorted:
  "linked C p bs \<Longrightarrow> unat (height p) + length bs < 2 ^ 64 \<Longrightarrow> sorted_wrt (<) (height p # map height bs)"
proof (induction bs arbitrary: p)
  case (Cons b bs)
  then have b: "height b = height p + 1" "linked C b bs" by simp_all
  have u: "unat (height b) = Suc (unat (height p))" using Cons.prems(2) b(1) by (simp add: unat_word_ariths)
  then have "height p < height b" by (simp add: word_less_nat_alt)
  moreover have "sorted_wrt (<) (height b # map height bs)" using Cons.IH [OF b(2)] Cons.prems(2) u by simp
  ultimately show ?case by (auto intro: order.strict_trans)
qed simp

lemma linked_take: "linked C p bs \<Longrightarrow> linked C p (take n bs)"
  by (induction bs arbitrary: p n) (auto simp: take_Cons split: nat.split)

text \<open>The store after initialisation, and its tables.\<close>

definition test_conf :: HotStuffConfig where
  "test_conf = \<lparr>cf_token = ''test'', cf_total = 4, cf_replica_id = ''replica-1'', cf_peers_addr =
     [(''replica-0'', ''localhost:8000''), (''replica-1'', ''localhost:8001''), (''replica-2'', ''localhost:8002''),
      (''replica-3'', ''localhost:8003'')]\<rparr>"

definition test_store :: "crypto \<Rightarrow> SecretKeySet \<Rightarrow> HotstuffStorage" where
  "test_store C s = (HotstuffStorage_new ''test'' (INIT_NODE C) (INIT_QC C) test_conf (key_of C s 1)
     (Some \<lparr>my_conn_pool = None, my_channel = [], my_receiver = Running\<rparr>))
     \<lparr>hs_in_mem_queue := [(INIT_NODE_HASH C, INIT_NODE C)]\<rparr>"

lemma usize_to_string_1: "usize_to_string (Suc 0) = ''1''"
  by (simp add: usize_to_string.simps) code_simp

lemma test_store_started:
  "\<exists>d1. persist_other_msg K test_conf (key_of C s 1) = Return d1
    \<and> hss_with_mysql_enabled K C s ''test'' addr d = Return (test_store C s, d1)
    \<and> hss_init K (test_store C s) d1 = Return (test_store C s, d1)"
proof -
  obtain d1 where d1: "persist_other_msg K test_conf (key_of C s 1) = Return d1"
    by (simp add: persist_other_msg_def test_conf_def hm_get_def Let_def)
  then show ?thesis
    by (auto simp: hss_with_mysql_enabled_def threshold_sign_kit_def init_hotstuff_storage_def hss_init_def MySQLStorage_init_def
        MySQLStorage_new_def HotstuffStorage_new_def test_store_def key_of_def hm_insert_def usize_to_string_1 Let_def
        simp flip: test_conf_def)
qed

text \<open>The tables when the writer has handled the first flush.\<close>

lemma handled_tables:
  assumes "persist_other_msg K conf sg = Return d" and "linked C p bs" and "unat (height p) + length bs < 2 ^ 64"
    and "dd_prop_queue data = bs" "dd_justify_queue data = []" "dd_partial_tc_queue data = []" "dd_combined_tc_queue data = []"
  shows "t_proposal (flusher_flush K C data d) = map (\<lambda>p. (height p, prop_row K C p)) bs"
    and "t_qc (flusher_flush K C data d) = map (\<lambda>p. (qc_view (justify p), cert_row K C p)) bs"
    and "t_partial_tc (flusher_flush K C data d) = []"
    and "t_hotstuff_state (flusher_flush K C data d) = [(st_token (dd_state data),
      \<lparr>sr_current_view = st_current_view (dd_state data), sr_last_voted_view = st_vheight (dd_state data),
       sr_locked_view = height (st_b_locked (dd_state data)), sr_committed_view = st_committed_height (dd_state data),
       sr_executed_view = height (st_last_commit (dd_state data)), sr_leaf_view = height (st_leaf (dd_state data))\<rparr>)]"
proof -
  have d: "t_proposal d = []" "t_qc d = []" "t_partial_tc d = []" "t_hotstuff_state d = []"
    using assms(1) by (auto simp: persist_other_msg_def exec_bind_eq_Return create_tables_def Let_def)
  have "sorted_wrt (<) (height p # map height bs)" using linked_sorted assms(2,3) .
  then have "sorted_wrt (<) (map height bs)" "sorted_wrt (<) (map (\<lambda>b. qc_view (justify b)) bs)"
    unfolding linked_views [OF assms(2)] by (simp, rule sorted_wrt_take)
  then have "fold (flush_prop K C) bs d = d\<lparr>t_proposal := map (\<lambda>p. (height p, prop_row K C p)) bs,
      t_qc := map (\<lambda>p. (qc_view (justify p), cert_row K C p)) bs\<rparr>"
    using flush_props_in_order [of d bs K C] d by simp
  then show "t_proposal (flusher_flush K C data d) = map (\<lambda>p. (height p, prop_row K C p)) bs"
    "t_qc (flusher_flush K C data d) = map (\<lambda>p. (qc_view (justify p), cert_row K C p)) bs"
    "t_partial_tc (flusher_flush K C data d) = []"
    "t_hotstuff_state (flusher_flush K C data d) = [(st_token (dd_state data),
      \<lparr>sr_current_view = st_current_view (dd_state data), sr_last_voted_view = st_vheight (dd_state data),
       sr_locked_view = height (st_b_locked (dd_state data)), sr_committed_view = st_committed_height (dd_state data),
       sr_executed_view = height (st_last_commit (dd_state data)), sr_leaf_view = height (st_leaf (dd_state data))\<rparr>)]"
    using assms(4-7) d by (simp_all add: flusher_flush_def flush_state_def Let_def)
qed

text \<open>A store is recovered from these tables if its state still is the initial one.\<close>

lemma recover_initial_chain:
  assumes "codec_ok K" and "persist_other_msg K test_conf (key_of C s 1) = Return d" and "linked C (INIT_NODE C) bs"
    and "length bs < 2 ^ 64" and "\<forall>p \<in> set bs. storable C p"
    and "data = \<lparr>dd_combined_tc_queue = [], dd_partial_tc_queue = [], dd_prop_queue = bs, dd_justify_queue = [],
       dd_state = hs_state (test_store C s)\<rparr>"
  shows "\<exists>hss. HotstuffStorage_recover K C ''test'' addr (flusher_flush K C data d) = Return hss
    \<and> hs_in_mem_queue hss = fold (\<lambda>p. hm_insert (TreeNode_hash C p) (self_certified C p)) bs []
    \<and> hs_backend hss = Some (MySQLStorage_new addr) \<and> hss_get_leaf hss = INIT_NODE C \<and> hs_signaturer hss = key_of C s 1
    \<and> cf_total (hs_conf hss) = 4 \<and> cf_replica_id (hs_conf hss) = ''replica-1'' \<and> hs_dirty hss = False \<and> hs_prop_queue hss = []"
proof -
  have h0: "unat (height (INIT_NODE C)) + length bs < 2 ^ 64" using assms(4) by simp
  note tables = handled_tables [OF assms(2,3) h0, of data, unfolded assms(6), simplified]
  have views: "sorted_wrt (<) (map (\<lambda>b. qc_view (justify b)) bs)"
    unfolding linked_views [OF assms(3)] by (rule sorted_wrt_take, rule linked_sorted [OF assms(3) h0])
  have q: "recover_in_mem_queue K C (flusher_flush K C data d)
      = Return (fold (\<lambda>p. hm_insert (TreeNode_hash C p) (self_certified C p)) bs [])"
    unfolding assms(6) by (rule recover_in_mem_queue_chain [OF assms(1,5) tables(1,2) views])
  have "hm_wf (cf_peers_addr test_conf)" "cf_total test_conf < 2 ^ 64" "sg_sign_id (key_of C s 1) < 2 ^ 64"
    by (simp_all add: test_conf_def hm_wf_def key_of_def DefaultSignaturer_new_def)
  from config_roundtrip [OF assms(1,2) this, of C "\<lambda>_. True" "[Async data]"]
  obtain conf where conf: "recover_hotstuff_config (flusher_flush K C data d) = Return conf" "cf_total conf = 4"
      "cf_replica_id conf = ''replica-1''" "recover_signaturer K ''test'' (flusher_flush K C data d) = Return (key_of C s 1)"
    by (auto simp: test_conf_def)
  have st: "recover_hotstuff_state K C (flusher_flush K C data d) = Return \<lparr>st_token = ''test'', st_leaf = INIT_NODE C,
      st_qc_high = justify (INIT_NODE C), st_vheight = 0, st_current_view = 0, st_committed_height = 0,
      st_last_commit = INIT_NODE C, st_b_locked = INIT_NODE C\<rparr>"
    unfolding assms(6) recover_hotstuff_state_def tables(4) by (simp add: node_or_init_def test_store_def HotstuffStorage_new_def)
  have "recover_tc_map K (flusher_flush K C data d) = Return []"
    unfolding assms(6) by (simp add: recover_tc_map_def tables(3))
  then show ?thesis using q conf st by (simp add: HotstuffStorage_recover_def hss_get_leaf_def)
qed

text \<open>The two flushes of the test.\<close>

lemma flush_append:
  assumes "chain \<noteq> []" and "hs_backend s = Some b" and "hs_prop_queue s = []" and "my_receiver b \<noteq> Dropped" "my_channel b = []"
  shows "\<exists>t. flush_or_panic (append_all C chain s) = Return t
    \<and> hs_in_mem_queue t = fold (\<lambda>p. hm_insert (TreeNode_hash C p) p) (map snd chain) (hs_in_mem_queue s)
    \<and> hs_state t = hs_state s \<and> hs_conf t = hs_conf s \<and> hs_signaturer t = hs_signaturer s
    \<and> hs_backend t = Some (b\<lparr>my_channel := [Async \<lparr>dd_combined_tc_queue = hs_combined_tc_queue s,
        dd_partial_tc_queue = hs_partial_tc_queue s, dd_prop_queue = map snd chain, dd_justify_queue = hs_justify_queue s,
        dd_state = hs_state s\<rparr>]\<rparr>)"
  using assms by (cases "my_receiver b")
    (simp_all add: flush_or_panic_def append_all_eq async_flush_def mysql_async_flush_def reset_dirty_def Let_def)

lemma nothing_to_recover:
  assumes "codec_ok K" and "persist_other_msg K test_conf (key_of C s 1) = Return d"
  shows "HotstuffStorage_recover K C ''test'' addr d = Panic UnwrapNone"
proof -
  have d: "t_proposal d = []" "t_hotstuff_state d = []"
    using assms(2) by (auto simp: persist_other_msg_def exec_bind_eq_Return create_tables_def Let_def)
  have "hm_wf (cf_peers_addr test_conf)" "cf_total test_conf < 2 ^ 64" "sg_sign_id (key_of C s 1) < 2 ^ 64"
    by (simp_all add: test_conf_def hm_wf_def key_of_def DefaultSignaturer_new_def)
  from config_roundtrip [OF assms this, of C "\<lambda>_. True" "[]"]
  obtain conf where "recover_hotstuff_config d = Return conf" by auto
  then show ?thesis
    using d by (simp add: HotstuffStorage_recover_def recover_in_mem_queue_def joined_rows_def recover_hotstuff_state_def
        List.map_filter_def)
qed

lemma test_unfold:
  assumes "persist_other_msg K test_conf (key_of C s1 1) = Return d1"
    and "hss_with_mysql_enabled K C s1 ''test'' addr d = Return (test_store C s1, d1)"
    and "hss_init K (test_store C s1) d1 = Return (test_store C s1, d1)"
    and "form_chain C (map as_bytes alice) (map (\<lambda>i. (i, secret_key_share C s2 i)) [0..<4]) (public_keys C s2) = Return chain"
    and "length chain = 7"
  shows "test_init_and_recover K C s1 s2 addr handled d =
    exec_bind (HotstuffStorage_recover K C ''test'' addr (if handled then flusher_flush K C \<lparr>dd_combined_tc_queue = [],
        dd_partial_tc_queue = [], dd_prop_queue = map snd (take 4 chain), dd_justify_queue = [],
        dd_state = hs_state (test_store C s1)\<rparr> d1 else d1))
      (\<lambda>hss. flush_or_panic (append_all C (drop 4 chain) hss))"
proof -
  have ne: "take 4 chain \<noteq> []" using assms(5) by auto
  have "hs_backend (test_store C s1) = Some \<lparr>my_conn_pool = None, my_channel = [], my_receiver = Running\<rparr>"
      "hs_prop_queue (test_store C s1) = []" "hs_combined_tc_queue (test_store C s1) = []"
      "hs_partial_tc_queue (test_store C s1) = []" "hs_justify_queue (test_store C s1) = []"
    by (simp_all add: test_store_def HotstuffStorage_new_def)
  with flush_append [OF ne this(1,2), of C] obtain t where t: "flush_or_panic (append_all C (take 4 chain) (test_store C s1)) = Return t"
      "hs_backend t = Some \<lparr>my_conn_pool = None, my_channel = [Async \<lparr>dd_combined_tc_queue = [],
        dd_partial_tc_queue = [], dd_prop_queue = map snd (take 4 chain), dd_justify_queue = [],
        dd_state = hs_state (test_store C s1)\<rparr>], my_receiver = Running\<rparr>" by auto
  have kit: "threshold_sign_kit C s2 4 2 = Return (s2, public_keys C s2, map (\<lambda>i. (i, secret_key_share C s2 i)) [0..<4])"
    by (simp add: threshold_sign_kit_def)
  show ?thesis
    unfolding test_init_and_recover_def assms(2) exec_bind.simps prod.case assms(3) kit assms(4)
    using t assms(5) by (simp add: writer_done_def recover_hss_with_mysql_enabled_def Let_def)
qed

text \<open>C33: the integration test of the store races with its own writer. For every codec and every scheme
  whose hashes and signatures have their widths and do not collide: if the writer has not handled
  the first flush when the store is recovered, the test panics, since there is no state to recover.
  If it has, the test passes, and the recovered store holds keys and size of the first one, its first
  four proposals with certificates that name the proposals themselves, and the three appended later,
  but not the initial node; and the three, although flushed, wait in a channel that nobody reads.\<close>

theorem init_and_recover_races:
  assumes "codec_ok K"
    and "form_chain C (map as_bytes alice) (map (\<lambda>i. (i, secret_key_share C s2 i)) [0..<4]) (public_keys C s2) = Return chain"
    and "\<forall>p \<in> snd ` set chain. storable C p" and "distinct (INIT_NODE_HASH C # map fst chain)"
  shows "test_init_and_recover K C s1 s2 addr False d = Panic UnwrapNone
    \<and> (\<exists>hss. test_init_and_recover K C s1 s2 addr True d = Return hss
       \<and> (\<forall>p \<in> snd ` set (take 4 chain). hss_get (TreeNode_hash C p) hss
             = Some (p\<lparr>justify := GenericQC_new (height p) (TreeNode_hash C p) (qc_combined_sign (justify p))\<rparr>))
       \<and> (\<forall>p \<in> snd ` set (drop 4 chain). hss_get (TreeNode_hash C p) hss = Some p)
       \<and> hss_get (INIT_NODE_HASH C) hss = None \<and> hss_get_leaf hss = INIT_NODE C
       \<and> hs_signaturer hss = DefaultSignaturer_new 1 (public_keys C s1) (secret_key_share C s1 1) \<and> cf_total (hs_conf hss) = 4
       \<and> (\<exists>data. hs_backend hss = Some \<lparr>my_conn_pool = Some addr, my_channel = [Async data], my_receiver = Parked\<rparr>
             \<and> dd_prop_queue data = map snd (drop 4 chain)))"
proof -
  let ?first = "map snd (take 4 chain)" and ?rest = "map snd (drop 4 chain)"
  let ?data = "\<lparr>dd_combined_tc_queue = [], dd_partial_tc_queue = [], dd_prop_queue = ?first, dd_justify_queue = [],
      dd_state = hs_state (test_store C s1)\<rparr>"
  have link: "linked C (INIT_NODE C) (map snd chain) \<and> map fst chain = map (TreeNode_hash C) (map snd chain)
      \<and> map txs (map snd chain) = map (\<lambda>t. [Txn t]) (map as_bytes alice)"
    using form_chain_from_linked [of C _ "public_keys C s2" "INIT_NODE C" "map as_bytes alice" chain] assms(2)
    by (simp add: form_chain_def INIT_NODE_HASH_def)
  then have "length (map txs (map snd chain)) = length (map (\<lambda>t. [Txn t]) (map as_bytes alice))" by (simp only:)
  then have len: "length chain = 7" by (simp add: alice_def)
  have keys: "distinct (map (TreeNode_hash C) (?first @ ?rest))" "INIT_NODE_HASH C \<notin> set (map (TreeNode_hash C) (?first @ ?rest))"
    using assms(4) link by (simp_all flip: map_append)
  obtain d1 where d1: "persist_other_msg K test_conf (key_of C s1 1) = Return d1"
      "hss_with_mysql_enabled K C s1 ''test'' addr d = Return (test_store C s1, d1)"
      "hss_init K (test_store C s1) d1 = Return (test_store C s1, d1)"
    using test_store_started by blast
  note test = test_unfold [OF d1 assms(2) len]
  have fails: "test_init_and_recover K C s1 s2 addr False d = Panic UnwrapNone"
    using nothing_to_recover [OF assms(1) d1(1)] by (simp add: test)
  have first: "linked C (INIT_NODE C) ?first" using link linked_take [of C "INIT_NODE C" "map snd chain" 4]
    by (simp add: take_map)
  have stor: "\<forall>p \<in> set ?first. storable C p" using assms(3) by (auto dest: in_set_takeD)
  have short: "length ?first < 2 ^ 64" by simp
  obtain hss where hss: "HotstuffStorage_recover K C ''test'' addr (flusher_flush K C ?data d1) = Return hss"
      "hs_in_mem_queue hss = fold (\<lambda>p. hm_insert (TreeNode_hash C p) (self_certified C p)) ?first []"
      "hs_backend hss = Some (MySQLStorage_new addr)" "hss_get_leaf hss = INIT_NODE C" "hs_signaturer hss = key_of C s1 1"
      "cf_total (hs_conf hss) = 4" "hs_prop_queue hss = []"
    using recover_initial_chain [OF assms(1) d1(1) first short stor refl, of addr] by blast
  have ne: "drop 4 chain \<noteq> []" using len by simp
  obtain t where t: "flush_or_panic (append_all C (drop 4 chain) hss) = Return t"
      "hs_in_mem_queue t = fold (\<lambda>p. hm_insert (TreeNode_hash C p) p) ?rest (hs_in_mem_queue hss)"
      "hs_state t = hs_state hss" "hs_conf t = hs_conf hss" "hs_signaturer t = hs_signaturer hss"
      "\<exists>data. hs_backend t = Some \<lparr>my_conn_pool = Some addr, my_channel = [Async data], my_receiver = Parked\<rparr>
        \<and> dd_prop_queue data = ?rest"
    using flush_append [OF ne hss(3,7), of C] by (auto simp: MySQLStorage_new_def)
  have get: "hss_get k t = (case map_of (map (\<lambda>p. (TreeNode_hash C p, p)) ?rest) k of Some v \<Rightarrow> Some v
      | None \<Rightarrow> map_of (map (\<lambda>p. (TreeNode_hash C p, self_certified C p)) ?first) k)" for k
    using keys(1) unfolding hss_get_def t(2) hss(2)
    by (simp add: fold_hm_insert_get hm_get_def [of _ "[]"] split: option.split)
  have "hss_get (TreeNode_hash C p) t = Some p" if "p \<in> set ?rest" for p
  proof -
    have "map_of (map (\<lambda>p. (TreeNode_hash C p, p)) ?rest) (TreeNode_hash C p) = Some p"
      using keys(1) that by (intro map_of_is_SomeI) (auto simp: comp_def image_iff)
    then show ?thesis by (simp add: get)
  qed
  moreover have "hss_get (TreeNode_hash C p) t = Some (self_certified C p)" if "p \<in> set ?first" for p
  proof -
    have "map_of (map (\<lambda>p. (TreeNode_hash C p, self_certified C p)) ?first) (TreeNode_hash C p) = Some (self_certified C p)"
      using keys(1) that by (intro map_of_is_SomeI) (auto simp: comp_def image_iff)
    moreover have "map_of (map (\<lambda>p. (TreeNode_hash C p, p)) ?rest) (TreeNode_hash C p) = None"
      using keys(1) that by (auto simp: map_of_eq_None_iff image_image)
    ultimately show ?thesis by (simp add: get)
  qed
  moreover have "hss_get (INIT_NODE_HASH C) t = None"
    using keys(2) by (simp add: get map_of_eq_None_iff image_image split: option.split)
  moreover have "test_init_and_recover K C s1 s2 addr True d = Return t" using hss(1) t(1) by (simp add: test)
  ultimately show ?thesis
    using fails hss(4-6) t(3-6) by (intro conjI exI [of _ t]) (simp_all add: self_certified_def hss_get_leaf_def key_of_def)
qed

lemma toy_storable:
  "linked toy q bs \<Longrightarrow> certified toy pks q bs \<Longrightarrow> length (node_hash_bytes (TreeNode_hash toy q)) = 32
   \<Longrightarrow> \<forall>p \<in> set bs. storable toy p"
proof (induction bs arbitrary: q)
  case (Cons b bs)
  have "length (node_hash_bytes (TreeNode_hash toy b)) = 32" using Cons.prems by (subst toy_hash) simp_all
  moreover have "decodable toy (qc_combined_sign (justify b))"
    using Cons.prems by (simp add: decodable_def toy_def TreeNode_to_be_bytes_def)
  ultimately show ?case using Cons.prems Cons.IH [of b] by (simp add: storable_def)
qed simp

theorem init_and_recover_races_witness:
  "\<exists>chain hss. form_chain toy (map as_bytes alice) (map (\<lambda>i. (i, secret_key_share toy toy_keys i)) [0..<4])
        (public_keys toy toy_keys) = Return chain \<and> length chain = 7
    \<and> test_init_and_recover toy_codec toy toy_keys toy_keys ''db'' True create_tables = Return hss
    \<and> hss_get (INIT_NODE_HASH toy) hss = None
    \<and> test_init_and_recover toy_codec toy toy_keys toy_keys ''db'' False create_tables = Panic UnwrapNone"
proof -
  let ?sks = "map (\<lambda>i. (i, secret_key_share toy toy_keys i)) [0..<4]" and ?pks = "public_keys toy toy_keys"
  have th: "pks_threshold toy ?pks < 4" by simp
  obtain chain where chain: "form_chain toy (map as_bytes alice) ?sks ?pks = Return chain"
      "certified toy ?pks (INIT_NODE toy) (map snd chain)"
    using form_chain_from_total [OF toy_combine_sound toy_share_sound th, of 0 "INIT_NODE_HASH toy" "INIT_NODE toy" "map as_bytes alice"]
    unfolding form_chain_def by blast
  have link: "linked toy (INIT_NODE toy) (map snd chain) \<and> map fst chain = map (TreeNode_hash toy) (map snd chain)
      \<and> map txs (map snd chain) = map (\<lambda>t. [Txn t]) (map as_bytes alice)"
    using form_chain_from_linked [of toy ?sks ?pks "INIT_NODE toy" "map as_bytes alice" chain] chain(1)
    by (simp add: form_chain_def INIT_NODE_HASH_def)
  then have "length (map txs (map snd chain)) = length (map (\<lambda>t. [Txn t]) (map as_bytes alice))" by (simp only:)
  then have len: "length chain = 7" by (simp add: alice_def)
  have hashes: "map fst chain = map (\<lambda>k. toy_hash_of (1 + of_nat k)) [0..<7]"
    using toy_linked_hashes [of "INIT_NODE toy" "map snd chain"] link len by (simp add: NodeHash_genesis_def)
  have "distinct (INIT_NODE_HASH toy # map fst chain)" unfolding hashes by (simp add: upt_rec INIT_NODE_HASH_def)
  moreover have "\<forall>p \<in> snd ` set chain. storable toy p"
    using toy_storable [of "INIT_NODE toy" "map snd chain"] link chain(2) by simp
  ultimately show ?thesis
    using init_and_recover_races [OF toy_codec_ok chain(1), of toy_keys "''db''" create_tables] chain(1) len by blast
qed

end
