(* ===== verification/MockHotstuff.thy ===== *)
theory MockHotstuff
  imports HssMachine RustText
begin

section \<open>hs-test, mocker\_hotstuff.rs: a machine under scripted peers\<close>

text \<open>
  \<open>MockHotStuff\<close> plays the other replicas of a cluster against one machine, the testee: it holds all
  keys, builds proposals and certificates, feeds them to the testee and checks its state. A failed
  assertion or \<open>unwrap\<close> is a panic. The key set that \<open>threshold_sign_kit\<close> draws is an argument of
  \<open>mock_init\<close>; a corrupted signature is uninitialised memory in the source, hence an argument of
  the methods that use one. The checked maps are those of the source; the unused field of the
  adversary and the token are kept.
\<close>

datatype ExpectedState =
    LockedAt string
  | CommittedBeforeHeight usize
  | QcHighOf string
  | ParentIs string TreeNode
  | QcOf string TreeNode

record MockHotStuff =
  mk_testee :: "HotstuffStorage Machine option"
  mk_token :: string
  mk_pks :: "PK option"
  mk_sk :: "SecretKeySet option"
  mk_sks :: "(usize \<times> SK) list"
  mk_tx_to_hash :: "(string, NodeHash) hash_map"
  mk_nodes :: "(NodeHash, TreeNode) hash_map"
  mk_qcs :: "(QCHash, GenericQC) hash_map"
  mk_parent :: NodeHash
  mk_qc_high :: GenericQC
  mk_height :: u64
  mk_th :: usize
  mk_n :: usize
  mk_leader_id :: usize
  mk_testee_id :: usize
  mk_init_done :: bool
  mk_adversial :: "usize option"

definition MockHotStuff_new :: "crypto \<Rightarrow> usize \<Rightarrow> MockHotStuff" where
  "MockHotStuff_new C n =
     (let init_qc = INIT_QC C; init_node_hash = INIT_NODE_HASH C
      in \<lparr>mk_testee = None, mk_token = ''test'', mk_pks = None, mk_sk = None, mk_sks = [],
          mk_tx_to_hash = [], mk_nodes = [], mk_qcs = [], mk_parent = init_node_hash, mk_qc_high = init_qc,
          mk_height = 0, mk_th = bft_threshold n, mk_n = n, mk_leader_id = 0, mk_testee_id = 0,
          mk_init_done = False, mk_adversial = None\<rparr>)"

definition exec_assert :: "bool \<Rightarrow> unit exec" where
  "exec_assert b = (if b then Return () else Panic AssertFailed)"

definition exec_unwrap :: "'a option \<Rightarrow> 'a exec" where
  "exec_unwrap x = exec_of_option UnwrapNone x"

definition specify_leader :: "usize \<Rightarrow> MockHotStuff \<Rightarrow> MockHotStuff exec" where
  "specify_leader leader mk =
     exec_bind (exec_assert (leader < mk_n mk)) (\<lambda>_. Return (mk\<lparr>mk_leader_id := leader\<rparr>))"

definition specify_testee :: "usize \<Rightarrow> MockHotStuff \<Rightarrow> MockHotStuff exec" where
  "specify_testee testee mk =
     exec_bind (exec_assert (testee < mk_n mk)) (\<lambda>_. Return (mk\<lparr>mk_testee_id := testee\<rparr>))"

definition specify_adversial :: "usize \<Rightarrow> MockHotStuff \<Rightarrow> MockHotStuff exec" where
  "specify_adversial adversial mk =
     exec_bind (exec_assert (adversial < mk_n mk)) (\<lambda>_. Return (mk\<lparr>mk_adversial := Some adversial\<rparr>))"

text \<open>\<open>format!("replica-{}", i)\<close>.\<close>

definition replica_name :: "usize \<Rightarrow> ReplicaID" where
  "replica_name i = ''replica-'' @ usize_to_string i"

definition mock_init :: "crypto \<Rightarrow> SecretKeySet \<Rightarrow> MockHotStuff \<Rightarrow> MockHotStuff exec" where
  "mock_init C s mk =
     exec_bind (exec_assert (\<not> mk_init_done mk)) (\<lambda>_.
     exec_bind (exec_assert (mk_n mk > 0)) (\<lambda>_.
     exec_bind (exec_assert (mk_testee_id mk < mk_n mk)) (\<lambda>_.
     let th = bft_threshold (mk_n mk)
     in exec_bind (threshold_sign_kit C s (mk_n mk) th) (\<lambda>(a, b, c).
          let init_node = INIT_NODE C; init_qc = INIT_QC C; init_node_hash = INIT_NODE_HASH C;
              init_qc_hash = INIT_QC_HASH C;
              signaturer = DefaultSignaturer_new (mk_testee_id mk) b (secret_key_share C a (mk_testee_id mk));
              vt = Voter_new th signaturer;
              peer_addr = [(replica_name (mk_testee_id mk), ''localhost:6666'')];
              store = init_in_mem_storage (mk_n mk) init_node init_node_hash init_qc
                (replica_name (mk_testee_id mk)) peer_addr signaturer;
              testee = Machine_new vt (replica_name (mk_testee_id mk)) (mk_n mk)
                (Some (replica_name (mk_leader_id mk))) store
          in Return (mk\<lparr>mk_th := th, mk_sk := Some a, mk_pks := Some b, mk_sks := c,
               mk_tx_to_hash := hm_insert ''init'' init_node_hash (mk_tx_to_hash mk),
               mk_qcs := hm_insert init_qc_hash init_qc (mk_qcs mk),
               mk_nodes := hm_insert init_node_hash init_node (mk_nodes mk),
               mk_parent := init_node_hash, mk_qc_high := init_qc,
               mk_testee := Some testee, mk_init_done := True\<rparr>)))))"

text \<open>A call on the testee: \<open>self.testee.as_mut().unwrap().f(..)\<close>.\<close>

definition on_testee ::
    "(HotstuffStorage Machine \<Rightarrow> (HotstuffStorage Machine \<times> 'a) exec) \<Rightarrow> MockHotStuff \<Rightarrow> (MockHotStuff \<times> 'a) exec" where
  "on_testee f mk =
     exec_bind (exec_unwrap (mk_testee mk)) (\<lambda>m. exec_bind (f m) (\<lambda>(m1, r).
       Return (mk\<lparr>mk_testee := Some m1\<rparr>, r)))"

subsection \<open>Proposals and certificates\<close>

definition mock_update ::
    "crypto \<Rightarrow> string \<Rightarrow> ViewNumber \<Rightarrow> GenericQC \<Rightarrow> TreeNode \<Rightarrow> NodeHash \<Rightarrow> MockHotStuff \<Rightarrow> MockHotStuff" where
  "mock_update C cmd view prev_qc node nhash mk =
     mk\<lparr>mk_tx_to_hash := hm_insert cmd nhash (mk_tx_to_hash mk), mk_height := max (mk_height mk) view,
       mk_parent := nhash, mk_qc_high := prev_qc,
       mk_nodes := hm_insert (TreeNode_hash C node) node (mk_nodes mk),
       mk_qcs := hm_insert (GenericQC_hash prev_qc) prev_qc (mk_qcs mk)\<rparr>"

definition form_qc :: "crypto \<Rightarrow> ViewNumber \<Rightarrow> TreeNode \<Rightarrow> NodeHash \<Rightarrow> MockHotStuff \<Rightarrow> GenericQC exec" where
  "form_qc C view node node_hash mk =
     (let node_bytes = TreeNode_to_be_bytes node;
          signs = map (\<lambda>(i, sk). (i, sk_sign C sk node_bytes)) (mk_sks mk)
      in exec_bind (exec_unwrap (mk_pks mk)) (\<lambda>pks.
         exec_bind (exec_unwrap (combine_signatures C pks signs)) (\<lambda>combined_sign.
           Return (GenericQC_new view node_hash combined_sign))))"

definition form_corrupted_qc :: "CombinedSign \<Rightarrow> ViewNumber \<Rightarrow> NodeHash \<Rightarrow> GenericQC" where
  "form_corrupted_qc combined_sign view node_hash = GenericQC_new view node_hash combined_sign"

definition mock_tick :: "crypto \<Rightarrow> MockHotStuff \<Rightarrow> MockHotStuff exec" where
  "mock_tick C mk =
     (let mk1 = mk\<lparr>mk_height := mk_height mk + 1\<rparr>
      in exec_bind (on_testee (\<lambda>m. Return (on_view_change (hss_safety_storage C)
             (replica_name (mk_leader_id mk1)) (mk_height mk1) m)) mk1) (\<lambda>(mk2, res).
           case res of Inr _ \<Rightarrow> Return mk2 | Inl _ \<Rightarrow> Panic UnwrapNone))"

text \<open>The loop of \<open>prepare_proposals\<close>, from its three running variables.\<close>

fun prepare_loop ::
    "crypto \<Rightarrow> MockHotStuff \<Rightarrow> u64 \<Rightarrow> NodeHash \<Rightarrow> GenericQC \<Rightarrow> string list \<Rightarrow> (TreeNode \<times> NodeHash) list exec" where
  "prepare_loop C mk h par prev_qc [] = Return []"
| "prepare_loop C mk h par prev_qc (cmd # cmds) =
     (let (node, nhash) = TreeNode_node_and_hash C [Txn (as_bytes cmd)] (h + 1) par prev_qc
      in exec_bind (form_qc C (h + 1) node nhash mk) (\<lambda>qc.
         exec_bind (prepare_loop C mk (h + 1) nhash qc cmds) (\<lambda>props.
           Return ((node, nhash) # props))))"

definition prepare_proposals :: "crypto \<Rightarrow> string list \<Rightarrow> MockHotStuff \<Rightarrow> (TreeNode \<times> NodeHash) list exec" where
  "prepare_proposals C cmds mk = prepare_loop C mk (mk_height mk) (mk_parent mk) (mk_qc_high mk) cmds"

definition testee_recv_honest_proposal ::
    "crypto \<Rightarrow> TreeNode \<Rightarrow> GenericQC \<Rightarrow> MockHotStuff \<Rightarrow> (MockHotStuff \<times> (SafetyErr + Ready)) exec" where
  "testee_recv_honest_proposal C node just mk =
     on_testee (on_recv_proposal C (hss_safety_storage C)
       (Context_single (replica_name (mk_leader_id mk)) (replica_name (mk_testee_id mk)) (mk_height mk)) node just) mk"

definition mock_propose ::
    "crypto \<Rightarrow> NodeHash \<Rightarrow> string \<Rightarrow> GenericQC \<Rightarrow> MockHotStuff \<Rightarrow> (MockHotStuff \<times> (SafetyErr + Ready)) exec" where
  "mock_propose C parent_hash tx qc mk =
     exec_bind (mock_tick C mk) (\<lambda>mk1.
       let (node, nhash) = TreeNode_node_and_hash C [Txn (as_bytes tx)] (mk_height mk1) parent_hash qc
       in exec_bind (testee_recv_honest_proposal C node qc mk1) (\<lambda>(mk2, res).
            Return (mock_update C tx (mk_height mk2) qc node nhash mk2, res)))"

text \<open>The loop of \<open>testee_load_consecutive_proposals\<close> over the zipped commands and proposals.\<close>

fun load_loop :: "crypto \<Rightarrow> (string \<times> TreeNode \<times> NodeHash) list \<Rightarrow> MockHotStuff \<Rightarrow> MockHotStuff exec" where
  "load_loop C [] mk = Return mk"
| "load_loop C ((cmd, node, nhash) # rest) mk =
     exec_bind (testee_recv_honest_proposal C node (justify node) mk) (\<lambda>(mk1, res).
     exec_bind (exec_assert (case res of Inr _ \<Rightarrow> True | Inl _ \<Rightarrow> False)) (\<lambda>_.
       load_loop C rest (mock_update C cmd (height node) (justify node) node nhash mk1)))"

definition testee_load_consecutive_proposals :: "crypto \<Rightarrow> string list \<Rightarrow> MockHotStuff \<Rightarrow> MockHotStuff exec" where
  "testee_load_consecutive_proposals C cmds mk =
     exec_bind (prepare_proposals C cmds mk) (\<lambda>nodes. load_loop C (zip cmds nodes) mk)"

definition extend_from :: "crypto \<Rightarrow> string \<Rightarrow> string \<Rightarrow> MockHotStuff \<Rightarrow> MockHotStuff exec" where
  "extend_from C par tx mk =
     exec_bind (exec_unwrap (hm_get par (mk_tx_to_hash mk))) (\<lambda>parent_hash.
     exec_bind (exec_unwrap (hm_get parent_hash (mk_nodes mk))) (\<lambda>parent_node.
     exec_bind (form_qc C (mk_height mk) parent_node parent_hash mk) (\<lambda>qc.
     exec_bind (mock_tick C mk) (\<lambda>mk1.
     exec_bind (mock_propose C parent_hash tx qc mk1) (\<lambda>(mk2, res).
     exec_bind (exec_assert (case res of Inr (Signature _ _ _) \<Rightarrow> True | _ \<Rightarrow> False)) (\<lambda>_. Return mk2))))))"

definition propose_with_corrupted_qc ::
    "crypto \<Rightarrow> CombinedSign \<Rightarrow> string \<Rightarrow> string \<Rightarrow> MockHotStuff \<Rightarrow> MockHotStuff exec" where
  "propose_with_corrupted_qc C junk par tx mk =
     exec_bind (exec_unwrap (hm_get par (mk_tx_to_hash mk))) (\<lambda>parent_hash.
       let qc = form_corrupted_qc junk (mk_height mk) parent_hash
       in exec_bind (mock_tick C mk) (\<lambda>mk1.
          exec_bind (mock_propose C parent_hash tx qc mk1) (\<lambda>(mk2, res).
          exec_bind (exec_assert (case res of Inl CorruptedQC \<Rightarrow> True | _ \<Rightarrow> False)) (\<lambda>_. Return mk2))))"

subsection \<open>Checks\<close>

definition check_hotstuff_state_with :: "crypto \<Rightarrow> ExpectedState \<Rightarrow> MockHotStuff \<Rightarrow> unit exec" where
  "check_hotstuff_state_with C expected mk =
     exec_bind (exec_unwrap (mk_testee mk)) (\<lambda>testee.
       let ss = take_snapshot (hss_safety_storage C) testee
       in case expected of
            LockedAt tx \<Rightarrow>
              exec_bind (exec_unwrap (hm_get tx (mk_tx_to_hash mk))) (\<lambda>node_hash.
              exec_bind (exec_unwrap (hm_get node_hash (mk_nodes mk))) (\<lambda>node.
                exec_assert (height (ss_locked_node ss) = height node)))
          | CommittedBeforeHeight h \<Rightarrow> exec_assert (ss_last_committed ss \<ge> word_of_nat h)
          | QcHighOf tx \<Rightarrow>
              exec_bind (exec_unwrap (hm_get tx (mk_tx_to_hash mk))) (\<lambda>prop_hash.
              exec_bind (exec_unwrap (hm_get (qc_node (ss_qc_high ss)) (mk_nodes mk))) (\<lambda>_.
                exec_assert (qc_node (ss_qc_high ss) = prop_hash)))
          | _ \<Rightarrow> Panic PanicCall)"

definition check_proposal_with :: "ExpectedState \<Rightarrow> MockHotStuff \<Rightarrow> unit exec" where
  "check_proposal_with expected mk =
     (case expected of
        ParentIs par prop \<Rightarrow>
          exec_bind (exec_unwrap (hm_get par (mk_tx_to_hash mk))) (\<lambda>par_hash. exec_assert (par_hash = parent prop))
      | QcOf qc_node_tx prop \<Rightarrow>
          exec_bind (exec_unwrap (hm_get qc_node_tx (mk_tx_to_hash mk))) (\<lambda>qc_node_hash.
            exec_assert (qc_node_hash = qc_node (justify prop)))
      | _ \<Rightarrow> Panic PanicCall)"

subsection \<open>Other messages to the testee\<close>

text \<open>The loop of \<open>sync_state\<close> that records the branch in the mocker.\<close>

fun sync_update :: "crypto \<Rightarrow> TreeNode list \<Rightarrow> MockHotStuff \<Rightarrow> MockHotStuff exec" where
  "sync_update C [] mk = Return mk"
| "sync_update C (node # branch) mk =
     exec_bind (exec_unwrap (case txs node of [] \<Rightarrow> None | t # _ \<Rightarrow> Some t)) (\<lambda>t.
     exec_bind (exec_unwrap (from_utf8 (txn_bytes t))) (\<lambda>cmd.
       sync_update C branch (mock_update C cmd (height node) (justify node) node (TreeNode_hash C node) mk)))"

definition mock_sync_state :: "crypto \<Rightarrow> TreeNode list \<Rightarrow> MockHotStuff \<Rightarrow> MockHotStuff exec" where
  "mock_sync_state C branch mk =
     exec_bind (sync_update C branch mk) (\<lambda>mk1.
     exec_bind (on_testee (process_safety_event C (hss_safety_storage C) (BranchSync
         (Context_single (replica_name (mk_leader_id mk1)) (replica_name (mk_testee_id mk1)) 6) branch)) mk1) (\<lambda>(mk2, res).
       case res of Inr _ \<Rightarrow> Return mk2 | Inl _ \<Rightarrow> Panic UnwrapNone))"

fun testee_recv_new_view_msgs :: "crypto \<Rightarrow> (usize \<times> string) list \<Rightarrow> MockHotStuff \<Rightarrow> MockHotStuff exec" where
  "testee_recv_new_view_msgs C [] mk = Return mk"
| "testee_recv_new_view_msgs C ((i, tx) # msgs) mk =
     exec_bind (exec_unwrap (hm_get tx (mk_tx_to_hash mk))) (\<lambda>node_hash.
     exec_bind (exec_unwrap (hm_get node_hash (mk_nodes mk))) (\<lambda>node.
     exec_bind (on_testee (process_safety_event C (hss_safety_storage C) (RecvNewViewMsg
         (Context_single (replica_name (mk_leader_id mk)) (replica_name (mk_testee_id mk)) (mk_height mk))
         (justify node))) mk) (\<lambda>(mk1, res).
       case res of Inr _ \<Rightarrow> testee_recv_new_view_msgs C msgs mk1 | Inl _ \<Rightarrow> Panic UnwrapNone)))"

definition testee_make_proposal :: "crypto \<Rightarrow> string \<Rightarrow> MockHotStuff \<Rightarrow> (MockHotStuff \<times> Ready) exec" where
  "testee_make_proposal C new_tx mk =
     exec_bind (mock_tick C mk) (\<lambda>mk1.
     exec_bind (on_testee (process_safety_event C (hss_safety_storage C) (NewTx [Txn (as_bytes new_tx)])) mk1) (\<lambda>(mk2, r).
       case r of
         Inl _ \<Rightarrow> Panic UnwrapNone
       | Inr res \<Rightarrow>
           (case res of
              NewProposal _ node \<Rightarrow>
                Return (mock_update C new_tx (mk_height mk2) (justify node) node (TreeNode_hash C node) mk2, res)
            | _ \<Rightarrow> Panic PanicCall)))"

definition testee_recv_corrupted_view_msg ::
    "crypto \<Rightarrow> CombinedSign \<Rightarrow> string \<Rightarrow> MockHotStuff \<Rightarrow> MockHotStuff exec" where
  "testee_recv_corrupted_view_msg C junk qc_node_tx mk =
     exec_bind (exec_unwrap (hm_get qc_node_tx (mk_tx_to_hash mk))) (\<lambda>prev_qc_hash.
       let prev_qc = form_corrupted_qc junk (mk_height mk) prev_qc_hash
       in exec_bind (on_testee (process_safety_event C (hss_safety_storage C) (RecvNewViewMsg
            (Context_single (replica_name (mk_leader_id mk)) (replica_name (mk_testee_id mk)) (mk_height mk))
            prev_qc)) mk) (\<lambda>(mk1, _). Return mk1))"

datatype MockEvent = CorruptedVoteOf usize string | AcceptedVote usize string

fun testee_recv_votes :: "crypto \<Rightarrow> Sign \<Rightarrow> MockEvent list \<Rightarrow> MockHotStuff \<Rightarrow> MockHotStuff exec" where
  "testee_recv_votes C junk [] mk = Return mk"
| "testee_recv_votes C junk (AcceptedVote from tx # votes) mk =
     exec_bind (exec_unwrap (hm_get tx (mk_tx_to_hash mk))) (\<lambda>node_hash.
     exec_bind (exec_unwrap (hm_get node_hash (mk_nodes mk))) (\<lambda>node.
     exec_bind (exec_unwrap (mk_sk mk)) (\<lambda>sk.
       let sign = sk_sign C (secret_key_share C sk from) (TreeNode_to_be_bytes node)
       in exec_bind (on_testee (on_recv_vote C (hss_safety_storage C)
            (Context_single (replica_name from) (replica_name (mk_testee_id mk)) (mk_height mk))
            node (SignKit_from (sign, from))) mk) (\<lambda>(mk1, _). testee_recv_votes C junk votes mk1))))"
| "testee_recv_votes C junk (CorruptedVoteOf from tx # votes) mk =
     exec_bind (exec_unwrap (hm_get tx (mk_tx_to_hash mk))) (\<lambda>node_hash.
     exec_bind (exec_unwrap (hm_get node_hash (mk_nodes mk))) (\<lambda>node.
     exec_bind (on_testee (on_recv_vote C (hss_safety_storage C)
         (Context_single (replica_name (mk_leader_id mk)) (replica_name (mk_testee_id mk)) (mk_height mk))
         node (SignKit_from (junk, from))) mk) (\<lambda>(mk1, err).
     exec_bind (exec_assert (case err of Inl _ \<Rightarrow> True | Inr _ \<Rightarrow> False)) (\<lambda>_. testee_recv_votes C junk votes mk1))))"

section \<open>hs-test, safety.rs: the scenarios\<close>

text \<open>
  Each test is the run of its script; it passes when the run returns. Opening the log file is left out.
\<close>

definition mock_setup :: "crypto \<Rightarrow> SecretKeySet \<Rightarrow> usize \<Rightarrow> usize \<Rightarrow> usize option \<Rightarrow> usize \<Rightarrow> MockHotStuff exec" where
  "mock_setup C s leader testee adversial n =
     exec_bind (specify_leader leader (MockHotStuff_new C n)) (\<lambda>mk1.
     exec_bind (specify_testee testee mk1) (\<lambda>mk2.
     exec_bind (case adversial of Some a \<Rightarrow> specify_adversial a mk2 | None \<Rightarrow> Return mk2) (mock_init C s)))"

definition test_competitive_branchs :: "crypto \<Rightarrow> SecretKeySet \<Rightarrow> unit exec" where
  "test_competitive_branchs C s =
     exec_bind (mock_setup C s 0 1 None 4) (\<lambda>mk1.
     exec_bind (testee_load_consecutive_proposals C [''a1'', ''a2'', ''a3''] mk1) (\<lambda>mk2.
     exec_bind (check_hotstuff_state_with C (LockedAt ''a1'') mk2) (\<lambda>_.
     exec_bind (extend_from C ''a1'' ''b1'' mk2) (\<lambda>mk3.
     exec_bind (extend_from C ''b1'' ''b2'' mk3) (\<lambda>mk4.
     exec_bind (check_hotstuff_state_with C (LockedAt ''a1'') mk4) (\<lambda>_.
     exec_bind (extend_from C ''a3'' ''a4'' mk4) (\<lambda>mk5.
     exec_bind (check_hotstuff_state_with C (CommittedBeforeHeight 1) mk5) (\<lambda>_.
       check_hotstuff_state_with C (LockedAt ''a2'') mk5))))))))"

definition test_consecutive_commit :: "crypto \<Rightarrow> SecretKeySet \<Rightarrow> unit exec" where
  "test_consecutive_commit C s =
     exec_bind (mock_setup C s 0 1 None 4) (\<lambda>mk1.
     exec_bind (testee_load_consecutive_proposals C [''a1'', ''a2'', ''a3'', ''a4''] mk1) (\<lambda>mk2.
     exec_bind (check_hotstuff_state_with C (LockedAt ''a2'') mk2) (\<lambda>_.
       check_hotstuff_state_with C (CommittedBeforeHeight 1) mk2)))"

definition test_propose_with_corrupted_qc :: "crypto \<Rightarrow> SecretKeySet \<Rightarrow> CombinedSign \<Rightarrow> unit exec" where
  "test_propose_with_corrupted_qc C s junk =
     exec_bind (mock_setup C s 0 1 (Some 0) 4) (\<lambda>mk1.
     exec_bind (testee_load_consecutive_proposals C [''a1''] mk1) (\<lambda>mk2.
     exec_bind (propose_with_corrupted_qc C junk ''a1'' ''a2'' mk2) (\<lambda>mk3.
     exec_bind (propose_with_corrupted_qc C junk ''a2'' ''a3'' mk3) (\<lambda>mk4.
     exec_bind (propose_with_corrupted_qc C junk ''a3'' ''a4'' mk4) (\<lambda>mk5.
     exec_bind (check_hotstuff_state_with C (CommittedBeforeHeight 0) mk5) (\<lambda>_.
     exec_bind (check_hotstuff_state_with C (LockedAt ''init'') mk5) (\<lambda>_.
     exec_bind (extend_from C ''a1'' ''b1'' mk5) (\<lambda>mk6.
     exec_bind (extend_from C ''b1'' ''b2'' mk6) (\<lambda>mk7.
     exec_bind (extend_from C ''b2'' ''b3'' mk7) (\<lambda>mk8.
     exec_bind (check_hotstuff_state_with C (CommittedBeforeHeight 1) mk8) (\<lambda>_.
       check_hotstuff_state_with C (LockedAt ''b1'') mk8)))))))))))"

definition test_new_proposal :: "crypto \<Rightarrow> SecretKeySet \<Rightarrow> unit exec" where
  "test_new_proposal C s =
     exec_bind (mock_setup C s 0 0 None 4) (\<lambda>mk1.
     exec_bind (testee_load_consecutive_proposals C [''a1'', ''a2'', ''a3'', ''a4'', ''a5''] mk1) (\<lambda>mk2.
     exec_bind (testee_recv_new_view_msgs C [(0, ''a2''), (1, ''a3''), (2, ''a4'')] mk2) (\<lambda>mk3.
     exec_bind (testee_make_proposal C ''a6'' mk3) (\<lambda>(mk4, output).
       case output of
         NewProposal _ prop \<Rightarrow>
           exec_bind (check_proposal_with (QcOf ''a4'' prop) mk4) (\<lambda>_. check_proposal_with (ParentIs ''a4'' prop) mk4)
       | _ \<Rightarrow> Panic PanicCall))))"

definition test_corrupted_new_view_msg :: "crypto \<Rightarrow> SecretKeySet \<Rightarrow> CombinedSign \<Rightarrow> unit exec" where
  "test_corrupted_new_view_msg C s junk =
     exec_bind (mock_setup C s 0 0 (Some 1) 4) (\<lambda>mk1.
     exec_bind (testee_load_consecutive_proposals C [''a1'', ''a2'', ''a3'', ''a4''] mk1) (\<lambda>mk2.
     exec_bind (testee_recv_corrupted_view_msg C junk ''a3'' mk2) (\<lambda>mk3.
     exec_bind (testee_make_proposal C ''a5'' mk3) (\<lambda>(mk4, output).
       case output of
         NewProposal _ prop \<Rightarrow>
           exec_bind (check_proposal_with (QcOf ''a3'' prop) mk4) (\<lambda>_. check_proposal_with (ParentIs ''a3'' prop) mk4)
       | _ \<Rightarrow> Panic PanicCall))))"

definition test_corrupted_vote :: "crypto \<Rightarrow> SecretKeySet \<Rightarrow> Sign \<Rightarrow> unit exec" where
  "test_corrupted_vote C s junk =
     exec_bind (mock_setup C s 0 0 (Some 1) 4) (\<lambda>mk1.
     exec_bind (testee_load_consecutive_proposals C [''a1'', ''a2'', ''a3''] mk1) (\<lambda>mk2.
     exec_bind (testee_make_proposal C ''a4'' mk2) (\<lambda>(mk3, _).
     exec_bind (check_hotstuff_state_with C (QcHighOf ''a2'') mk3) (\<lambda>_.
     exec_bind (testee_recv_votes C junk [AcceptedVote 2 ''a4'', CorruptedVoteOf 1 ''a4''] mk3) (\<lambda>mk4.
     exec_bind (check_hotstuff_state_with C (QcHighOf ''a2'') mk4) (\<lambda>_.
     exec_bind (testee_recv_votes C junk [AcceptedVote 3 ''a4''] mk4) (\<lambda>mk5.
       check_hotstuff_state_with C (QcHighOf ''a4'') mk5)))))))"

definition test_sync_state :: "crypto \<Rightarrow> SecretKeySet \<Rightarrow> unit exec" where
  "test_sync_state C s =
     exec_bind (mock_setup C s 0 0 (Some 1) 4) (\<lambda>mk1.
     exec_bind (testee_load_consecutive_proposals C [''a1'', ''a2'', ''a3''] mk1) (\<lambda>mk2.
     exec_bind (prepare_proposals C [''a4'', ''a5'', ''a6'', ''a7'', ''a8''] mk2) (\<lambda>branch.
     exec_bind (exec_unwrap (if branch = [] then None else Some (fst (last branch)))) (\<lambda>a6.
     exec_bind (on_testee (process_safety_event C (hss_safety_storage C)
         (RecvProposal (Context_single (replica_name 0) (replica_name 0) (height a6)) a6)) mk2) (\<lambda>(mk3, output).
     exec_bind (case output of Inl CorruptedQC \<Rightarrow> Return () | _ \<Rightarrow> Panic PanicCall) (\<lambda>_.
     exec_bind (check_hotstuff_state_with C (LockedAt ''a1'') mk3) (\<lambda>_.
     exec_bind (mock_sync_state C (map fst (take 2 branch)) mk3) (\<lambda>mk4.
     exec_bind (mock_sync_state C (map fst (take 2 (drop 2 branch))) mk4) (\<lambda>mk5.
     exec_bind (extend_from C ''a7'' ''a8'' mk5) (\<lambda>mk6.
       check_hotstuff_state_with C (LockedAt ''a6'') mk6))))))))))"

end
