(* ===== verification/MockProps.thy ===== *)
theory MockProps
  imports MockHotstuff HonestChain
begin

section \<open>What the scenarios of hs-test show, for every scheme and every script of their kind\<close>

text \<open>
  The tests of \<^verbatim>\<open>hs-test\<close> run fixed scripts on one randomly drawn key set. Here the two steps they
  are made of are settled in general: loading a chain of any length never trips an assertion and
  leaves the testee where the checks expect it, for every sound threshold scheme; and a proposal
  whose certificate does not verify is refused in every state, without a trace in the chain state.
\<close>

subsection \<open>Setting up\<close>

definition mock_keys :: "crypto \<Rightarrow> SecretKeySet \<Rightarrow> usize \<Rightarrow> MockHotStuff \<Rightarrow> bool" where
  "mock_keys C s n mk \<longleftrightarrow> mk_pks mk = Some (public_keys C s)
     \<and> mk_sks mk = map (\<lambda>i. (i, secret_key_share C s i)) [0..<n]"

definition mock_scheme :: "crypto \<Rightarrow> SecretKeySet \<Rightarrow> usize \<Rightarrow> bool" where
  "mock_scheme C s n \<longleftrightarrow> share_sound C s \<and> combine_sound C (public_keys C s) \<and> pks_threshold C (public_keys C s) < n"

lemma mock_setup_returns:
  assumes "leader < n" and "testee < n" and "\<forall>a. adv = Some a \<longrightarrow> a < n"
  shows "\<exists>mk m. mock_setup C s leader testee adv n = Return mk \<and> mock_keys C s n mk \<and> mk_testee mk = Some m
    \<and> m = (fresh_machine C n (replica_name testee) [(replica_name testee, ''localhost:6666'')] (key_of C s testee))
          \<lparr>m_leader_id := Some (replica_name leader)\<rparr>
    \<and> mk_height mk = 0 \<and> mk_parent mk = TreeNode_hash C (INIT_NODE C) \<and> mk_qc_high mk = INIT_QC C
    \<and> mk_tx_to_hash mk = [(''init'', TreeNode_hash C (INIT_NODE C))]
    \<and> mk_nodes mk = [(TreeNode_hash C (INIT_NODE C), INIT_NODE C)]"
proof -
  have "\<not> n < bft_threshold n" "0 < n" using bft_threshold_le [of n] assms(1) by (simp_all add: not_less)
  then show ?thesis
    using assms
    by (auto simp: mock_setup_def specify_leader_def specify_testee_def specify_adversial_def exec_assert_def
        mock_init_def MockHotStuff_new_def threshold_sign_kit_def mock_keys_def key_of_def fresh_machine_def
        Machine_new_def fresh_store_def INIT_NODE_HASH_def hm_insert_def Let_def split: option.split)
qed

subsection \<open>The proposals of the mocker form an honest chain\<close>

lemma form_qc_sound:
  assumes "mock_scheme C s n" and "mock_keys C s n mk"
  shows "\<exists>sg. form_qc C v node h mk = Return (GenericQC_new v h sg)
    \<and> combined_verify C (public_keys C s) sg (TreeNode_to_be_bytes node)"
proof -
  obtain sg where "form_combined_sign C node (map (\<lambda>i. (i, secret_key_share C s i)) [0..<n]) (public_keys C s) = Return sg"
      "combined_verify C (public_keys C s) sg (TreeNode_to_be_bytes node)"
    using form_combined_sign_sound assms(1) unfolding mock_scheme_def by blast
  then show ?thesis
    using assms(2) by (auto simp: form_qc_def form_combined_sign_def mock_keys_def exec_unwrap_def Let_def
        exec_of_option_eq_Return split: option.splits)
qed

lemma prepare_loop_chain:
  assumes "mock_scheme C s n" and "mock_keys C s n mk"
  shows "qc_node qc = TreeNode_hash C p \<Longrightarrow> qc_view qc = height p \<Longrightarrow> is_init_qc C qc \<or> combined_verify C (public_keys C s) (qc_combined_sign qc) (TreeNode_to_be_bytes p)
    \<Longrightarrow> \<exists>bs. prepare_loop C mk (height p) (TreeNode_hash C p) qc cmds = Return (map (\<lambda>b. (b, TreeNode_hash C b)) bs)
      \<and> length bs = length cmds \<and> linked C p bs \<and> vouched C (public_keys C s) p bs"
proof (induction cmds arbitrary: p qc)
  case (Cons cmd cmds)
  let ?b = "\<lparr>height = height p + 1, txs = [Txn (as_bytes cmd)], parent = TreeNode_hash C p, justify = qc\<rparr>"
  obtain sg where sg: "form_qc C (height p + 1) ?b (TreeNode_hash C ?b) mk = Return (GenericQC_new (height p + 1) (TreeNode_hash C ?b) sg)"
      "combined_verify C (public_keys C s) sg (TreeNode_to_be_bytes ?b)"
    using form_qc_sound [OF assms] by blast
  let ?qc = "GenericQC_new (height p + 1) (TreeNode_hash C ?b) sg"
  have "qc_node ?qc = TreeNode_hash C ?b" "qc_view ?qc = height ?b"
    "is_init_qc C ?qc \<or> combined_verify C (public_keys C s) (qc_combined_sign ?qc) (TreeNode_to_be_bytes ?b)"
    using sg(2) by simp_all
  from Cons.IH [OF this] obtain bs where bs: "prepare_loop C mk (height ?b) (TreeNode_hash C ?b) ?qc cmds
      = Return (map (\<lambda>b. (b, TreeNode_hash C b)) bs)" "length bs = length cmds" "linked C ?b bs" "vouched C (public_keys C s) ?b bs"
    by blast
  with sg Cons.prems show ?case
    by (intro exI [of _ "?b # bs"]) (simp add: TreeNode_node_and_hash_def Let_def)
qed simp

subsection \<open>Loading a chain\<close>

text \<open>
  The state while a chain is loaded: the testee follows it, and the mocker has filed its blocks
  under the names of their commands.
\<close>

definition loaded :: "crypto \<Rightarrow> PK \<Rightarrow> TreeNode list \<Rightarrow> string list \<Rightarrow> nat \<Rightarrow> MockHotStuff \<Rightarrow> bool" where
  "loaded C pks bs cmds k mk \<longleftrightarrow>
     (\<exists>m. mk_testee mk = Some m \<and> machine_ok (hss_inv C) m \<and> sg_pks (vt_signature (m_voter m)) = pks
        \<and> follows C bs k (chain_of (m_storage m)))
     \<and> (\<forall>j \<le> k. hm_get ((''init'' # cmds) ! j) (mk_tx_to_hash mk) = Some (TreeNode_hash C (block C bs j))
          \<and> hm_get (TreeNode_hash C (block C bs j)) (mk_nodes mk) = Some (block C bs j))"

lemma load_step:
  assumes hc: "honest_chain C pks bs" and dist: "distinct (''init'' # cmds)" and len: "length bs = length cmds"
    and k: "k < length cmds" and inv: "loaded C pks bs cmds k mk"
  shows "\<exists>mk1 r. testee_recv_honest_proposal C (bs ! k) (justify (bs ! k)) mk = Return (mk1, Inr r)
    \<and> loaded C pks bs cmds (Suc k) (mock_update C (cmds ! k) (height (bs ! k)) (justify (bs ! k)) (bs ! k) (TreeNode_hash C (bs ! k)) mk1)"
proof -
  let ?ctx = "Context_single (replica_name (mk_leader_id mk)) (replica_name (mk_testee_id mk)) (mk_height mk)"
  from inv obtain m where m: "mk_testee mk = Some m" "machine_ok (hss_inv C) m" "sg_pks (vt_signature (m_voter m)) = pks"
      "follows C bs k (chain_of (m_storage m))" by (auto simp: loaded_def)
  have "honest_chain C (sg_pks (vt_signature (m_voter m))) bs" "k < length bs" using hc m(3) k len by simp_all
  from honest_step [OF m(2) this(1) m(4) this(2), of ?ctx] obtain m1 r where
      "on_recv_proposal C (hss_safety_storage C) ?ctx (bs ! k) (justify (bs ! k)) m = Return (m1, Inr r)"
      and m1: "machine_ok (hss_inv C) m1" "follows C bs (Suc k) (chain_of (m_storage m1))" "m_voter m1 = m_voter m" by auto
  then have recv: "testee_recv_honest_proposal C (bs ! k) (justify (bs ! k)) mk = Return (mk\<lparr>mk_testee := Some m1\<rparr>, Inr r)"
    by (simp add: testee_recv_honest_proposal_def on_testee_def m(1) exec_unwrap_def)
  have names: "(''init'' # cmds) ! j \<noteq> cmds ! k" if "j \<le> k" for j
  proof -
    have "(''init'' # cmds) ! j \<noteq> (''init'' # cmds) ! Suc k"
      using that k by (subst nth_eq_iff_index_eq [OF dist]) simp_all
    then show ?thesis by simp
  qed
  have hashes: "TreeNode_hash C (block C bs j) \<noteq> TreeNode_hash C (bs ! k)" if "j \<le> k" for j
    using block_hash_inject [OF hc, of j "Suc k"] that k len by (simp add: block_def)
  have "bs ! k = block C bs (Suc k)" by (simp add: block_def)
  then have "loaded C pks bs cmds (Suc k) (mock_update C (cmds ! k) (height (bs ! k)) (justify (bs ! k)) (bs ! k)
      (TreeNode_hash C (bs ! k)) (mk\<lparr>mk_testee := Some m1\<rparr>))"
    using inv m1 m(3) names hashes unfolding loaded_def mock_update_def by (auto simp: map_simps le_Suc_eq)
  with recv show ?thesis by blast
qed

lemma load_loop_returns:
  assumes hc: "honest_chain C pks bs" and dist: "distinct (''init'' # cmds)" and len: "length bs = length cmds"
    and "k \<le> length cmds" and "loaded C pks bs cmds k mk"
  shows "\<exists>mk1. load_loop C (drop k (zip cmds (map (\<lambda>b. (b, TreeNode_hash C b)) bs))) mk = Return mk1
    \<and> loaded C pks bs cmds (length cmds) mk1"
  using assms(4,5)
proof (induction "length cmds - k" arbitrary: k mk)
  case 0
  then show ?case using len by auto
next
  case (Suc n)
  then have k: "k < length cmds" by simp
  obtain mk1 r where recv: "testee_recv_honest_proposal C (bs ! k) (justify (bs ! k)) mk = Return (mk1, Inr r)"
      and l1: "loaded C pks bs cmds (Suc k) (mock_update C (cmds ! k) (height (bs ! k)) (justify (bs ! k)) (bs ! k) (TreeNode_hash C (bs ! k)) mk1)"
    using load_step [OF hc dist len k Suc.prems(2)] by blast
  have "drop k (zip cmds (map (\<lambda>b. (b, TreeNode_hash C b)) bs))
      = (cmds ! k, bs ! k, TreeNode_hash C (bs ! k)) # drop (Suc k) (zip cmds (map (\<lambda>b. (b, TreeNode_hash C b)) bs))"
    using k len by (subst Cons_nth_drop_Suc [symmetric]) simp_all
  then show ?case
    using recv Suc.hyps(1) [of "Suc k", OF _ _ l1] Suc.hyps(2) k by (simp add: exec_assert_def)
qed

text \<open>The checks on a loaded chain of \<open>k\<close> blocks, the initial node being block \<open>0\<close>.\<close>

lemma loaded_checks:
  assumes hc: "honest_chain C pks bs" and len: "length bs = length cmds" and l: "loaded C pks bs cmds (length cmds) mk"
  shows "check_hotstuff_state_with C (LockedAt ((''init'' # cmds) ! (length cmds - 2))) mk = Return ()"
    and "check_hotstuff_state_with C (QcHighOf ((''init'' # cmds) ! (length cmds - 1))) mk = Return ()"
    and "h < 2 ^ 64 \<Longrightarrow> check_hotstuff_state_with C (CommittedBeforeHeight h) mk = Return () \<longleftrightarrow> h \<le> length cmds - 3"
proof -
  from l obtain m where m: "mk_testee mk = Some m" "machine_ok (hss_inv C) m" "follows C bs (length cmds) (chain_of (m_storage m))"
    by (auto simp: loaded_def)
  have names: "hm_get ((''init'' # cmds) ! j) (mk_tx_to_hash mk) = Some (TreeNode_hash C (block C bs j))"
    "hm_get (TreeNode_hash C (block C bs j)) (mk_nodes mk) = Some (block C bs j)" if "j \<le> length cmds" for j
    using l that by (simp_all add: loaded_def)
  have st: "st_b_locked (hs_state (m_storage m)) = block C bs (length cmds - 2)"
      "qc_node (st_qc_high (hs_state (m_storage m))) = TreeNode_hash C (block C bs (length cmds - 1))"
      "st_committed_height (hs_state (m_storage m)) = height (block C bs (length cmds - 3))"
    using m(2,3) by (simp_all add: follows_def machine_ok_def hss_inv_def)
  note ck = check_hotstuff_state_with_def m(1) take_snapshot_def hss_hotstuff_status_def exec_unwrap_def exec_assert_def Let_def st
  show "check_hotstuff_state_with C (LockedAt ((''init'' # cmds) ! (length cmds - 2))) mk = Return ()"
    using names [of "length cmds - 2"] by (simp add: ck)
  show "check_hotstuff_state_with C (QcHighOf ((''init'' # cmds) ! (length cmds - 1))) mk = Return ()"
    using names [of "length cmds - 1"] by (simp add: ck)
  have "length cmds < 2 ^ 64" using hc len by (simp add: honest_chain_def)
  then show "check_hotstuff_state_with C (CommittedBeforeHeight h) mk = Return () \<longleftrightarrow> h \<le> length cmds - 3" if "h < 2 ^ 64"
    using that len by (simp add: ck block_height [OF hc] word_le_nat_alt unat_of_nat)
qed

text \<open>C21: the scripts of the test bench that load a chain pass, whatever the chain and whatever the
  threshold scheme. For a cluster of \<open>n\<close> with a scheme that works with \<open>n\<close> shares, the set-up returns
  and the proposals can be built, each on the one before; if their hashes do not collide, the testee takes every one of
  them without an assertion failing, and with \<open>k\<close> commands loaded the check for the lock passes on
  the block of command \<open>k - 2\<close>, the check for the best certificate on that of command \<open>k - 1\<close>, and
  the check for the commit exactly up to height \<open>k - 3\<close>.\<close>

theorem scripted_chain_passes:
  assumes "leader < n" and "testee < n" and "\<forall>a. adv = Some a \<longrightarrow> a < n" and "mock_scheme C s n"
    and "distinct (''init'' # cmds)" and "length cmds < 2 ^ 64"
  shows "\<exists>mk nodes. mock_setup C s leader testee adv n = Return mk \<and> prepare_proposals C cmds mk = Return nodes
    \<and> length nodes = length cmds \<and> linked C (INIT_NODE C) (map fst nodes)
    \<and> (distinct (map (TreeNode_hash C) (INIT_NODE C # map fst nodes))
         \<and> zeroed_node_hash \<notin> set (map (TreeNode_hash C) (INIT_NODE C # map fst nodes))
       \<longrightarrow> (\<exists>mk1. testee_load_consecutive_proposals C cmds mk = Return mk1
          \<and> check_hotstuff_state_with C (LockedAt ((''init'' # cmds) ! (length cmds - 2))) mk1 = Return ()
          \<and> check_hotstuff_state_with C (QcHighOf ((''init'' # cmds) ! (length cmds - 1))) mk1 = Return ()
          \<and> (\<forall>h < 2 ^ 64. check_hotstuff_state_with C (CommittedBeforeHeight h) mk1 = Return () \<longleftrightarrow> h \<le> length cmds - 3)))"
proof -
  let ?pks = "public_keys C s"
  obtain mk m where mk: "mock_setup C s leader testee adv n = Return mk" "mock_keys C s n mk" "mk_testee mk = Some m"
      and m: "m = (fresh_machine C n (replica_name testee) [(replica_name testee, ''localhost:6666'')] (key_of C s testee))
          \<lparr>m_leader_id := Some (replica_name leader)\<rparr>"
      and st: "mk_height mk = 0" "mk_parent mk = TreeNode_hash C (INIT_NODE C)" "mk_qc_high mk = INIT_QC C"
        "mk_tx_to_hash mk = [(''init'', TreeNode_hash C (INIT_NODE C))]"
        "mk_nodes mk = [(TreeNode_hash C (INIT_NODE C), INIT_NODE C)]"
    using mock_setup_returns [OF assms(1-3)] by blast
  obtain bs where bs: "prepare_proposals C cmds mk = Return (map (\<lambda>b. (b, TreeNode_hash C b)) bs)" "length bs = length cmds"
      "linked C (INIT_NODE C) bs" "vouched C ?pks (INIT_NODE C) bs"
    using prepare_loop_chain [OF assms(4) mk(2), of "INIT_QC C" "INIT_NODE C" cmds]
    by (auto simp: prepare_proposals_def st is_init_qc_def INIT_QC_HASH_def)
  have fst: "map fst (map (\<lambda>b. (b, TreeNode_hash C b)) bs) = bs" by (simp add: comp_def)
  have "loaded C ?pks bs cmds 0 mk"
    using machine_ok_weaken [OF fresh_machine_ok] follows_fresh
    by (simp add: loaded_def mk(3) m st hm_get_def Voter_new_def key_of_def DefaultSignaturer_new_def)
  then have load: "\<exists>mk1. testee_load_consecutive_proposals C cmds mk = Return mk1 \<and> loaded C ?pks bs cmds (length cmds) mk1"
    if "honest_chain C ?pks bs"
    using load_loop_returns [OF that assms(5) bs(2), of 0] by (simp add: testee_load_consecutive_proposals_def bs(1))
  then have "\<exists>mk1. testee_load_consecutive_proposals C cmds mk = Return mk1
          \<and> check_hotstuff_state_with C (LockedAt ((''init'' # cmds) ! (length cmds - 2))) mk1 = Return ()
          \<and> check_hotstuff_state_with C (QcHighOf ((''init'' # cmds) ! (length cmds - 1))) mk1 = Return ()
          \<and> (\<forall>h < 2 ^ 64. check_hotstuff_state_with C (CommittedBeforeHeight h) mk1 = Return () \<longleftrightarrow> h \<le> length cmds - 3)"
    if "distinct (map (TreeNode_hash C) (INIT_NODE C # bs)) \<and> zeroed_node_hash \<notin> set (map (TreeNode_hash C) (INIT_NODE C # bs))"
  proof -
    have hc: "honest_chain C ?pks bs" using that bs(2-4) assms(6) by (simp add: honest_chain_def)
    with load obtain mk1 where "testee_load_consecutive_proposals C cmds mk = Return mk1" "loaded C ?pks bs cmds (length cmds) mk1" by blast
    with loaded_checks [OF hc bs(2)] show ?thesis by blast
  qed
  moreover have "length (map (\<lambda>b. (b, TreeNode_hash C b)) bs) = length cmds" using bs(2) by simp
  ultimately show ?thesis
    using mk(1) bs(1,3) by (intro exI [of _ mk] exI [of _ "map (\<lambda>b. (b, TreeNode_hash C b)) bs"], unfold fst) blast
qed

lemma toy_mock_scheme: "2 < n \<Longrightarrow> mock_scheme toy toy_keys n"
  by (simp add: mock_scheme_def toy_share_sound toy_combine_sound toy_keys_def)

theorem scripted_chain_passes_witness:
  "\<exists>mk mk1. mock_setup toy toy_keys 0 1 None 4 = Return mk
    \<and> testee_load_consecutive_proposals toy [''a1'', ''a2'', ''a3'', ''a4''] mk = Return mk1
    \<and> check_hotstuff_state_with toy (LockedAt ''a2'') mk1 = Return ()
    \<and> check_hotstuff_state_with toy (CommittedBeforeHeight 1) mk1 = Return ()"
proof -
  let ?cmds = "[''a1'', ''a2'', ''a3'', ''a4'']"
  have len: "length ?cmds = 4" and ix: "(4::nat) - 1 = 3" "(4::nat) - 2 = 2" "(4::nat) - 3 = 1" and nm: "(''init'' # ?cmds) ! 2 = ''a2''"
    by simp_all
  have pre: "0 < (4::nat)" "1 < (4::nat)" "\<forall>a. None = Some a \<longrightarrow> a < (4::nat)" "distinct (''init'' # ?cmds)"
      "length ?cmds < 2 ^ 64" "2 < (4::nat)" by simp_all
  obtain mk and nodes :: "(TreeNode \<times> NodeHash) list" where n: "mock_setup toy toy_keys 0 1 None 4 = Return mk" "length nodes = 4"
      "linked toy (INIT_NODE toy) (map fst nodes)"
    and imp: "distinct (map (TreeNode_hash toy) (INIT_NODE toy # map fst nodes))
         \<and> zeroed_node_hash \<notin> set (map (TreeNode_hash toy) (INIT_NODE toy # map fst nodes))
       \<longrightarrow> (\<exists>mk1. testee_load_consecutive_proposals toy [''a1'', ''a2'', ''a3'', ''a4''] mk = Return mk1
          \<and> check_hotstuff_state_with toy (LockedAt ''a2'') mk1 = Return ()
          \<and> check_hotstuff_state_with toy (QcHighOf ((''init'' # ?cmds) ! 3)) mk1 = Return ()
          \<and> (\<forall>h < 2 ^ 64. check_hotstuff_state_with toy (CommittedBeforeHeight h) mk1 = Return () \<longleftrightarrow> h \<le> 1))"
    using scripted_chain_passes [OF pre(1-3) toy_mock_scheme [OF pre(6)] pre(4,5)] unfolding len ix nm
    by blast
  have "map (TreeNode_hash toy) (map fst nodes) = map (\<lambda>k. toy_hash_of (0 + 1 + of_nat k)) [0..<4]"
    using toy_linked_hashes [OF n(3)] n(2) by (simp add: NodeHash_genesis_def)
  then have "distinct (map (TreeNode_hash toy) (INIT_NODE toy # map fst nodes))
      \<and> zeroed_node_hash \<notin> set (map (TreeNode_hash toy) (INIT_NODE toy # map fst nodes))"
    by (simp add: upt_rec)
  with imp obtain mk1 where "testee_load_consecutive_proposals toy [''a1'', ''a2'', ''a3'', ''a4''] mk = Return mk1"
      "check_hotstuff_state_with toy (LockedAt ''a2'') mk1 = Return ()"
      "\<forall>h < 2 ^ 64. check_hotstuff_state_with toy (CommittedBeforeHeight h) mk1 = Return () \<longleftrightarrow> h \<le> 1" by blast
  with n(1) show ?thesis by auto
qed

subsection \<open>A certificate that does not verify\<close>

lemma mock_tick_returns:
  assumes "mk_testee mk = Some m"
  shows "\<exists>mk1 m1. mock_tick C mk = Return mk1 \<and> mk_testee mk1 = Some m1 \<and> chain_of (m_storage m1) = chain_of (m_storage m)
    \<and> vt_signature (m_voter m1) = vt_signature (m_voter m) \<and> mk_tx_to_hash mk1 = mk_tx_to_hash mk"
  using assms
  by (auto simp: mock_tick_def on_testee_def exec_unwrap_def on_view_change_def voter_reset_def Let_def)

lemma unverified_refused:
  assumes "\<not> is_init_qc C qc"
    and "\<And>q. hss_get (qc_node qc) (m_storage m) = Some q
      \<Longrightarrow> \<not> combined_verify C (sg_pks (vt_signature (m_voter m))) (qc_combined_sign qc) (TreeNode_to_be_bytes q)"
  shows "on_recv_proposal C (hss_safety_storage C) ctx node qc m = Return (m, Inl CorruptedQC)"
  using assms by (auto simp: on_recv_proposal_def verify_proposal_iff split: option.split)

text \<open>C22: a proposal whose certificate is not the initial one and does not verify against the block it
  names is refused in every state of the testee: the script that sends one returns, so its
  assertion that the answer is \<open>CorruptedQC\<close> holds, and the testee's proposals, best certificate,
  leaf, voting height, lock and last commit are as before.\<close>

theorem corrupted_certificate_refused:
  assumes "mk_testee mk = Some m" and "hm_get par (mk_tx_to_hash mk) = Some ph"
    and "\<not> is_init_qc C (GenericQC_new v ph junk)"
    and "\<And>q. hss_get ph (m_storage m) = Some q
      \<Longrightarrow> \<not> combined_verify C (sg_pks (vt_signature (m_voter m))) junk (TreeNode_to_be_bytes q)"
  shows "\<exists>mk1 m1. propose_with_corrupted_qc C junk par tx mk = Return mk1 \<and> mk_testee mk1 = Some m1
    \<and> chain_of (m_storage m1) = chain_of (m_storage m)"
proof -
  let ?qc = "form_corrupted_qc junk (mk_height mk) ph"
  obtain mk1 m1 where t1: "mock_tick C mk = Return mk1" "mk_testee mk1 = Some m1" "chain_of (m_storage m1) = chain_of (m_storage m)"
      "vt_signature (m_voter m1) = vt_signature (m_voter m)"
    using mock_tick_returns [OF assms(1)] by blast
  obtain mk2 m2 where t2: "mock_tick C mk1 = Return mk2" "mk_testee mk2 = Some m2" "chain_of (m_storage m2) = chain_of (m_storage m)"
      "vt_signature (m_voter m2) = vt_signature (m_voter m)"
    using mock_tick_returns [OF t1(2)] t1(3,4) by metis
  have "hss_get h (m_storage m2) = hss_get h (m_storage m)" for h
    using arg_cong [OF t2(3), of "\<lambda>cs. cs_node cs h"] by simp
  moreover have "\<not> is_init_qc C ?qc"
    using assms(3) by (simp add: is_init_qc_def form_corrupted_qc_def GenericQC_hash_def)
  ultimately have "on_recv_proposal C (hss_safety_storage C) ctx node ?qc m2 = Return (m2, Inl CorruptedQC)" for ctx node
    using assms(4) t2(4) by (intro unverified_refused) (auto simp: form_corrupted_qc_def)
  then have "\<exists>mk3. mock_propose C ph tx ?qc mk1 = Return (mk3, Inl CorruptedQC) \<and> mk_testee mk3 = Some m2"
    by (auto simp: mock_propose_def t2(1,2) testee_recv_honest_proposal_def on_testee_def exec_unwrap_def
        TreeNode_node_and_hash_def mock_update_def Let_def)
  then show ?thesis
    using assms(2) t1(1) t2(3) by (auto simp: propose_with_corrupted_qc_def exec_unwrap_def exec_assert_def Let_def)
qed

theorem corrupted_certificate_refused_witness:
  "\<exists>mk mk1 m1. mock_setup toy toy_keys 0 1 (Some 0) 4 = Return mk
    \<and> propose_with_corrupted_qc toy (CombinedSign (replicate 96 2)) ''init'' ''a1'' mk = Return mk1
    \<and> mk_testee mk1 = Some m1 \<and> hss_get_locked_node (m_storage m1) = INIT_NODE toy"
proof -
  obtain mk m where mk: "mock_setup toy toy_keys 0 1 (Some 0) 4 = Return mk" "mk_testee mk = Some m"
      "m = (fresh_machine toy 4 (replica_name 1) [(replica_name 1, ''localhost:6666'')] (key_of toy toy_keys 1))
          \<lparr>m_leader_id := Some (replica_name 0)\<rparr>"
      "mk_tx_to_hash mk = [(''init'', TreeNode_hash toy (INIT_NODE toy))]"
    using mock_setup_returns [of 0 4 1 "Some 0" toy toy_keys] by auto
  have "replicate 96 (2::u8) \<noteq> replicate 88 1 @ bs" for bs
  proof
    assume "replicate 96 (2::u8) = replicate 88 1 @ bs"
    from arg_cong [OF this, of hd] show False by (simp add: hd_append)
  qed
  moreover have "\<not> is_init_qc toy (GenericQC_new 0 (TreeNode_hash toy (INIT_NODE toy)) (CombinedSign (replicate 96 2)))"
    by (simp add: is_init_qc_def INIT_QC_HASH_def GenericQC_hash_def)
  ultimately obtain mk1 m1 where p: "propose_with_corrupted_qc toy (CombinedSign (replicate 96 2)) ''init'' ''a1'' mk = Return mk1"
      "mk_testee mk1 = Some m1" "chain_of (m_storage m1) = chain_of (m_storage m)"
    using corrupted_certificate_refused [OF mk(2), of "''init''" "TreeNode_hash toy (INIT_NODE toy)" toy 0 "CombinedSign (replicate 96 2)" "''a1''"]
    by (auto simp: mk(4) hm_get_def)
  from arg_cong [OF p(3), of cs_locked] have "hss_get_locked_node (m_storage m1) = INIT_NODE toy"
    by (simp add: hss_get_locked_node_def mk(3))
  with mk(1) p(1,2) show ?thesis by blast
qed

end
