(* ===== verification/PmBench.thy ===== *)
theory PmBench
  imports MockHotstuff HonestChain PmProps PersistProps
begin

section \<open>hs-test, pacemaker.rs: a replica behind a scripted network\<close>

text \<open>
  \<open>MockerNetwork\<close> is the other end of a replica's channels: what it sends waits in \<open>mn_pe_sender\<close>,
  what the replica sent arrives in \<open>mn_pe_recvr\<close>. The test \<open>test_responsiveness\<close> proposes a chain
  of four blocks and nothing else. The second part of the theory shows what a replica makes of
  such an input: it votes for the first block only.
\<close>

definition CHANNEL_SIZE :: usize where "CHANNEL_SIZE = 128"

definition DEFAULT_LEADER :: usize where "DEFAULT_LEADER = 1"

definition DEFAULT_TESTEE :: usize where "DEFAULT_TESTEE = 0"

record MockerNetwork =
  mn_token :: string
  mn_pe_sender :: "PeerEvent list"
  mn_pe_recvr :: "PeerEvent list"
  mn_sks :: SecretKeySet
  mn_pks :: PK
  mn_vec_sks :: "(usize \<times> SK) list"

text \<open>A send waits while the channel is full; the replica at the other end takes events out.\<close>

definition propose_all :: "string \<Rightarrow> TreeNode list \<Rightarrow> MockerNetwork \<Rightarrow> MockerNetwork" where
  "propose_all from props mn = mn\<lparr>mn_pe_sender := mn_pe_sender mn @
     map (\<lambda>prop. PeNewProposal (Context_single (replica_name DEFAULT_LEADER) (replica_name DEFAULT_TESTEE) (height prop)) prop)
       props\<rparr>"

text \<open>
  \<open>vertify_output_sequence\<close>: the closure \<open>v\<close> updates its captured state; the loop ends at the first
  event it turns down, or with the channel.
\<close>

fun vertify_output_sequence :: "('a \<Rightarrow> PeerEvent \<Rightarrow> 'a \<times> bool) \<Rightarrow> 'a \<Rightarrow> PeerEvent list \<Rightarrow> bool" where
  "vertify_output_sequence v st [] = True"
| "vertify_output_sequence v st (ready # rest) =
     (let (st1, ok) = v st ready in if \<not> ok then False else vertify_output_sequence v st1 rest)"

text \<open>The closure of \<open>test_responsiveness\<close>, with the view it captures.\<close>

fun responsiveness_check :: "ViewNumber \<Rightarrow> PeerEvent \<Rightarrow> ViewNumber \<times> bool" where
  "responsiveness_check view (AcceptProposal ctx prop sign) = (view + 1, height prop = view \<and> sign \<noteq> None)"
| "responsiveness_check view (Timeout ctx tc) = (view, tc_view tc < view)"
| "responsiveness_check view event = (view, True)"

definition new_mocker_with_mysql_enabled ::
    "codec \<Rightarrow> crypto \<Rightarrow> SecretKeySet \<Rightarrow> usize \<Rightarrow> string \<Rightarrow> string \<Rightarrow> db
       \<Rightarrow> (MockerNetwork \<times> HotstuffStorage Pacemaker \<times> db) exec" where
  "new_mocker_with_mysql_enabled K C s n token mysql_addr d =
     exec_bind (exec_assert (n \<ge> 1)) (\<lambda>_.
     let threshold = bft_threshold n;
         sign_id = DEFAULT_TESTEE;
         i = replica_name sign_id;
         peers_addr = map (\<lambda>j. (replica_name j, ''127.0.0.1:'' @ usize_to_string (8800 + j))) [0..<n]
     in exec_bind (threshold_sign_kit C s n threshold) (\<lambda>(sks, pks, vec_sks).
        exec_bind (exec_unwrap (if sign_id < length vec_sks then Some (snd (vec_sks ! sign_id)) else None)) (\<lambda>sk.
        let signaturer = DefaultSignaturer_new sign_id pks sk;
            elector = elector_init (map fst peers_addr) elector_default;
            vt = Voter_new threshold signaturer
        in exec_bind (exec_unwrap (hm_get i peers_addr)) (\<lambda>addr.
           let net_adaptor = \<lparr>na_sent = [], na_sends = 0, na_mode = Test, na_self_addr = addr,
                 na_max_transport_limit = 2 * 2 ^ 20\<rparr>
           in exec_bind (init_hotstuff_storage K C token n (INIT_NODE C) (INIT_NODE_HASH C) i peers_addr mysql_addr
                signaturer d) (\<lambda>(storage, d1).
              let machine = Machine_new vt i n None storage
              in Return (\<lparr>mn_token = token, mn_pe_sender = [], mn_pe_recvr = [], mn_sks = sks, mn_pks = pks,
                    mn_vec_sks = vec_sks\<rparr>,
                   Pacemaker_new i elector machine net_adaptor signaturer, d1))))))"

text \<open>\<open>spawn_pm\<close>: the replica under test, started.\<close>

definition spawn_pm ::
    "codec \<Rightarrow> env \<Rightarrow> crypto \<Rightarrow> SecretKeySet \<Rightarrow> string \<Rightarrow> db
       \<Rightarrow> (MockerNetwork \<times> HotstuffStorage Pacemaker \<times> db) exec" where
  "spawn_pm K E C s mysql_addr d =
     exec_bind (new_mocker_with_mysql_enabled K C s 4 ''test'' mysql_addr d) (\<lambda>(mpm, pm, d1).
     exec_bind (run_start E (hss_safety_storage C) (hss_liveness_storage C) pm) (\<lambda>pm1.
       Return (mpm, pm1, d1)))"

text \<open>
  \<open>test_responsiveness\<close>: the events are taken from the channel in order, with ticks, timeouts and
  firing timers between them, until the replica is told to quit, at any moment.
\<close>

inductive bench_run :: "env \<Rightarrow> crypto \<Rightarrow> PeerEvent list \<Rightarrow> HotstuffStorage Pacemaker \<Rightarrow> HotstuffStorage Pacemaker \<Rightarrow> bool"
  for E C where
  quit: "bench_run E C evs pm pm"
| recv: "run_select E C (hss_safety_storage C) (hss_liveness_storage C) (NetRecv e) pm = Return (pm1, go_on)
    \<Longrightarrow> bench_run E C evs pm1 pm2 \<Longrightarrow> bench_run E C (e # evs) pm pm2"
| own: "arm = Tick \<or> arm = TimeoutRecv \<Longrightarrow> arm_enabled arm pm
    \<Longrightarrow> run_select E C (hss_safety_storage C) (hss_liveness_storage C) arm pm = Return (pm1, go_on)
    \<Longrightarrow> bench_run E C evs pm1 pm2 \<Longrightarrow> bench_run E C evs pm pm2"
| fires: "i < length (tm_live (pm_timer pm)) \<Longrightarrow> bench_run E C evs (timer_fires_pm i pm) pm2 \<Longrightarrow> bench_run E C evs pm pm2"

section \<open>Proposals alone do not move a replica\<close>

text \<open>The chain state before anything is certified: the initial node is leaf and best certified.\<close>

definition uncertified :: "crypto \<Rightarrow> chain_state \<Rightarrow> bool" where
  "uncertified C cs \<longleftrightarrow> cs_leaf cs = INIT_NODE C \<and> qc_node (cs_qc_high cs) = TreeNode_hash C (INIT_NODE C)
     \<and> cs_node cs (TreeNode_hash C (INIT_NODE C)) = Some (INIT_NODE C) \<and> cs_node cs zeroed_node_hash = None"

definition first_block :: "crypto \<Rightarrow> TreeNode \<Rightarrow> bool" where
  "first_block C b1 \<longleftrightarrow> qc_node (justify b1) = TreeNode_hash C (INIT_NODE C)
     \<and> TreeNode_hash C b1 \<noteq> TreeNode_hash C (INIT_NODE C) \<and> TreeNode_hash C b1 \<noteq> zeroed_node_hash"

lemma update_nodes_uncertified:
  assumes "uncertified C (chain_of (m_storage m))" and "first_block C b1"
  shows "\<exists>r. update_nodes (hss_safety_storage C) b1 m = Return (m, Inr r)"
proof -
  have "update_store C b1 (m_storage m) = m_storage m"
    using assms by (simp add: uncertified_def first_block_def update_store_def hss_find_three_chain_def
        hss_update_qc_high_def hss_get_qc_high_def zeroed_qc_def Let_def)
  then show ?thesis using update_nodes_store [of C b1 m] by simp
qed

lemma accept_uncertified:
  assumes "uncertified C (chain_of (m_storage m))" and "first_block C b1"
  shows "uncertified C (chain_of (m_storage (accept_node (hss_safety_storage C) b1 m)))"
  using assms by (auto simp: uncertified_def first_block_def chain_of_accept spec_accept_def)

lemma recv_uncertified:
  assumes "uncertified C (chain_of (m_storage m))" and "first_block C b1"
    and "process_safety_event C (hss_safety_storage C) (RecvProposal ctx b1) m = Return (m1, r)"
  shows "uncertified C (chain_of (m_storage m1)) \<and> (\<forall>x \<in> set (queued r). \<exists>c sg. x = Signature c b1 sg)"
  using assms(3) update_nodes_uncertified [OF assms(1,2)]
    update_nodes_uncertified [OF accept_uncertified [OF assms(1,2)] assms(2)] accept_uncertified [OF assms(1,2)] assms(1)
  by (auto simp: on_recv_proposal_def exec_bind_eq_Return verify_proposal_iff Let_def split: option.splits if_splits)

text \<open>
  A replica that was only ever sent blocks of a chain, and that never got further than the first:
  pending are blocks of the chain, the votes made and sent are for the first one.
\<close>

fun votes_only :: "TreeNode \<Rightarrow> PeerEvent \<Rightarrow> bool" where
  "votes_only b (AcceptProposal c p sg) \<longleftrightarrow> p = b"
| "votes_only b pe \<longleftrightarrow> True"

definition stalled :: "crypto \<Rightarrow> TreeNode list \<Rightarrow> HotstuffStorage Pacemaker \<Rightarrow> bool" where
  "stalled C bs pm \<longleftrightarrow> uncertified C (chain_of (pm_storage pm))
     \<and> (\<forall>sw \<in> set (pm_pending_prop pm). \<exists>ctx. \<exists>b \<in> set bs. sw = SafetyEventWrapper_from (qc_view (justify b)) (RecvProposal ctx b))
     \<and> (\<forall>r \<in> set (pm_ready_queue pm). \<exists>c sg. r = Signature c (hd bs) sg)
     \<and> (\<forall>pe \<in> set (na_sent (pm_net_adaptor pm)). votes_only (hd bs) pe)"

text \<open>Only the first block of a linked chain carries a certificate of view 0.\<close>

definition bench_chain :: "crypto \<Rightarrow> TreeNode list \<Rightarrow> bool" where
  "bench_chain C bs \<longleftrightarrow> linked C (INIT_NODE C) bs \<and> length bs < 2 ^ 64
     \<and> (bs \<noteq> [] \<longrightarrow> first_block C (hd bs))"

lemma linked_view: "linked C p bs \<Longrightarrow> k < length bs \<Longrightarrow> qc_view (justify (bs ! k)) = height p + of_nat k"
proof (induction bs arbitrary: p k)
  case (Cons b bs)
  then show ?case by (cases k) auto
qed simp

lemma view_zero_first:
  assumes "bench_chain C bs" and "b \<in> set bs" and "qc_view (justify b) \<le> 0"
  shows "b = hd bs"
proof -
  from assms(2) obtain k where k: "k < length bs" "b = bs ! k" by (auto simp: in_set_conv_nth)
  have "of_nat k = (0::u64)" using linked_view [of C "INIT_NODE C" bs k] assms(1,3) k by (simp add: bench_chain_def)
  from arg_cong [OF this, of unat] have "k = 0" using k(1) assms(1) by (simp add: bench_chain_def unat_of_nat)
  then show ?thesis using k by (cases bs) auto
qed

lemma stalled_frame [simp]:
  "stalled C bs (pm\<lparr>pm_sync_state := x\<rparr>) = stalled C bs pm"
  "stalled C bs (pm\<lparr>pm_timer := t\<rparr>) = stalled C bs pm"
  "stalled C bs (pm\<lparr>pm_view := v\<rparr>) = stalled C bs pm"
  by (simp_all add: stalled_def)

lemma stalled_send: "stalled C bs pm \<Longrightarrow> votes_only (hd bs) pe \<Longrightarrow> stalled C bs (emit_peer_event E pe pm)"
  by (simp add: stalled_def send_timeout_def)

lemma stalled_storage: "stalled C bs pm \<Longrightarrow> chain_of (f (pm_storage pm)) = chain_of (pm_storage pm) \<Longrightarrow> stalled C bs (on_pm_storage f pm)"
  by (simp add: stalled_def)

lemma stalled_check_pending:
  assumes ch: "bench_chain C bs" and st: "stalled C bs pm"
    and ret: "check_pending_prop E C (hss_safety_storage C) 0 pm = Return pm1"
  shows "stalled C bs pm1"
proof (cases "heap_pop sw_key (pm_pending_prop pm)")
  case None
  with ret st show ?thesis by (simp add: check_pending_prop_def)
next
  case (Some pr)
  obtain sw rest where pr: "pr = (sw, rest)" by (cases pr)
  have mem: "set (pm_pending_prop pm) = insert sw (set rest)" 
    using heap_pop_mset [of sw_key "pm_pending_prop pm" sw rest] Some pr by (metis set_mset_add_mset_insert set_mset_mset)
  with st obtain ctx b where b: "b \<in> set bs" "sw = SafetyEventWrapper_from (qc_view (justify b)) (RecvProposal ctx b)"
    by (auto simp: stalled_def)
  let ?pm = "pm\<lparr>pm_pending_prop := rest\<rparr>"
  have st': "stalled C bs ?pm" using st mem by (simp add: stalled_def)
  show ?thesis
  proof (cases "qc_view (justify b) \<le> 0")
    case True
    from view_zero_first [OF ch b(1) True] have hd: "b = hd bs" .
    from ret Some True obtain m r where m: "process_safety_event C (hss_safety_storage C) (RecvProposal ctx (hd bs)) (pm_machine pm) = Return (m, r)"
        "pm1 = ?pm\<lparr>pm_machine := m, pm_ready_queue := pm_ready_queue pm @ queued r\<rparr>"
      by (auto simp: check_pending_prop_def pr b(2) SafetyEventWrapper_from_def emit_safety_event_eq exec_bind_eq_Return hd
          simp del: process_safety_event.simps)
    have "first_block C (hd bs)" using ch b(1) by (auto simp: bench_chain_def)
    with recv_uncertified [OF _ this m(1)] st' show ?thesis by (auto simp: stalled_def m(2))
  next
    case False
    have "stalled C bs (pm\<lparr>pm_pending_prop := heap_push sw rest\<rparr>)"
      using st mem by (simp add: stalled_def heap_push_def)
    with False ret Some show ?thesis
      by (auto simp: check_pending_prop_def pr b(2) SafetyEventWrapper_from_def exec_bind_eq_Return Let_def
          intro!: stalled_send split: if_splits)
  qed
qed

lemma uncertified_leaf: "stalled C bs pm \<Longrightarrow> height (hss_get_leaf (pm_storage pm)) = 0"
  by (simp add: stalled_def uncertified_def hss_get_leaf_def)

lemma stalled_goto_new_view:
  assumes "stalled C bs pm" and "goto_new_view E (hss_safety_storage C) (hss_liveness_storage C) v pm = Return pm1"
  shows "stalled C bs pm1"
  using assms
  by (auto simp: goto_new_view_def update_pm_status_def exec_bind_eq_Return Let_def case_prod_unfold
      intro!: stalled_send stalled_storage)

lemma stalled_local_timeout:
  assumes ch: "bench_chain C bs" and st: "stalled C bs pm"
    and ret: "process_local_timeout E C (hss_safety_storage C) (hss_liveness_storage C) v pm = Return pm1"
  shows "stalled C bs pm1"
proof (cases "pm_view pm \<le> v")
  case True
  let ?pm2 = "emit_peer_event E (Timeout (Context_broadcast (pm_id pm) (pm_view pm))
      (sign_tc C (pm_view pm) (hss_get_qc_high (pm_storage pm)) pm))
      (on_pm_storage (\<lambda>s. fst (hss_append_tc C (sign_tc C (pm_view pm) (hss_get_qc_high (pm_storage pm)) pm) s)) pm)"
  have "stalled C bs ?pm2" using st by (intro stalled_send stalled_storage) simp_all
  moreover from ret True obtain pm3 where pm3: "goto_new_view E (hss_safety_storage C) (hss_liveness_storage C) (v + 1) ?pm2 = Return pm3"
      and rest: "pm1 = on_pm_storage (hss_increase_view (pm_view pm3)) pm3
        \<or> check_pending_prop E C (hss_safety_storage C) (height (hss_get_leaf (pm_storage (on_pm_storage (hss_increase_view (pm_view pm3)) pm3))))
            (on_pm_storage (hss_increase_view (pm_view pm3)) pm3\<lparr>pm_sync_state := SYNC_IDLE\<rparr>) = Return pm1"
    by (auto simp: process_local_timeout_def exec_bind_eq_Return Let_def split: if_splits)
  ultimately have st4: "stalled C bs (on_pm_storage (hss_increase_view (pm_view pm3)) pm3)"
    using stalled_goto_new_view by (intro stalled_storage) auto
  show ?thesis
    using rest st4 uncertified_leaf [OF st4] stalled_check_pending [OF ch, of "on_pm_storage (hss_increase_view (pm_view pm3)) pm3\<lparr>pm_sync_state := SYNC_IDLE\<rparr>"]
    by auto
qed (use st ret in \<open>simp add: process_local_timeout_def\<close>)

lemma stalled_drain:
  assumes ch: "bench_chain C bs"
  shows "stalled C bs pm \<Longrightarrow> drain_ready E C (hss_safety_storage C) (hss_liveness_storage C) pm = Return pm1 \<Longrightarrow> stalled C bs pm1"
proof (induction "pm_work pm" arbitrary: pm rule: less_induct)
  case (less pm)
  show ?case
  proof (cases "pm_ready_queue pm")
    case Nil
    with less.prems show ?thesis by (simp add: drain_ready.simps)
  next
    case (Cons r rest)
    let ?pm = "pm\<lparr>pm_ready_queue := rest\<rparr>"
    have st: "stalled C bs ?pm" using less.prems(1) Cons by (simp add: stalled_def)
    from less.prems(1) Cons obtain c sg where r: "r = Signature c (hd bs) sg" by (auto simp: stalled_def)
    have sent: "stalled C bs (emit_peer_event E (AcceptProposal c (hd bs) (Some sg)) ?pm)"
      using st by (intro stalled_send) simp_all
    from less.prems(2) Cons obtain pm2 where pm2: "process_ready_event E C (hss_safety_storage C) (hss_liveness_storage C) r ?pm = Return pm2"
        "drain_ready E C (hss_safety_storage C) (hss_liveness_storage C) pm2 = Return pm1"
      by (auto simp: drain_ready.simps [of E C _ _ pm] exec_bind_eq_Return)
    have "stalled C bs pm2"
      using pm2(1) sent stalled_local_timeout [OF ch sent]
      by (auto simp: r exec_bind_eq_Return Let_def split: DeliveryType.splits if_splits)
    moreover have "pm_work pm2 < pm_work pm"
      using process_ready_event_work [OF pm2(1)] Cons by (simp add: pm_work_def)
    ultimately show ?thesis using less.hyps pm2(2) by blast
  qed
qed

lemma flush_chain_of:
  assumes "flush_unwrap (hss_liveness_storage C) pm = Return pm1" and "stalled C bs pm"
  shows "stalled C bs pm1"
proof -
  from assms(1) obtain s r where f: "async_flush (pm_storage pm) = Return (s, r)"
    by (cases "async_flush (pm_storage pm)") (auto simp: flush_unwrap_def hss_ls_flush_def)
  with assms(1) async_flush_frame(6) [OF f] have pm1: "pm1 = on_pm_storage (\<lambda>_. s) pm"
    by (simp add: flush_unwrap_def hss_ls_flush_def)
  have "chain_of s = chain_of (pm_storage pm)"
    using async_flush_frame [OF f] by (simp add: chain_of_def hss_get_def)
  then show ?thesis unfolding pm1 using assms(2) by (intro stalled_storage) simp_all
qed

lemma stalled_round:
  assumes ch: "bench_chain C bs" and st: "stalled C bs pm"
    and arm: "arm = Tick \<or> arm = TimeoutRecv \<or> (\<exists>ctx. \<exists>b \<in> set bs. arm = NetRecv (PeNewProposal ctx b))"
    and ret: "run_select E C (hss_safety_storage C) (hss_liveness_storage C) arm pm = Return (pm1, go_on)"
  shows "stalled C bs pm1"
proof -
  consider "arm = Tick" | "arm = TimeoutRecv" | ctx b where "b \<in> set bs" "arm = NetRecv (PeNewProposal ctx b)"
    using arm by blast
  then show ?thesis
  proof cases
    case 1
    with ret obtain p where "flush_unwrap (hss_liveness_storage C) pm = Return p"
        "drain_ready E C (hss_safety_storage C) (hss_liveness_storage C) p = Return pm1"
      by (auto simp: exec_bind_eq_Return)
    then show ?thesis using flush_chain_of st stalled_drain [OF ch] by blast
  next
    case 2
    show ?thesis
    proof (cases "recv_timeout pm")
      case (Some p)
      then obtain te p1 where p: "p = (te, p1)" "stalled C bs p1"
        using st by (cases p) (auto simp: recv_timeout_def split: list.splits)
      obtain v where "te = ViewTimeout v" by (cases te)
      with ret 2 Some p show ?thesis
        by (auto simp: exec_bind_eq_Return dest: stalled_local_timeout [OF ch])
    qed (use ret st 2 in auto)
  next
    case (3 ctx b)
    let ?pm = "pm\<lparr>pm_pending_prop := heap_push (SafetyEventWrapper_from (qc_view (justify b)) (RecvProposal ctx b)) (pm_pending_prop pm)\<rparr>"
    have "stalled C bs ?pm" using st 3(1) by (auto simp: stalled_def heap_push_def)
    with ret 3(2) uncertified_leaf [OF this] show ?thesis
      by (auto simp: exec_bind_eq_Return Let_def dest: stalled_check_pending [OF ch])
  qed
qed

lemma stalled_run:
  assumes "bench_run E C evs pm pm1" and ch: "bench_chain C bs" and "stalled C bs pm"
    and "\<forall>e \<in> set evs. \<exists>ctx. \<exists>b \<in> set bs. e = PeNewProposal ctx b"
  shows "stalled C bs pm1"
  using assms(1,3,4)
proof (induction rule: bench_run.induct)
  case (recv e pm pm1 go_on evs pm2)
  then have "\<exists>ctx. \<exists>b \<in> set bs. NetRecv e = NetRecv (PeNewProposal ctx b)" by auto
  with stalled_round [OF ch recv.prems(1) _ recv.hyps(1)] recv show ?case by simp
next
  case (own arm pm pm1 go_on evs pm2)
  have "stalled C bs pm1" using stalled_round [OF ch own.prems(1) _ own.hyps(3)] own.hyps(1) by blast
  with own show ?case by blast
next
  case (fires i pm evs pm2)
  then show ?case by (simp add: timer_fires_pm_def)
qed

lemma responsiveness_verdict:
  "\<forall>pe \<in> set evs. votes_only b pe \<Longrightarrow> height b = 1 \<Longrightarrow> v = 1 \<or> v = 2 \<Longrightarrow> vertify_output_sequence responsiveness_check v evs
   \<Longrightarrow> Timeout c tc \<in> set evs \<Longrightarrow> tc_view tc < 2"
proof (induction evs arbitrary: v)
  case (Cons e evs)
  show ?case
  proof (cases e)
    case (Timeout c' tc')
    then have "tc_view tc' < v" using Cons.prems(4) by (auto split: if_splits)
    then have "tc_view tc' < 2" using Cons.prems(3) by (auto intro: less_trans)
    with Cons Timeout show ?thesis by (auto split: if_splits)
  next
    case (AcceptProposal c' p sg)
    with Cons.prems have "v = 1" by (auto split: if_splits)
    with Cons.IH [of 2] Cons.prems AcceptProposal show ?thesis by (auto split: if_splits)
  qed (use Cons in \<open>auto split: if_splits\<close>)
qed simp

subsection \<open>The bench, started\<close>

lemma spawn_pm_ReturnD:
  assumes "spawn_pm K E C s addr d = Return (mpm, pm1, d1)"
  shows "\<exists>pm0. run_start E (hss_safety_storage C) (hss_liveness_storage C) pm0 = Return pm1
    \<and> chain_of (pm_storage pm0) = chain_of (fresh_store C 4 (pm_id pm0) [] (pm_signaturer pm0))
    \<and> pm_pending_prop pm0 = [] \<and> pm_ready_queue pm0 = [] \<and> na_sent (pm_net_adaptor pm0) = []
    \<and> mn_pe_sender mpm = [] \<and> m_voter (pm_machine pm0) = Voter_new (bft_threshold 4) (key_of C s 0)
    \<and> pm_ok (hss_safety_storage C) (hss_inv C) pm0"
  using assms voter_wf_new
  by (auto simp: spawn_pm_def new_mocker_with_mysql_enabled_def exec_bind_eq_Return Let_def
      init_hotstuff_storage_def hss_init_def HotstuffStorage_new_def MySQLStorage_init_def MySQLStorage_new_def
      Pacemaker_new_def Machine_new_def chain_of_def hss_get_def hm_insert_def INIT_NODE_HASH_def fun_eq_iff
      threshold_sign_kit_def key_of_def DEFAULT_TESTEE_def exec_unwrap_def exec_of_option_eq_Return hss_get_view_def
      pm_ok_def machine_ok_def hss_inv_def filed_def hm_get_def hm_wf_def views_wf_def split: if_splits)

lemma spawned_stalled:
  assumes sp: "spawn_pm K E C s addr d = Return (mpm, pm1, d1)" and z: "TreeNode_hash C (INIT_NODE C) \<noteq> zeroed_node_hash"
  shows "stalled C bs pm1"
proof -
  obtain pm0 where start: "run_start E (hss_safety_storage C) (hss_liveness_storage C) pm0 = Return pm1"
      and pm0: "chain_of (pm_storage pm0) = chain_of (fresh_store C 4 (pm_id pm0) [] (pm_signaturer pm0))"
        "pm_pending_prop pm0 = []" "pm_ready_queue pm0 = []" "na_sent (pm_net_adaptor pm0) = []"
    using spawn_pm_ReturnD [OF sp] by blast
  have "stalled C bs pm0"
    unfolding stalled_def pm0 using z by (simp add: uncertified_def hss_get_def hm_get_def)
  then show ?thesis
    using start stalled_goto_new_view by (auto simp: run_start_def exec_bind_eq_Return exec_of_option_eq_Return)
qed


text \<open>The bench always comes up, and the first proposal is taken and voted for.\<close>

lemma spawn_pm_returns:
  assumes "FLUSH_INTERVAL E \<noteq> None"
  shows "\<exists>mpm pm1 d1. spawn_pm K E C s addr d = Return (mpm, pm1, d1)
    \<and> mn_vec_sks mpm = map (\<lambda>i. (i, secret_key_share C s i)) [0..<4] \<and> mn_pks mpm = public_keys C s"
proof -
  let ?peers = "map (\<lambda>j. (replica_name j, ''127.0.0.1:'' @ usize_to_string (8800 + j))) [0..<4]"
  have self: "hm_get (replica_name 0) ?peers = Some (''127.0.0.1:'' @ usize_to_string 8800)"
    by (simp add: upt_rec hm_get_def)
  obtain ld where "get_leader E 1 (elector_init (map fst ?peers) elector_default) = Return ld"
    using get_leader_returns [OF roster_nonempty] by fastforce
  then show ?thesis
    using assms self bft_threshold_le [of 4]
    by (auto simp: spawn_pm_def new_mocker_with_mysql_enabled_def exec_assert_def DEFAULT_TESTEE_def threshold_sign_kit_def
        exec_unwrap_def init_hotstuff_storage_def hss_init_def HotstuffStorage_new_def MySQLStorage_init_def MySQLStorage_new_def
        persist_other_msg_def run_start_def goto_new_view_def Pacemaker_new_def Machine_new_def Let_def case_prod_unfold
        simp del: upt.simps)
qed

lemma first_proposal_taken:
  assumes sp: "spawn_pm K E C s addr d = Return (mpm, pm1, d1)" and hc: "honest_chain C (public_keys C s) bs" and ne: "bs \<noteq> []"
    and v: "qc_view (justify (hd bs)) = 0"
  shows "\<exists>pm c sg. run_select E C (hss_safety_storage C) (hss_liveness_storage C) (NetRecv (PeNewProposal ctx (hd bs))) pm1 = Return (pm, True)
    \<and> pm_ready_queue pm = [Signature c (hd bs) sg]"
proof -
  obtain pm0 where start: "run_start E (hss_safety_storage C) (hss_liveness_storage C) pm0 = Return pm1"
      and pm0: "chain_of (pm_storage pm0) = chain_of (fresh_store C 4 (pm_id pm0) [] (pm_signaturer pm0))" "pm_pending_prop pm0 = []"
        "pm_ready_queue pm0 = []" "m_voter (pm_machine pm0) = Voter_new (bft_threshold 4) (key_of C s 0)"
        "pm_ok (hss_safety_storage C) (hss_inv C) pm0"
    using spawn_pm_ReturnD [OF sp] by blast
  have go: "goto_new_view E (hss_safety_storage C) (hss_liveness_storage C) 1 pm0 = Return pm1"
    using start by (auto simp: run_start_def exec_bind_eq_Return exec_of_option_eq_Return)
  have pm1: "pm_pending_prop pm1 = []" "pm_ready_queue pm1 = []" "m_voter (pm_machine pm1) = m_voter (pm_machine pm0)"
    using goto_new_view_frame [OF go] pm0 by simp_all
  have ch: "chain_of (pm_storage pm1) = chain_of (pm_storage pm0)"
    using go by (auto simp: goto_new_view_def exec_bind_eq_Return Let_def case_prod_unfold)
  then have fo: "follows C bs 0 (chain_of (pm_storage pm1))" using follows_fresh pm0(1) by simp
  have ok: "machine_ok (hss_inv C) (pm_machine pm1)"
    using pm_advanced_ok [OF hssl.run_start_advanced [OF pm0(5) start]] by (simp add: pm_ok_def)
  have "honest_chain C (sg_pks (vt_signature (m_voter (pm_machine pm1)))) bs"
    using hc pm1(3) pm0(4) by (simp add: Voter_new_def key_of_def DefaultSignaturer_new_def)
  from honest_step [OF ok this fo, of ctx] ne obtain m c where
      "process_safety_event C (hss_safety_storage C) (RecvProposal ctx (bs ! 0)) (pm_machine pm1)
        = Return (m, Inr (Signature c (bs ! 0) (voter_sign C (m_voter (pm_machine pm1)) (bs ! 0))))" by auto
  then show ?thesis
    using pm1 v ne by (auto simp: hd_conv_nth heap_push_def check_pending_prop_def SafetyEventWrapper_from_def emit_safety_event_eq
        simp del: process_safety_event.simps)
qed


end
