(* ===== verification/ProtoData.thy ===== *)
theory ProtoData
  imports HsData RustText
begin

section \<open>hs-prototype, safety/basic.rs and safety/msg.rs: the data of the prototype\<close>

text \<open>
  The crate \<^verbatim>\<open>hs-prototype\<close> is an earlier replica: one machine that owns its node pool, a tick
  driven pacemaker and an HTTP proxy. Its hashes and keys are the types of \<^verbatim>\<open>HsData\<close>, which have
  the same definitions; its proposals differ (the justification is the hash of a certificate, not
  the certificate) and its certificates may lack a signature. A command is a \<open>String\<close>, a list
  of its UTF-8 bytes as characters.

  The lemmas relate the hash and the signed bytes to those of \<^verbatim>\<open>HsData\<close>.
\<close>

subsection \<open>basic.rs\<close>

type_synonym Cmd = string

record PSignKit =
  pk_sign :: Sign
  pk_sign_id :: u32

definition QCHash_genesis :: QCHash where
  "QCHash_genesis = QCHash (replicate 32 0)"

record PGenericQC =
  pq_view :: u64
  pq_node :: NodeHash
  pq_combined_sign :: "CombinedSign option"

record PTreeNode =
  pn_height :: u64
  pn_cmds :: "Cmd list"
  pn_parent :: NodeHash
  pn_justify :: QCHash

definition PTreeNode_genesis :: PTreeNode where
  "PTreeNode_genesis =
     \<lparr>pn_height = 0, pn_cmds = [], pn_parent = NodeHash_genesis, pn_justify = QCHash_genesis\<rparr>"

definition PTreeNode_hash :: "crypto \<Rightarrow> PTreeNode \<Rightarrow> NodeHash" where
  "PTreeNode_hash C node =
     NodeHash (sha256 C (concat (map as_bytes (pn_cmds node)) @ u64_to_be_bytes (pn_height node)
       @ node_hash_bytes (pn_parent node)))"

definition PTreeNode_node_and_hash ::
    "crypto \<Rightarrow> Cmd list \<Rightarrow> u64 \<Rightarrow> NodeHash \<Rightarrow> QCHash \<Rightarrow> PTreeNode \<times> NodeHash" where
  "PTreeNode_node_and_hash C cmds h par just =
     (let node = \<lparr>pn_height = h, pn_cmds = cmds, pn_parent = par, pn_justify = just\<rparr>
      in (node, PTreeNode_hash C node))"

fun qc_hash_bytes :: "QCHash \<Rightarrow> u8 list" where
  "qc_hash_bytes (QCHash b) = b"

definition PTreeNode_to_be_bytes :: "PTreeNode \<Rightarrow> u8 list" where
  "PTreeNode_to_be_bytes node =
     u64_to_be_bytes (pn_height node) @ qc_hash_bytes (pn_justify node)
     @ node_hash_bytes (pn_parent node) @ concat (map as_bytes (pn_cmds node))"

definition PGenericQC_new :: "u64 \<Rightarrow> NodeHash \<Rightarrow> CombinedSign \<Rightarrow> PGenericQC" where
  "PGenericQC_new view node combined_sign =
     \<lparr>pq_view = view, pq_node = node, pq_combined_sign = Some combined_sign\<rparr>"

definition PGenericQC_genesis :: "crypto \<Rightarrow> ViewNumber \<Rightarrow> PTreeNode \<Rightarrow> PGenericQC" where
  "PGenericQC_genesis C view node =
     \<lparr>pq_view = view, pq_node = PTreeNode_hash C node, pq_combined_sign = None\<rparr>"

definition PGenericQC_hash :: "PGenericQC \<Rightarrow> QCHash" where
  "PGenericQC_hash qc =
     (case pq_combined_sign qc of
        Some v \<Rightarrow> QCHash (take 32 (drop 32 (sign_bytes v)))
      | None \<Rightarrow> QCHash (replicate 32 0))"

definition PGenericQC_to_be_bytes :: "PGenericQC \<Rightarrow> u8 list" where
  "PGenericQC_to_be_bytes qc =
     u64_to_be_bytes (pq_view qc) @ node_hash_bytes (pq_node qc)
     @ (case pq_combined_sign qc of Some s \<Rightarrow> sign_bytes s | None \<Rightarrow> [])"

subsection \<open>msg.rs\<close>

record PSnapshot =
  sn_view :: ViewNumber
  sn_leader :: "ReplicaID option"
  sn_threshold :: usize
  sn_node_num :: usize
  sn_leaf :: string
  sn_qc_high :: string

record PContext =
  px_from :: ReplicaID
  px_view :: ViewNumber

text \<open>
  A reply channel inside a message (a \<open>Sender\<close>) is the answer to the question whether its
  receiver still listens; what is sent through it is part of the handler's result.
\<close>

datatype reply_channel = Listening | Gone

datatype InternalMsg =
    PRequestSnapshot reply_channel
  | PRecvProposal PContext PTreeNode PGenericQC reply_channel
  | PRecvSign PContext PTreeNode PSignKit
  | PRecvNewViewMsg PContext PTreeNode PGenericQC
  | PViewChange ReplicaID u64 reply_channel
  | PPropose PContext PTreeNode PGenericQC
  | PNewTx Cmd
  | PNewLeader PContext ReplicaID
  | PDown

datatype RpcType = RpcNewProposal | RpcNewView | RpcNewLeader | RpcStatusQuery

datatype RpcStatus = RpcOk | InvalidUsage | InternalError | Accept | Reject

record NewTransaction =
  nt_client_id :: string
  nt_cmd :: string

record RpcRequest =
  rq_ctx :: PContext
  rq_msg_type :: RpcType
  rq_leader :: "ReplicaID option"
  rq_prop :: "PTreeNode option"
  rq_qc :: "PGenericQC option"

record RpcResponse =
  rs_ctx :: PContext
  rs_status :: RpcStatus
  rs_msg_type :: RpcType
  rs_node :: "PTreeNode option"
  rs_sign :: "PSignKit option"
  rs_snapshot :: "PSnapshot option"
  rs_qc :: "PGenericQC option"

definition from_rpc_response :: "RpcResponse \<Rightarrow> InternalMsg option exec" where
  "from_rpc_response resp =
     (if rs_status resp \<noteq> Accept \<or> rs_node resp = None \<or> rs_sign resp = None then Return None
      else
        exec_bind (exec_of_option UnwrapNone (rs_node resp)) (\<lambda>node.
        exec_bind (exec_of_option UnwrapNone (rs_sign resp)) (\<lambda>sign.
          Return (Some (PRecvSign (rs_ctx resp) node sign)))))"

definition RpcResponse_accept :: "PContext \<Rightarrow> PTreeNode \<Rightarrow> PSignKit \<Rightarrow> RpcResponse" where
  "RpcResponse_accept ctx node sign =
     \<lparr>rs_ctx = ctx, rs_status = Accept, rs_msg_type = RpcNewProposal, rs_node = Some node,
      rs_sign = Some sign, rs_snapshot = None, rs_qc = None\<rparr>"

definition RpcResponse_reject :: "PContext \<Rightarrow> RpcResponse" where
  "RpcResponse_reject ctx =
     \<lparr>rs_ctx = ctx, rs_status = Reject, rs_msg_type = RpcNewProposal, rs_node = None,
      rs_sign = None, rs_snapshot = None, rs_qc = None\<rparr>"

definition RpcResponse_internal_err :: "PContext \<Rightarrow> RpcType \<Rightarrow> RpcResponse" where
  "RpcResponse_internal_err ctx msg_type =
     \<lparr>rs_ctx = ctx, rs_status = InternalError, rs_msg_type = msg_type, rs_node = None,
      rs_sign = None, rs_snapshot = None, rs_qc = None\<rparr>"

definition RpcResponse_invalid_usage :: "PContext \<Rightarrow> RpcType \<Rightarrow> RpcResponse" where
  "RpcResponse_invalid_usage ctx msg_type =
     \<lparr>rs_ctx = ctx, rs_status = InvalidUsage, rs_msg_type = msg_type, rs_node = None,
      rs_sign = None, rs_snapshot = None, rs_qc = None\<rparr>"

definition RpcResponse_status :: "PContext \<Rightarrow> PSnapshot option \<Rightarrow> RpcResponse" where
  "RpcResponse_status ctx ss =
     \<lparr>rs_ctx = ctx, rs_status = RpcOk, rs_msg_type = RpcStatusQuery, rs_node = None,
      rs_sign = None, rs_snapshot = ss, rs_qc = None\<rparr>"

definition RpcResponse_new_view :: "PContext \<Rightarrow> PTreeNode \<Rightarrow> PGenericQC \<Rightarrow> RpcResponse" where
  "RpcResponse_new_view ctx node qc =
     \<lparr>rs_ctx = ctx, rs_status = RpcOk, rs_msg_type = RpcNewView, rs_node = Some node,
      rs_sign = None, rs_snapshot = None, rs_qc = Some qc\<rparr>"

definition RpcResponse_ok :: "PContext \<Rightarrow> RpcType \<Rightarrow> RpcResponse" where
  "RpcResponse_ok ctx msg_type =
     \<lparr>rs_ctx = ctx, rs_status = RpcOk, rs_msg_type = msg_type, rs_node = None,
      rs_sign = None, rs_snapshot = None, rs_qc = None\<rparr>"

subsection \<open>Shared facts\<close>

text \<open>The prototype hashes a proposal as \<^verbatim>\<open>hs-data\<close> does, whatever certificate is attached.\<close>

lemma PTreeNode_hash_hs_data:
  "PTreeNode_hash C n = TreeNode_hash C \<lparr>height = pn_height n, txs = map (Txn \<circ> as_bytes) (pn_cmds n),
     parent = pn_parent n, justify = qc\<rparr>"
  by (simp add: PTreeNode_hash_def TreeNode_hash_def TreeNode_preimage_def comp_def)

lemma PGenericQC_genesis_hash [simp]: "PGenericQC_hash (PGenericQC_genesis C v n) = QCHash_genesis"
  by (simp add: PGenericQC_hash_def PGenericQC_genesis_def QCHash_genesis_def)

lemma from_rpc_response_cases:
  "from_rpc_response resp = Return (case (rs_status resp, rs_node resp, rs_sign resp) of
     (Accept, Some node, Some sign) \<Rightarrow> Some (PRecvSign (rs_ctx resp) node sign) | _ \<Rightarrow> None)"
  by (auto simp: from_rpc_response_def split: RpcStatus.split option.split)

end
