(* ===== verification/ProtoMachine.thy ===== *)
theory ProtoMachine
  imports ProtoData
begin

section \<open>hs-prototype, safety/mod.rs: the machine of the prototype\<close>

text \<open>
  \<open>Machine\<close> and its implementations of \<open>MemPool\<close>, \<open>StateMachine\<close>, \<open>SysConf\<close>, \<open>Crypto\<close> and
  \<open>HotStuff\<close>, one definition per method. The receiving end of \<open>step_in\<close> is the sequence of messages
  the machine is run on; \<open>step_out\<close> is what was sent, with whether the other end still listens.
  A send into a channel nobody listens to makes the \<open>unwrap\<close> panic. \<^verbatim>\<open>base64\<close> is the parameter \<open>b64\<close>.
  The walks of \<open>is_conflicting\<close> and \<open>on_commit\<close> follow parents without a bound, and are
  partial functions.
\<close>

record PMachine =
  mc_node_pool :: "(NodeHash, PTreeNode) hash_map"
  mc_qc_map :: "(QCHash, PGenericQC) hash_map"
  mc_leaf :: PTreeNode
  mc_leaf_high :: ViewNumber
  mc_qc_high :: PGenericQC
  mc_view :: ViewNumber
  mc_vheight :: ViewNumber
  mc_commit_height :: ViewNumber
  mc_b_executed :: PTreeNode
  mc_b_locked :: PTreeNode
  mc_peer_conf :: "(ReplicaID, string) hash_map"
  mc_self_id :: ReplicaID
  mc_leader_id :: "ReplicaID option"
  mc_sign_id :: u32
  mc_pks :: PK
  mc_sks :: SK
  mc_voting_set :: "(ReplicaID, PSignKit) hash_map"
  mc_decided :: bool
  mc_step_out :: "InternalMsg list"
  mc_net :: reply_channel

definition PMachine_new ::
    "crypto \<Rightarrow> ReplicaID \<Rightarrow> u32 \<Rightarrow> PK \<Rightarrow> SK \<Rightarrow> (ReplicaID, string) hash_map \<Rightarrow> PMachine" where
  "PMachine_new C self_id sign_id pks sks peer_conf =
     (let node = PTreeNode_genesis;
          node_pool = hm_insert (PTreeNode_hash C node) node [];
          first_qc = PGenericQC_genesis C 0 node;
          qc_map = hm_insert (PGenericQC_hash first_qc) first_qc []
      in \<lparr>mc_node_pool = node_pool, mc_qc_map = qc_map, mc_leaf = node, mc_leaf_high = 0,
          mc_qc_high = first_qc, mc_view = 1, mc_vheight = 0, mc_commit_height = 0,
          mc_b_executed = node, mc_b_locked = node, mc_peer_conf = peer_conf, mc_self_id = self_id,
          mc_leader_id = Some ''node-0'', mc_sign_id = sign_id, mc_pks = pks, mc_sks = sks,
          mc_voting_set = [], mc_decided = False, mc_step_out = [], mc_net = Listening\<rparr>)"

subsection \<open>MemPool\<close>

definition proto_append_new_node :: "crypto \<Rightarrow> PTreeNode \<Rightarrow> PMachine \<Rightarrow> PMachine" where
  "proto_append_new_node C node m =
     (let h = PTreeNode_hash C node in m\<lparr>mc_node_pool := hm_insert h node (mc_node_pool m)\<rparr>)"

definition proto_append_new_qc :: "PGenericQC \<Rightarrow> PMachine \<Rightarrow> PMachine" where
  "proto_append_new_qc qc m =
     (let h = PGenericQC_hash qc in m\<lparr>mc_qc_map := hm_insert h qc (mc_qc_map m)\<rparr>)"

definition proto_find_parent :: "PTreeNode \<Rightarrow> PMachine \<Rightarrow> PTreeNode option" where
  "proto_find_parent node m = hm_get (pn_parent node) (mc_node_pool m)"

definition proto_find_qc_by_justify :: "NodeHash \<Rightarrow> PMachine \<Rightarrow> PGenericQC option" where
  "proto_find_qc_by_justify node_hash m =
     Option.bind (hm_get node_hash (mc_node_pool m)) (\<lambda>node. hm_get (pn_justify node) (mc_qc_map m))"

definition proto_find_node_by_qc :: "QCHash \<Rightarrow> PMachine \<Rightarrow> PTreeNode option" where
  "proto_find_node_by_qc qc_hash m =
     Option.bind (hm_get qc_hash (mc_qc_map m)) (\<lambda>qc. hm_get (pq_node qc) (mc_node_pool m))"

definition proto_find_three_chain :: "PTreeNode \<Rightarrow> PMachine \<Rightarrow> PTreeNode list" where
  "proto_find_three_chain node m =
     (case hm_get (pn_justify node) (mc_qc_map m) of None \<Rightarrow> [] | Some qc3 \<Rightarrow>
      (case hm_get (pq_node qc3) (mc_node_pool m) of None \<Rightarrow> [] | Some b3 \<Rightarrow>
        b3 # (case hm_get (pn_justify b3) (mc_qc_map m) of None \<Rightarrow> [] | Some qc2 \<Rightarrow>
         (case hm_get (pq_node qc2) (mc_node_pool m) of None \<Rightarrow> [] | Some b2 \<Rightarrow>
           b2 # (case hm_get (pn_justify b2) (mc_qc_map m) of None \<Rightarrow> [] | Some qc1 \<Rightarrow>
            (case hm_get (pq_node qc1) (mc_node_pool m) of None \<Rightarrow> [] | Some b1 \<Rightarrow> [b1]))))))"

definition proto_update_leaf :: "crypto \<Rightarrow> PTreeNode \<Rightarrow> PMachine \<Rightarrow> PMachine" where
  "proto_update_leaf C new_leaf m =
     (if mc_leaf_high m < pn_height new_leaf
      then m\<lparr>mc_leaf_high := pn_height new_leaf, mc_leaf := new_leaf,
             mc_node_pool := hm_insert (PTreeNode_hash C new_leaf) new_leaf (mc_node_pool m)\<rparr>
      else m)"

definition proto_update_qc_high :: "crypto \<Rightarrow> PTreeNode \<Rightarrow> PGenericQC \<Rightarrow> PMachine \<Rightarrow> PMachine" where
  "proto_update_qc_high C new_qc_node new_qc_high m =
     (case proto_find_node_by_qc (PGenericQC_hash (mc_qc_high m)) m of
        Some qcn \<Rightarrow>
          (if pn_height new_qc_node > pn_height qcn
           then proto_update_leaf C new_qc_node
                  (m\<lparr>mc_qc_high := new_qc_high, mc_leaf_high := pn_height new_qc_node\<rparr>)
           else m)
      | None \<Rightarrow> m)"

partial_function (option) proto_walk ::
    "(NodeHash, PTreeNode) hash_map \<Rightarrow> ViewNumber \<Rightarrow> PTreeNode \<Rightarrow> PTreeNode option" where
  "proto_walk pool bh node =
     (if pn_height node > bh
      then (case hm_get (pn_parent node) pool of Some prev \<Rightarrow> proto_walk pool bh prev | None \<Rightarrow> Some node)
      else Some node)"

definition proto_is_conflicting :: "PTreeNode \<Rightarrow> PTreeNode \<Rightarrow> PMachine \<Rightarrow> bool exec" where
  "proto_is_conflicting a0 b0 m =
     (let (a, b) = (if pn_height a0 \<ge> pn_height b0 then (a0, b0) else (b0, a0))
      in case proto_walk (mc_node_pool m) (pn_height b) a of
           None \<Rightarrow> Diverge
         | Some node \<Rightarrow> Return (\<not> (pn_height node = pn_height b \<and> pn_cmds node = pn_cmds b)))"

definition proto_get_node :: "NodeHash \<Rightarrow> PMachine \<Rightarrow> PTreeNode option" where
  "proto_get_node node_hash m = hm_get node_hash (mc_node_pool m)"

definition proto_get_qc :: "QCHash \<Rightarrow> PMachine \<Rightarrow> PGenericQC option" where
  "proto_get_qc qc_hash m = hm_get qc_hash (mc_qc_map m)"

definition proto_update_locked_node :: "PTreeNode \<Rightarrow> PMachine \<Rightarrow> PMachine" where
  "proto_update_locked_node node m = m\<lparr>mc_b_locked := node\<rparr>"

definition proto_update_last_executed_node :: "PTreeNode \<Rightarrow> PMachine \<Rightarrow> PMachine" where
  "proto_update_last_executed_node node m = m\<lparr>mc_b_executed := node\<rparr>"

definition proto_increase_view :: "ViewNumber \<Rightarrow> PMachine \<Rightarrow> PMachine" where
  "proto_increase_view new_view m = m\<lparr>mc_view := max (mc_view m) new_view\<rparr>"

definition proto_is_continues_three_chain :: "crypto \<Rightarrow> PTreeNode list \<Rightarrow> bool" where
  "proto_is_continues_three_chain C chain =
     (case chain of
        [b_3, b_2, b] \<Rightarrow> pn_parent b_3 = PTreeNode_hash C b_3 \<and> pn_parent b_2 = PTreeNode_hash C b
      | _ \<Rightarrow> False)"

definition proto_reset :: "PMachine \<Rightarrow> PMachine" where
  "proto_reset m = m\<lparr>mc_voting_set := [], mc_decided := False\<rparr>"

definition proto_add_vote :: "PContext \<Rightarrow> PSignKit \<Rightarrow> PMachine \<Rightarrow> PMachine \<times> bool" where
  "proto_add_vote ctx sign m =
     (m\<lparr>mc_voting_set := hm_insert (px_from ctx) sign (mc_voting_set m)\<rparr>,
      hm_get (px_from ctx) (mc_voting_set m) = None)"

definition proto_vote_set_size :: "PMachine \<Rightarrow> usize" where
  "proto_vote_set_size m = length (mc_voting_set m)"

subsection \<open>StateMachine\<close>

partial_function (option) proto_commit_walk :: "PTreeNode \<Rightarrow> PMachine \<Rightarrow> PMachine option" where
  "proto_commit_walk node m =
     (let b_exec = mc_b_locked m
      in if pn_height b_exec < pn_height node
         then
           Option.bind
             (case hm_get (pn_parent node) (mc_node_pool m) of
                Some par \<Rightarrow> proto_commit_walk par m
              | None \<Rightarrow> Some m)
             (\<lambda>m1. Some (m1\<lparr>mc_commit_height := pn_height node\<rparr>))
         else Some m)"

definition proto_on_commit :: "PTreeNode \<Rightarrow> PMachine \<Rightarrow> PMachine exec" where
  "proto_on_commit node m = (case proto_commit_walk node m of None \<Rightarrow> Diverge | Some m1 \<Rightarrow> Return m1)"

definition proto_update_nodes :: "crypto \<Rightarrow> PTreeNode \<Rightarrow> PMachine \<Rightarrow> PMachine exec" where
  "proto_update_nodes C node m =
     (let chain = proto_find_three_chain node m; b_lock = mc_b_locked m
      in exec_bind
           (case chain of
              b_3 # _ \<Rightarrow> exec_bind (exec_of_option UnwrapNone (proto_get_qc (pn_justify node) m)) (\<lambda>b3_qc.
                           Return (proto_update_qc_high C b_3 b3_qc m))
            | [] \<Rightarrow> Return m)
           (\<lambda>m1.
             let m2 = (case chain of
                         _ # b_2 # _ \<Rightarrow> if pn_height b_2 > pn_height b_lock
                                          then proto_update_locked_node node m1 else m1
                       | _ \<Rightarrow> m1)
             in if length chain = 3 \<and> proto_is_continues_three_chain C chain
                then proto_on_commit (last chain) m2 else Return m2))"

definition proto_safe_node :: "PTreeNode \<Rightarrow> PTreeNode \<Rightarrow> PMachine \<Rightarrow> bool exec" where
  "proto_safe_node node prev_node m =
     exec_bind (proto_is_conflicting node (mc_b_locked m) m) (\<lambda>conflicting.
       Return (\<not> conflicting \<or> pn_height prev_node > pn_height (mc_b_locked m)))"

subsection \<open>SysConf and Crypto\<close>

definition proto_get_addr :: "ReplicaID \<Rightarrow> PMachine \<Rightarrow> string option" where
  "proto_get_addr node_id m = hm_get node_id (mc_peer_conf m)"

definition proto_threshold :: "PMachine \<Rightarrow> usize" where
  "proto_threshold m = (length (mc_peer_conf m) * 2) mod 2 ^ 64 div 3"

definition proto_sign :: "crypto \<Rightarrow> PTreeNode \<Rightarrow> PMachine \<Rightarrow> Sign" where
  "proto_sign C node m = sk_sign C (mc_sks m) (PTreeNode_to_be_bytes node)"

definition proto_combine_partial_sign :: "crypto \<Rightarrow> PMachine \<Rightarrow> CombinedSign exec" where
  "proto_combine_partial_sign C m =
     (let tmp = map (\<lambda>kit. (unat (pk_sign_id kit), pk_sign kit)) (hm_values (mc_voting_set m))
      in exec_of_option UnwrapNone (combine_signatures C (mc_pks m) tmp))"

subsection \<open>HotStuff\<close>

definition proto_is_leader :: "PMachine \<Rightarrow> bool" where
  "proto_is_leader m = (case mc_leader_id m of None \<Rightarrow> False | Some leader \<Rightarrow> leader = mc_self_id m)"

definition proto_propose :: "PTreeNode \<Rightarrow> PGenericQC \<Rightarrow> PMachine \<Rightarrow> PMachine exec" where
  "proto_propose node qc m =
     (if mc_net m = Listening
      then Return (m\<lparr>mc_step_out := mc_step_out m
             @ [PPropose \<lparr>px_from = mc_self_id m, px_view = mc_view m\<rparr> node qc]\<rparr>)
      else Panic UnwrapNone)"

definition proto_on_beat :: "crypto \<Rightarrow> Cmd list \<Rightarrow> PMachine \<Rightarrow> PMachine exec" where
  "proto_on_beat C cmds m =
     (let prev_leaf = mc_leaf m;
          par = PTreeNode_hash C prev_leaf;
          just = PGenericQC_hash (mc_qc_high m);
          (node, _) = PTreeNode_node_and_hash C cmds (mc_view m) par just;
          m1 = proto_update_leaf C node m
      in proto_propose node (mc_qc_high m1) m1)"

definition proto_on_recv_vote :: "crypto \<Rightarrow> PContext \<Rightarrow> PTreeNode \<Rightarrow> PSignKit \<Rightarrow> PMachine \<Rightarrow> PMachine exec" where
  "proto_on_recv_vote C ctx prop sign m =
     (if mc_decided m then Return m
      else case proto_add_vote ctx sign m of
        (m1, False) \<Rightarrow> Return m1
      | (m1, True) \<Rightarrow>
          (if proto_vote_set_size m1 > proto_threshold m1
           then exec_bind (proto_combine_partial_sign C m1) (\<lambda>combined_sign.
                  let prop_hash = PTreeNode_hash C prop;
                      qc = \<lparr>pq_view = mc_view m1, pq_node = prop_hash, pq_combined_sign = Some combined_sign\<rparr>;
                      m2 = proto_update_qc_high C prop qc m1
                  in Return (proto_append_new_qc qc (m2\<lparr>mc_decided := True\<rparr>)))
           else Return m1))"

text \<open>What a handler sends through the reply channel of a message.\<close>

datatype reply =
    SnapshotReply PContext PSnapshot
  | VoteReply PContext PTreeNode PSignKit
  | LeafReply PTreeNode PGenericQC

text \<open>The part of \<open>on_recv_proposal\<close> that votes, if the justification's node is known.\<close>

definition proto_try_vote ::
    "crypto \<Rightarrow> PTreeNode \<Rightarrow> reply_channel \<Rightarrow> PMachine \<Rightarrow> (PMachine \<times> reply list) exec" where
  "proto_try_vote C prop sender m =
     (case proto_find_node_by_qc (pn_justify prop) m of
        Some prev_node \<Rightarrow>
          exec_bind (if pn_height prop > mc_vheight m then proto_safe_node prop prev_node m
                     else Return False) (\<lambda>ok.
            if ok
            then
              (let m1 = m\<lparr>mc_vheight := pn_height prop\<rparr>;
                   kit = \<lparr>pk_sign = proto_sign C prop m1, pk_sign_id = mc_sign_id m1\<rparr>
               in if sender = Listening
                  then Return (proto_append_new_node C prop m1,
                         [VoteReply \<lparr>px_from = mc_self_id m1, px_view = mc_view m1\<rparr> prop kit])
                  else Panic UnwrapNone)
            else Return (m, []))
      | None \<Rightarrow> Return (m, []))"

definition proto_on_recv_proposal ::
    "crypto \<Rightarrow> PContext \<Rightarrow> PTreeNode \<Rightarrow> PGenericQC \<Rightarrow> reply_channel \<Rightarrow> PMachine
       \<Rightarrow> (PMachine \<times> reply list) exec" where
  "proto_on_recv_proposal C ctx prop just sender m =
     (if mc_leader_id m \<noteq> Some (px_from ctx) then Return (m, [])
      else
        (let m1 = proto_append_new_qc just m
         in exec_bind (proto_try_vote C prop sender m1) (\<lambda>(m2, replies).
            exec_bind (proto_update_nodes C prop m2) (\<lambda>m3. Return (m3, replies)))))"

subsection \<open>The message loop\<close>

fun process_internal_msg ::
    "crypto \<Rightarrow> (u8 list \<Rightarrow> string) \<Rightarrow> InternalMsg \<Rightarrow> PMachine \<Rightarrow> (PMachine \<times> reply list) exec" where
  "process_internal_msg C b64 (PRequestSnapshot sender) m =
     (let ss = \<lparr>sn_view = mc_view m, sn_leader = mc_leader_id m, sn_threshold = proto_threshold m,
                sn_node_num = length (mc_node_pool m),
                sn_leaf = b64 (PTreeNode_to_be_bytes (mc_b_executed m)),
                sn_qc_high = b64 (PGenericQC_to_be_bytes (mc_qc_high m))\<rparr>
      in if sender = Listening
         then Return (m, [SnapshotReply \<lparr>px_from = mc_self_id m, px_view = mc_view m\<rparr> ss])
         else Panic UnwrapNone)"
| "process_internal_msg C b64 (PRecvProposal ctx proposal just sender) m =
     proto_on_recv_proposal C ctx proposal just sender m"
| "process_internal_msg C b64 (PRecvSign ctx node sign) m =
     exec_bind (proto_on_recv_vote C ctx node sign m) (\<lambda>m1. Return (m1, []))"
| "process_internal_msg C b64 (PNewTx cmd) m =
     exec_bind (proto_on_beat C [cmd] m) (\<lambda>m1. Return (m1, []))"
| "process_internal_msg C b64 (PRecvNewViewMsg _ _ qc_high) m =
     Return (case proto_get_node (pq_node qc_high) m of
         Some qcn \<Rightarrow> proto_update_qc_high C qcn qc_high m | None \<Rightarrow> m, [])"
| "process_internal_msg C b64 (PNewLeader ctx leader) m =
     Return (if px_view ctx \<ge> mc_view m \<and> mc_leader_id m = None
             then m\<lparr>mc_leader_id := Some leader\<rparr> else m, [])"
| "process_internal_msg C b64 (PViewChange leader view sender) m =
     Return (if view > mc_view m
             then (let m1 = proto_reset (m\<lparr>mc_view := view, mc_leader_id := Some leader\<rparr>)
                   in (m1, if sender = Listening then [LeafReply (mc_leaf m1) (mc_qc_high m1)] else []))
             else (m, []))"
| "process_internal_msg C b64 (PPropose _ _ _) m = Return (m, [])"
| "process_internal_msg C b64 PDown m = Return (m, [])"

text \<open>\<open>run\<close>: the messages of \<open>step_in\<close> in order, until \<open>Down\<close> or until the channel is drained.\<close>

fun proto_run ::
    "crypto \<Rightarrow> (u8 list \<Rightarrow> string) \<Rightarrow> InternalMsg list \<Rightarrow> PMachine \<Rightarrow> (PMachine \<times> reply list) exec" where
  "proto_run C b64 [] m = Return (m, [])"
| "proto_run C b64 (msg # msgs) m =
     (if msg = PDown then Return (m, [])
      else
        exec_bind (process_internal_msg C b64 msg m) (\<lambda>(m1, rs).
        exec_bind (proto_run C b64 msgs m1) (\<lambda>(m2, rs'). Return (m2, rs @ rs'))))"

end
