(* ===== verification/ProtoNode.thy ===== *)
theory ProtoNode
  imports ProtoMachine
begin

section \<open>hs-prototype, pacemaker.rs and main.rs: ticks, views and the HTTP proxy\<close>

text \<open>
  The tick driven pacemaker, the timer task that feeds it, and the proxy: an HTTP handler turns a
  request into a message for the machine and the machine's reply into a response; the proxy loop
  turns the machine's proposals into requests to all peers, whose responses come back as votes.
  A handler is given whether its message could be sent and what came back through its reply
  channel, and returns the messages it sent with its response.
\<close>

subsection \<open>pacemaker.rs\<close>

record DefaultPacemaker =
  dp_view :: u64
  dp_tick :: u64
  dp_deadline :: u64
  dp_to_sm :: "InternalMsg list"
  dp_sm :: reply_channel
  dp_peer_conf :: "(ReplicaID, string) hash_map"
  dp_leader :: "ReplicaID option"

definition DefaultPacemaker_new :: "(ReplicaID, string) hash_map \<Rightarrow> ReplicaID option \<Rightarrow> DefaultPacemaker" where
  "DefaultPacemaker_new peer_conf leader =
     \<lparr>dp_view = 1, dp_tick = 0, dp_deadline = push_bit 10 1, dp_to_sm = [], dp_sm = Listening,
      dp_peer_conf = peer_conf, dp_leader = leader\<rparr>"

definition touch_deadline :: "DefaultPacemaker \<Rightarrow> bool" where
  "touch_deadline dp = (dp_tick dp \<ge> dp_deadline dp)"

text \<open>The receiver of the reply is dropped when \<open>view_change\<close> returns; nobody reads the answer.\<close>

definition view_change :: "DefaultPacemaker \<Rightarrow> DefaultPacemaker exec" where
  "view_change dp =
     exec_bind (exec_of_option UnwrapNone (dp_leader dp)) (\<lambda>leader.
       if dp_sm dp = Listening
       then Return (dp\<lparr>dp_to_sm := dp_to_sm dp @ [PViewChange leader (dp_view dp) Gone]\<rparr>)
       else Panic UnwrapNone)"

text \<open>One pass of \<open>run\<close>; the loop has no exit of its own.\<close>

definition dp_on_tick :: "u64 \<times> u64 \<Rightarrow> DefaultPacemaker \<Rightarrow> DefaultPacemaker exec" where
  "dp_on_tick td dp =
     (let (new_tick, deadline) = td;
          dp1 = dp\<lparr>dp_tick := max new_tick (dp_tick dp), dp_deadline := deadline\<rparr>
      in if touch_deadline dp1 then view_change (dp1\<lparr>dp_view := dp_view dp1 + 1\<rparr>) else Return dp1)"

subsection \<open>main.rs: the timer task\<close>

text \<open>The pairs sent, as long as every send succeeds.\<close>

function timer_loop :: "u64 \<Rightarrow> u64 \<Rightarrow> u64 \<Rightarrow> u64 \<Rightarrow> (u64 \<times> u64) list" where
  "timer_loop lifetime step tick deadline =
     (if tick \<ge> lifetime then []
      else
        (tick, deadline) # timer_loop lifetime step (tick + 1)
          (if tick + 1 > deadline then deadline + step else deadline))"
  by pat_completeness auto
termination
proof (relation "measure (\<lambda>(lifetime, step, tick, deadline). unat lifetime - unat tick)", goal_cases)
  case (2 lifetime step tick deadline)
  then have "tick < lifetime" by simp
  then show ?case by (simp add: unat_Suc_below [of tick lifetime] word_less_nat_alt)
qed simp

declare timer_loop.simps [simp del]

definition default_timer :: "u64 \<Rightarrow> u64 \<Rightarrow> (u64 \<times> u64) list" where
  "default_timer lifetime step = (let tick = 0; deadline = tick + step in timer_loop lifetime step tick deadline)"

subsection \<open>main.rs: HTTP handlers\<close>

datatype http_code = HttpOk | HttpInternalServerError

definition status_handler ::
    "PContext \<Rightarrow> bool \<Rightarrow> (PContext \<times> PSnapshot) option \<Rightarrow> InternalMsg list \<times> http_code \<times> RpcResponse" where
  "status_handler sd_ctx sent_ok answer =
     (if \<not> sent_ok then ([], HttpOk, RpcResponse_status sd_ctx None)
      else
        ([PRequestSnapshot Listening], HttpOk,
         case answer of
           None \<Rightarrow> RpcResponse_status sd_ctx None
         | Some (ctx, ss) \<Rightarrow> RpcResponse_status ctx (Some ss)))"

definition recv_new_proposal ::
    "RpcRequest \<Rightarrow> bool \<Rightarrow> (PContext \<times> PTreeNode \<times> PSignKit) option
       \<Rightarrow> (InternalMsg list \<times> http_code \<times> RpcResponse) exec" where
  "recv_new_proposal data sent_ok answer =
     exec_bind (exec_of_option UnwrapNone (rq_prop data)) (\<lambda>node.
     exec_bind (exec_of_option UnwrapNone (rq_qc data)) (\<lambda>just.
       Return (if \<not> sent_ok
         then ([], HttpInternalServerError, RpcResponse_internal_err (rq_ctx data) RpcNewProposal)
         else
           ([PRecvProposal (rq_ctx data) node just Listening], HttpOk,
            case answer of
              None \<Rightarrow> RpcResponse_reject (rq_ctx data)
            | Some (ctx, nd, sign) \<Rightarrow> RpcResponse_accept ctx nd sign))))"

definition on_recv_new_view :: "RpcRequest \<Rightarrow> bool \<Rightarrow> InternalMsg list \<times> http_code \<times> RpcResponse" where
  "on_recv_new_view data sent_ok =
     (case (rq_qc data, rq_prop data) of
        (Some qc, Some node) \<Rightarrow>
          (if sent_ok then [PRecvNewViewMsg (rq_ctx data) node qc] else [], HttpOk,
           RpcResponse_ok (rq_ctx data) RpcNewView)
      | _ \<Rightarrow> ([], HttpOk, RpcResponse_invalid_usage (rq_ctx data) RpcNewView))"

definition new_leader_handler :: "RpcRequest \<Rightarrow> bool \<Rightarrow> (InternalMsg list \<times> http_code \<times> RpcResponse) exec" where
  "new_leader_handler data sent_ok =
     (case rq_leader data of
        Some leader \<Rightarrow>
          (if sent_ok
           then Return ([PNewLeader (rq_ctx data) leader], HttpOk, RpcResponse_ok (rq_ctx data) RpcNewLeader)
           else Panic UnwrapNone)
      | None \<Rightarrow> Return ([], HttpOk, RpcResponse_invalid_usage (rq_ctx data) RpcNewLeader))"

definition new_tx_handler :: "NewTransaction \<Rightarrow> bool \<Rightarrow> InternalMsg list \<times> http_code \<times> string" where
  "new_tx_handler data sent_ok =
     (if sent_ok then ([PNewTx (nt_cmd data)], HttpOk, ''ok, tx is queuing'')
      else ([], HttpOk, ''internal error''))"

subsection \<open>main.rs: the proxy loop and the broadcast\<close>

text \<open>What one message of the machine makes the proxy send to its peers, and whether it quits.\<close>

definition proxy_on_msg :: "InternalMsg \<Rightarrow> bool \<Rightarrow> (RpcRequest option \<times> bool) exec" where
  "proxy_on_msg msg has_peers =
     (case msg of
        PPropose ctx node qc \<Rightarrow>
          (if has_peers
           then Return (Some \<lparr>rq_ctx = ctx, rq_msg_type = RpcNewProposal, rq_leader = None,
                  rq_prop = Some node, rq_qc = Some qc\<rparr>, False)
           else Panic UnwrapNone)
      | PDown \<Rightarrow> Return (None, True)
      | _ \<Rightarrow> Return (None, False))"

text \<open>A response of a peer, forwarded to the leader's machine.\<close>

definition broadcastor_on_response :: "RpcResponse \<Rightarrow> bool \<Rightarrow> InternalMsg list exec" where
  "broadcastor_on_response resp sent_ok =
     exec_bind (from_rpc_response resp) (\<lambda>msg.
       case msg of
         Some x \<Rightarrow> if sent_ok then Return [x] else Panic UnwrapNone
       | None \<Rightarrow> Return [])"

end
