(* ===== verification/ProtoProps.thy ===== *)
theory ProtoProps
  imports ProtoNode ToyCrypto
begin

section \<open>hs-prototype: properties\<close>

text \<open>
  The prototype votes at strictly rising heights, its votes reach the leader as they were signed,
  and its timer and pacemaker change views at the pace of the deadline. Its commit rule compares a
  proposal's parent with the proposal's own hash, so it commits nothing short of a fixed point of
  the hash; and taking over a certificate never moves the leaf.
\<close>

subsection \<open>What the operations leave unchanged\<close>

text \<open>\<open>update_qc_high\<close> first raises \<open>leaf_high\<close> to the height that \<open>update_leaf\<close> then compares it with.\<close>

lemma proto_update_qc_high_eq:
  "proto_update_qc_high C n qc m =
     (case proto_find_node_by_qc (PGenericQC_hash (mc_qc_high m)) m of
        Some q \<Rightarrow> if pn_height n > pn_height q then m\<lparr>mc_qc_high := qc, mc_leaf_high := pn_height n\<rparr> else m
      | None \<Rightarrow> m)"
  by (simp add: proto_update_qc_high_def proto_update_leaf_def split: option.split)

lemma proto_update_qc_high_frame [simp]:
  "mc_node_pool (proto_update_qc_high C n qc m) = mc_node_pool m"
  "mc_qc_map (proto_update_qc_high C n qc m) = mc_qc_map m"
  "mc_leaf (proto_update_qc_high C n qc m) = mc_leaf m"
  "mc_vheight (proto_update_qc_high C n qc m) = mc_vheight m"
  "mc_commit_height (proto_update_qc_high C n qc m) = mc_commit_height m"
  "mc_b_locked (proto_update_qc_high C n qc m) = mc_b_locked m"
  "mc_view (proto_update_qc_high C n qc m) = mc_view m"
  "mc_sks (proto_update_qc_high C n qc m) = mc_sks m"
  "mc_self_id (proto_update_qc_high C n qc m) = mc_self_id m"
  by (simp_all add: proto_update_qc_high_eq split: option.split)

text \<open>What no step of the commit rule touches.\<close>

definition mc_kept :: "PMachine \<Rightarrow> PMachine \<Rightarrow> bool" where
  "mc_kept m m1 \<longleftrightarrow> mc_node_pool m1 = mc_node_pool m \<and> mc_vheight m1 = mc_vheight m
     \<and> mc_sks m1 = mc_sks m \<and> mc_self_id m1 = mc_self_id m \<and> mc_view m1 = mc_view m"

lemma mc_kept_refl [simp]: "mc_kept m m"
  by (simp add: mc_kept_def)

lemma mc_kept_trans: "mc_kept m m1 \<Longrightarrow> mc_kept m1 m2 \<Longrightarrow> mc_kept m m2"
  by (simp add: mc_kept_def)

lemma mc_kept_updates [simp]:
  "mc_kept m (m1\<lparr>mc_commit_height := x\<rparr>) = mc_kept m m1" "mc_kept m (m1\<lparr>mc_b_locked := n\<rparr>) = mc_kept m m1"
  "mc_kept m (proto_update_qc_high C n qc m1) = mc_kept m m1"
  by (simp_all add: mc_kept_def)

lemma proto_commit_walk_kept:
  assumes "proto_commit_walk n m = Some m1"
  shows "mc_kept m m1"
  using assms
proof (induction rule: proto_commit_walk.raw_induct [rotated, consumes 1])
  case (1 walk n m m1)
  have "mc_kept m x" if "(case hm_get (pn_parent n) (mc_node_pool m) of Some par \<Rightarrow> walk par m | None \<Rightarrow> Some m) = Some x" for x
    using that 1(1) by (auto split: option.splits)
  with 1(2) show ?case by (auto simp: Let_def bind_eq_Some_conv split: if_splits)
qed

lemma proto_update_nodes_kept:
  assumes "proto_update_nodes C n m = Return m1"
  shows "mc_kept m m1 \<and> (mc_commit_height m1 \<noteq> mc_commit_height m \<longrightarrow>
      proto_is_continues_three_chain C (proto_find_three_chain n m))"
proof -
  let ?chain = "proto_find_three_chain n m"
  let ?commits = "length ?chain = 3 \<and> proto_is_continues_three_chain C ?chain"
  let ?lock = "\<lambda>m1. case ?chain of
      _ # b_2 # _ \<Rightarrow> if pn_height b_2 > pn_height (mc_b_locked m) then proto_update_locked_node n m1 else m1
    | _ \<Rightarrow> m1"
  obtain m' where q: "(case ?chain of
        b_3 # _ \<Rightarrow> exec_bind (exec_of_option UnwrapNone (proto_get_qc (pn_justify n) m)) (\<lambda>b3_qc.
                     Return (proto_update_qc_high C b_3 b3_qc m))
      | [] \<Rightarrow> Return m) = Return m'"
    and m1: "(if ?commits then proto_on_commit (last ?chain) (?lock m') else Return (?lock m')) = Return m1"
    using assms unfolding proto_update_nodes_def Let_def exec_bind_eq_Return by blast
  from q have "mc_kept m m'" "mc_commit_height m' = mc_commit_height m"
    by (auto simp: exec_bind_eq_Return split: list.splits)
  then have x: "mc_kept m (?lock m')" "mc_commit_height (?lock m') = mc_commit_height m"
    by (simp_all add: proto_update_locked_node_def split: list.split)
  show ?thesis
  proof (cases ?commits)
    case True
    with m1 have "mc_kept (?lock m') m1"
      by (auto simp: proto_on_commit_def proto_commit_walk_kept split: option.splits)
    with x True show ?thesis by (blast intro: mc_kept_trans)
  qed (use m1 x in auto)
qed

subsection \<open>Voting\<close>

definition voted :: "reply list \<Rightarrow> PTreeNode list" where
  "voted rs = List.map_filter (\<lambda>r. case r of VoteReply _ p _ \<Rightarrow> Some p | _ \<Rightarrow> None) rs"

lemma voted_simps [simp]:
  "voted [] = []" "voted (VoteReply c p k # rs) = p # voted rs"
  "voted (SnapshotReply c s # rs) = voted rs" "voted (LeafReply l q # rs) = voted rs"
  "voted (rs @ rs') = voted rs @ voted rs'"
  by (simp_all add: voted_def List.map_filter_def)

lemma not_voted: "voted rs = [] \<Longrightarrow> VoteReply c p k \<notin> set rs"
  by (induction rs) (auto simp: voted_def List.map_filter_def split: reply.splits)

text \<open>
  One message: the replies hold at most one vote, above the last voted height, which it becomes;
  the vote is the replica's own signature.
\<close>

definition step_votes :: "crypto \<Rightarrow> PMachine \<Rightarrow> PMachine \<Rightarrow> reply list \<Rightarrow> bool" where
  "step_votes C m m1 rs \<longleftrightarrow> mc_sks m1 = mc_sks m \<and> mc_self_id m1 = mc_self_id m
     \<and> (voted rs = [] \<and> mc_vheight m1 = mc_vheight m
        \<or> (\<exists>c p k. rs = [VoteReply c p k] \<and> mc_vheight m < pn_height p \<and> mc_vheight m1 = pn_height p
             \<and> px_from c = mc_self_id m \<and> pk_sign k = sk_sign C (mc_sks m) (PTreeNode_to_be_bytes p)))"

lemma proto_try_vote_votes:
  assumes "proto_try_vote C p sender m = Return (m1, rs)"
  shows "step_votes C m m1 rs"
  using assms by (auto simp: proto_try_vote_def step_votes_def exec_bind_eq_Return proto_append_new_node_def
      proto_sign_def Let_def split: option.splits if_splits)

lemma proto_on_recv_proposal_votes:
  assumes "proto_on_recv_proposal C ctx p just sender m = Return (m1, rs)"
  shows "step_votes C m m1 rs"
proof (cases "mc_leader_id m = Some (px_from ctx)")
  case False
  with assms show ?thesis by (simp add: proto_on_recv_proposal_def step_votes_def)
next
  case True
  with assms obtain x where x: "proto_try_vote C p sender (proto_append_new_qc just m) = Return (x, rs)"
      and u: "proto_update_nodes C p x = Return m1"
    by (auto simp: proto_on_recv_proposal_def exec_bind_eq_Return Let_def)
  from proto_try_vote_votes [OF x] proto_update_nodes_kept [OF u] show ?thesis
    by (auto simp: step_votes_def mc_kept_def proto_append_new_qc_def)
qed

lemma proto_on_recv_vote_frame:
  assumes "proto_on_recv_vote C ctx p k m = Return m1"
  shows "mc_vheight m1 = mc_vheight m" "mc_sks m1 = mc_sks m" "mc_self_id m1 = mc_self_id m"
    "mc_commit_height m1 = mc_commit_height m" "mc_node_pool m1 = mc_node_pool m"
  using assms by (auto simp: proto_on_recv_vote_def proto_add_vote_def proto_append_new_qc_def
      exec_bind_eq_Return Let_def split: if_splits bool.splits prod.splits)

lemma proto_on_beat_frame:
  assumes "proto_on_beat C cmds m = Return m1"
  shows "mc_vheight m1 = mc_vheight m" "mc_sks m1 = mc_sks m" "mc_self_id m1 = mc_self_id m"
    "mc_commit_height m1 = mc_commit_height m"
  using assms by (auto simp: proto_on_beat_def proto_propose_def proto_update_leaf_def Let_def
      PTreeNode_node_and_hash_def split: if_splits)

lemma process_internal_msg_votes:
  assumes "process_internal_msg C b64 msg m = Return (m1, rs)"
  shows "step_votes C m m1 rs"
  using assms
  by (cases msg) (auto simp: step_votes_def exec_bind_eq_Return proto_on_recv_vote_frame proto_on_beat_frame
      proto_reset_def Let_def split: if_splits option.splits
      dest: proto_on_recv_proposal_votes [unfolded step_votes_def])

text \<open>C38: the prototype never signs two proposals of one height. Whatever messages its machine
  handles, the heights it votes at rise strictly, starting above the height last voted at, and
  every vote is its own signature of the proposal, under its own name.\<close>

theorem proto_votes_increase:
  assumes "proto_run C b64 msgs m = Return (m1, rs)"
  shows "sorted_wrt (<) (mc_vheight m # map pn_height (voted rs))
    \<and> (\<forall>c p k. VoteReply c p k \<in> set rs \<longrightarrow>
          px_from c = mc_self_id m \<and> pk_sign k = sk_sign C (mc_sks m) (PTreeNode_to_be_bytes p))"
  using assms
proof (induction msgs arbitrary: m rs)
  case (Cons msg msgs)
  show ?case
  proof (cases "msg = PDown")
    case False
    with Cons.prems obtain x r1 r2 where x: "process_internal_msg C b64 msg m = Return (x, r1)"
        and r: "proto_run C b64 msgs x = Return (m1, r2)" "rs = r1 @ r2"
      by (auto simp: exec_bind_eq_Return simp del: process_internal_msg.simps)
    note v = process_internal_msg_votes [OF x]
    have rest: "sorted_wrt (<) (mc_vheight x # map pn_height (voted r2))"
        "\<forall>c p k. VoteReply c p k \<in> set r2 \<longrightarrow>
          px_from c = mc_self_id m \<and> pk_sign k = sk_sign C (mc_sks m) (PTreeNode_to_be_bytes p)"
      using Cons.IH [OF r(1)] v by (simp_all add: step_votes_def)
    from v consider (none) "voted r1 = []" "mc_vheight x = mc_vheight m"
      | (vote) c p k where "r1 = [VoteReply c p k]" "mc_vheight m < pn_height p" "mc_vheight x = pn_height p"
          "px_from c = mc_self_id m" "pk_sign k = sk_sign C (mc_sks m) (PTreeNode_to_be_bytes p)"
      unfolding step_votes_def by blast
    then show ?thesis
    proof cases
      case none
      then have "VoteReply c p k \<notin> set r1" for c p k by (rule_tac not_voted)
      with none rest show ?thesis by (simp add: r(2))
    next
      case vote
      with rest show ?thesis by (auto simp: r(2) intro: order.strict_trans)
    qed
  qed (use Cons.prems in simp)
qed simp

subsection \<open>Committing\<close>

definition own_parent :: "crypto \<Rightarrow> PMachine \<Rightarrow> bool" where
  "own_parent C m \<longleftrightarrow> (\<exists>n \<in> snd ` set (mc_node_pool m). pn_parent n = PTreeNode_hash C n)"

lemma three_chain_pool: "set (proto_find_three_chain n m) \<subseteq> snd ` set (mc_node_pool m)"
proof -
  have "x \<in> snd ` set (mc_node_pool m)" if "Some x = hm_get k (mc_node_pool m)" for k x
    using hm_get_SomeD [OF that [symmetric]] by force
  then show ?thesis by (auto simp: proto_find_three_chain_def split: option.splits)
qed

lemma process_internal_msg_commit:
  assumes "process_internal_msg C b64 msg m = Return (m1, rs)" and "mc_commit_height m1 \<noteq> mc_commit_height m"
  shows "own_parent C m1"
proof -
  obtain ctx p just sender where msg: "msg = PRecvProposal ctx p just sender"
    using assms by (cases msg) (auto simp: exec_bind_eq_Return proto_on_recv_vote_frame proto_on_beat_frame
        proto_reset_def Let_def split: if_splits option.splits)
  with assms obtain x where x: "proto_try_vote C p sender (proto_append_new_qc just m) = Return (x, rs)"
      and u: "proto_update_nodes C p x = Return m1"
    by (auto simp: proto_on_recv_proposal_def exec_bind_eq_Return Let_def split: if_splits)
  from x have "mc_commit_height x = mc_commit_height m"
    by (auto simp: proto_try_vote_def exec_bind_eq_Return proto_append_new_node_def proto_append_new_qc_def
        Let_def split: option.splits if_splits)
  with proto_update_nodes_kept [OF u] assms(2)
  have chain: "proto_is_continues_three_chain C (proto_find_three_chain p x)" and pool: "mc_node_pool m1 = mc_node_pool x"
    by (auto simp: mc_kept_def)
  from chain obtain b3 b2 b where "proto_find_three_chain p x = [b3, b2, b]" "pn_parent b3 = PTreeNode_hash C b3"
    by (auto simp: proto_is_continues_three_chain_def split: list.splits)
  with three_chain_pool [of p x] show ?thesis by (auto simp: own_parent_def pool)
qed

text \<open>The prototype does not commit. If the committed height changes along a run, then at some
  point of the run the node pool held a proposal that names its own hash as its parent: the
  check for a three chain compares the first proposal's parent with that proposal's own hash
  instead of the second's.\<close>

lemma proto_commit_needs_own_parent:
  assumes "proto_run C b64 msgs m = Return (m1, rs)" and "mc_commit_height m1 \<noteq> mc_commit_height m"
  shows "\<exists>k m' rs'. proto_run C b64 (take k msgs) m = Return (m', rs')
    \<and> (\<exists>n \<in> snd ` set (mc_node_pool m'). pn_parent n = PTreeNode_hash C n)"
  using assms
proof (induction msgs arbitrary: m rs)
  case (Cons msg msgs)
  show ?case
  proof (cases "msg = PDown")
    case False
    with Cons.prems obtain x r1 r2 where x: "process_internal_msg C b64 msg m = Return (x, r1)"
        and r: "proto_run C b64 msgs x = Return (m1, r2)"
      by (auto simp: exec_bind_eq_Return simp del: process_internal_msg.simps)
    have step: "proto_run C b64 (take (Suc k) (msg # msgs)) m
        = exec_bind (proto_run C b64 (take k msgs) x) (\<lambda>(m2, rs'). Return (m2, r1 @ rs'))" for k
      using False x by (simp del: process_internal_msg.simps)
    show ?thesis
    proof (cases "mc_commit_height x = mc_commit_height m")
      case True
      with Cons.prems(2) Cons.IH [OF r] obtain k m' rs' where "proto_run C b64 (take k msgs) x = Return (m', rs')"
          "\<exists>n \<in> snd ` set (mc_node_pool m'). pn_parent n = PTreeNode_hash C n" by auto
      then show ?thesis using step [of k] by (intro exI [of _ "Suc k"]) simp
    next
      case False
      with process_internal_msg_commit [OF x] have "own_parent C x" by blast
      then show ?thesis using step [of 0] by (intro exI [of _ "Suc 0"]) (simp add: own_parent_def)
    qed
  qed (use Cons.prems in simp)
qed simp

subsection \<open>The walks end\<close>

text \<open>\<open>is_conflicting\<close> and \<open>on_commit\<close> climb the stored parents with no bound: they return unless these form a cycle.\<close>

definition pool_parents :: "(NodeHash, PTreeNode) hash_map \<Rightarrow> (PTreeNode \<times> PTreeNode) set" where
  "pool_parents pool = {(p, n). n \<in> snd ` set pool \<and> hm_get (pn_parent n) pool = Some p}"

interpretation conflicts: parent_walk "\<lambda>n. hm_get (pn_parent n) pool" "snd ` set pool" "proto_walk pool bh" for pool bh
  by unfold_locales (force dest: hm_get_SomeD, simp, (subst proto_walk.simps, simp)+)

interpretation commits: parent_walk "\<lambda>n. hm_get (pn_parent n) (mc_node_pool m)" "snd ` set (mc_node_pool m)"
    "\<lambda>n. proto_commit_walk n m" for m
  by unfold_locales (force dest: hm_get_SomeD, simp, (subst proto_commit_walk.simps, auto simp: Let_def)+)

lemma proto_safe_node_returns:
  assumes "acyclic (pool_parents (mc_node_pool m))"
  shows "\<exists>b. proto_safe_node n prev m = Return b"
proof -
  let ?hl = "if pn_height n \<ge> pn_height (mc_b_locked m) then (n, mc_b_locked m) else (mc_b_locked m, n)"
  have "proto_walk (mc_node_pool m) (pn_height (snd ?hl)) (fst ?hl) \<noteq> None"
    using conflicts.walk_returns assms unfolding pool_parents_def by blast
  then obtain x where "proto_walk (mc_node_pool m) (pn_height (snd ?hl)) (fst ?hl) = Some x" by blast
  then show ?thesis unfolding proto_safe_node_def proto_is_conflicting_def Let_def split_beta by simp
qed

lemma proto_on_commit_returns: "acyclic (pool_parents (mc_node_pool m)) \<Longrightarrow> \<exists>m1. proto_on_commit n m = Return m1"
  using commits.walk_returns [of m] by (auto simp: proto_on_commit_def pool_parents_def split: option.split)

lemma proto_update_nodes_ends:
  assumes "acyclic (pool_parents (mc_node_pool m))"
  shows "proto_update_nodes C n m \<noteq> Diverge"
proof -
  have "proto_on_commit x m1 \<noteq> Diverge" if "mc_node_pool m1 = mc_node_pool m" for x m1
    using proto_on_commit_returns [of m1 x] that assms by auto
  then show ?thesis
    by (auto simp: proto_update_nodes_def Let_def exec_bind_eq_Diverge exec_bind_eq_Return proto_update_locked_node_def
        split: list.split)
qed

lemma proto_try_vote_ends:
  assumes "acyclic (pool_parents (mc_node_pool m))"
  shows "proto_try_vote C p sender m \<noteq> Diverge"
proof -
  have "proto_safe_node p prev m \<noteq> Diverge" for prev
    using proto_safe_node_returns [OF assms] by (metis exec.distinct(3))
  then show ?thesis
    by (auto simp: proto_try_vote_def exec_bind_eq_Diverge Let_def split: option.split)
qed

lemma process_internal_msg_ends:
  assumes "process_internal_msg C b64 msg m = Diverge"
  shows "\<exists>ctx p just ch. msg = PRecvProposal ctx p just ch
    \<and> (\<not> acyclic (pool_parents (mc_node_pool m)) \<or> \<not> acyclic (pool_parents (mc_node_pool (proto_append_new_node C p m))))"
proof (cases msg)
  case (PRecvProposal ctx p just ch)
  let ?m = "proto_append_new_qc just m"
  have pool: "mc_node_pool ?m = mc_node_pool m" by (simp add: proto_append_new_qc_def Let_def)
  have "\<not> acyclic (pool_parents (mc_node_pool m)) \<or> \<not> acyclic (pool_parents (mc_node_pool (proto_append_new_node C p m)))"
  proof (rule ccontr)
    assume ok: "\<not> ?thesis"
    have "mc_node_pool x = mc_node_pool m \<or> mc_node_pool x = mc_node_pool (proto_append_new_node C p m)"
      if "proto_try_vote C p ch ?m = Return (x, rs)" for x rs
      using that pool by (auto simp: proto_try_vote_def exec_bind_eq_Return proto_append_new_node_def Let_def
          split: option.splits if_splits)
    then have "proto_update_nodes C p x \<noteq> Diverge" if "proto_try_vote C p ch ?m = Return (x, rs)" for x rs
      using that ok proto_update_nodes_ends by metis
    moreover have "proto_try_vote C p ch ?m \<noteq> Diverge" using proto_try_vote_ends ok pool by simp
    ultimately show False
      using assms PRecvProposal by (auto simp: proto_on_recv_proposal_def Let_def exec_bind_eq_Diverge split: if_splits)
  qed
  with PRecvProposal show ?thesis by blast
qed (use assms in \<open>auto simp: exec_bind_eq_Diverge proto_on_recv_vote_def proto_add_vote_def
      proto_combine_partial_sign_def proto_on_beat_def proto_propose_def PTreeNode_node_and_hash_def Let_def
      split: if_splits option.splits prod.splits bool.splits\<close>)

text \<open>C39: a replica of the prototype stops responding only on a cycle of parents. If its machine does not
  come back from a sequence of messages, then it is because of a proposal on whose arrival its
  node pool, as it was or with that proposal, holds proposals that are each other's parents in
  a circle. The loops of \<open>is_conflicting\<close> and \<open>on_commit\<close> have no bound of their own.\<close>

theorem proto_hangs_only_on_cycle:
  assumes "proto_run C b64 msgs m = Diverge"
  shows "\<exists>k m' rs ctx p just ch. proto_run C b64 (take k msgs) m = Return (m', rs) \<and> k < length msgs
    \<and> msgs ! k = PRecvProposal ctx p just ch
    \<and> (\<not> acyclic (pool_parents (mc_node_pool m')) \<or> \<not> acyclic (pool_parents (mc_node_pool (proto_append_new_node C p m'))))"
  using assms
proof (induction msgs arbitrary: m)
  case (Cons msg msgs)
  then have nd: "msg \<noteq> PDown" by auto
  show ?case
  proof (cases "process_internal_msg C b64 msg m")
    case (Return x)
    obtain m1 r1 where x: "x = (m1, r1)" by (cases x)
    have step: "proto_run C b64 (take (Suc k) (msg # msgs)) m
        = exec_bind (proto_run C b64 (take k msgs) m1) (\<lambda>(m2, rs'). Return (m2, r1 @ rs'))" for k
      using nd Return x by (simp del: process_internal_msg.simps)
    have "proto_run C b64 msgs m1 = Diverge"
      using Cons.prems nd Return x by (auto simp: exec_bind_eq_Diverge simp del: process_internal_msg.simps)
    from Cons.IH [OF this] obtain k m' rs ctx p just ch where "proto_run C b64 (take k msgs) m1 = Return (m', rs)"
        "k < length msgs" "msgs ! k = PRecvProposal ctx p just ch"
        "\<not> acyclic (pool_parents (mc_node_pool m')) \<or> \<not> acyclic (pool_parents (mc_node_pool (proto_append_new_node C p m')))"
      by blast
    then show ?thesis using step [of k] by (intro exI [of _ "Suc k"]) auto
  next
    case Diverge
    from process_internal_msg_ends [OF this] show ?thesis by (intro exI [of _ 0]) auto
  next
    case (Panic e)
    then show ?thesis using Cons.prems nd by (simp del: process_internal_msg.simps)
  qed
qed simp

subsection \<open>From a proposal to the vote at the leader\<close>

text \<open>What a handler of the proxy gets through its reply channel.\<close>

fun vote_answer :: "reply list \<Rightarrow> (PContext \<times> PTreeNode \<times> PSignKit) option" where
  "vote_answer (VoteReply c p k # _) = Some (c, p, k)"
| "vote_answer _ = None"

text \<open>A vote reaches the leader as it was signed. The leader's proposal becomes a request, which
  a peer's proxy turns into one message for its machine; the machine's reply becomes the
  response, which the leader's proxy turns into a vote for the leader's machine exactly if the
  peer voted: for the same proposal, with the peer's own signature and name, and the index of
  its key. If the peer did not vote, the response is a rejection and no message comes back.\<close>

lemma proto_vote_delivery:
  assumes "proxy_on_msg (PPropose ctx p qc) True = Return (Some rq, quit)"
    and "process_internal_msg C b64 (PRecvProposal ctx p qc Listening) m = Return (m1, rs)"
  shows "\<exists>code resp. recv_new_proposal rq True (vote_answer rs)
        = Return ([PRecvProposal ctx p qc Listening], code, resp)
    \<and> (if rs = [] then rs_status resp = Reject \<and> broadcastor_on_response resp True = Return []
       else broadcastor_on_response resp True = Return [PRecvSign
              \<lparr>px_from = mc_self_id m, px_view = mc_view m\<rparr> p
              \<lparr>pk_sign = sk_sign C (mc_sks m) (PTreeNode_to_be_bytes p), pk_sign_id = mc_sign_id m\<rparr>])"
proof -
  have rq: "rq = \<lparr>rq_ctx = ctx, rq_msg_type = RpcNewProposal, rq_leader = None, rq_prop = Some p, rq_qc = Some qc\<rparr>"
    using assms(1) by (simp add: proxy_on_msg_def)
  have "rs = [] \<or> rs = [VoteReply \<lparr>px_from = mc_self_id m, px_view = mc_view m\<rparr> p
      \<lparr>pk_sign = sk_sign C (mc_sks m) (PTreeNode_to_be_bytes p), pk_sign_id = mc_sign_id m\<rparr>]"
    using assms(2)
    by (auto simp: proto_on_recv_proposal_def proto_try_vote_def exec_bind_eq_Return proto_append_new_qc_def
        proto_sign_def Let_def split: option.splits if_splits)
  then show ?thesis
    by (auto simp: rq recv_new_proposal_def broadcastor_on_response_def from_rpc_response_def
        RpcResponse_reject_def RpcResponse_accept_def)
qed

subsection \<open>The pace of view changes\<close>

text \<open>The deadline the timer sends with tick \<open>t\<close>: the first multiple of the step that is not before \<open>t\<close>.\<close>

definition deadline_at :: "nat \<Rightarrow> nat \<Rightarrow> nat" where
  "deadline_at s t = s * ((t - 1) div s + 1)"

lemma deadline_reached:
  "0 < s \<Longrightarrow> deadline_at s (Suc u) < Suc (Suc u) \<longleftrightarrow> Suc u mod s = 0"
proof -
  assume s: "0 < s"
  have u: "s * (u div s) + u mod s = u" by simp
  have "deadline_at s (Suc u) < Suc (Suc u) \<longleftrightarrow> s + s * (u div s) < Suc (Suc (s * (u div s) + u mod s))"
    unfolding u by (simp add: deadline_at_def)
  also have "\<dots> \<longleftrightarrow> s < Suc (Suc (u mod s))" by linarith
  also have "\<dots> \<longleftrightarrow> Suc u mod s = 0" using mod_less_divisor [OF s, of u] by (auto simp: mod_Suc)
  finally show ?thesis .
qed

lemma deadline_step:
  "0 < s \<Longrightarrow> (if deadline_at s t < Suc t then deadline_at s t + s else deadline_at s t) = deadline_at s (Suc t)"
proof (cases t)
  case (Suc u)
  assume s: "0 < s"
  show ?thesis
    using deadline_reached [OF s, of u] by (simp add: Suc deadline_at_def div_Suc)
qed (simp add: deadline_at_def)

lemma deadline_bound: "deadline_at s t \<le> t + s"
proof -
  have "s * ((t - 1) div s) \<le> t" by (metis diff_le_self le_trans mult.commute div_times_less_eq_dividend)
  then show ?thesis by (simp add: deadline_at_def)
qed

lemma timer_loop_ticks:
  assumes "0 < unat step" and "unat lifetime + unat step < 2 ^ 64" and "t \<le> unat lifetime"
  shows "timer_loop lifetime step (of_nat t) (of_nat (deadline_at (unat step) t))
    = map (\<lambda>t. (of_nat t, of_nat (deadline_at (unat step) t))) [t..<unat lifetime]"
  using assms(3)
proof (induction "unat lifetime - t" arbitrary: t)
  case 0
  then have "t = unat lifetime" by linarith
  then show ?case by (simp add: timer_loop.simps [of lifetime])
next
  case (Suc d)
  let ?s = "unat step"
  have t: "t < unat lifetime" using Suc by linarith
  have small: "t < 2 ^ 64" "Suc t < 2 ^ 64" "deadline_at ?s t < 2 ^ 64"
    using t assms(2) deadline_bound [of ?s t] by linarith+
  have lt: "(of_nat t :: u64) < lifetime" using t small by (simp add: word_less_nat_alt unat_of_nat)
  have "(of_nat (deadline_at ?s t) :: u64) < of_nat t + 1 \<longleftrightarrow> deadline_at ?s t < Suc t"
    using small unat_Suc_below [OF lt] by (simp add: word_less_nat_alt unat_of_nat)
  then have "(if (of_nat (deadline_at ?s t) :: u64) < of_nat t + 1 then of_nat (deadline_at ?s t) + step
      else of_nat (deadline_at ?s t)) = of_nat (deadline_at ?s (Suc t))"
    unfolding deadline_step [OF assms(1), symmetric] by simp
  then have "timer_loop lifetime step (of_nat t) (of_nat (deadline_at ?s t))
      = (of_nat t, of_nat (deadline_at ?s t))
        # timer_loop lifetime step (of_nat t + 1) (of_nat (deadline_at ?s (Suc t)))"
    using lt by (subst timer_loop.simps) (simp only: not_le if_not_P simp_thms)
  then show ?case
    using Suc.hyps(1) [of "Suc t"] Suc.hyps(2) t by (simp add: upt_conv_Cons add.commute)
qed

lemma default_timer_ticks:
  assumes "0 < unat step" and "unat lifetime + unat step < 2 ^ 64"
  shows "default_timer lifetime step
    = map (\<lambda>t. (of_nat t, of_nat (deadline_at (unat step) t))) [0..<unat lifetime]"
  using timer_loop_ticks [OF assms, of 0] by (simp add: default_timer_def deadline_at_def)

text \<open>The messages of a pacemaker that has gone through \<open>n\<close> view changes.\<close>

definition view_changes :: "ReplicaID \<Rightarrow> nat \<Rightarrow> InternalMsg list" where
  "view_changes l n = map (\<lambda>v. PViewChange l (of_nat v) Gone) [2..<2 + n]"

lemma view_changes_Suc: "view_changes l (Suc n) = view_changes l n @ [PViewChange l (of_nat (2 + n)) Gone]"
  by (simp add: view_changes_def)

lemma dp_on_tick_eq:
  fixes tick deadline :: nat
  assumes "dp_sm dp = Listening" and "dp_leader dp = Some l" and "unat (dp_tick dp) \<le> tick"
    and "tick < 2 ^ 64" and "deadline < 2 ^ 64"
  shows "dp_on_tick (of_nat tick, of_nat deadline) dp = Return
    (let dp1 = dp\<lparr>dp_tick := of_nat tick, dp_deadline := of_nat deadline\<rparr> in
     if deadline \<le> tick
     then dp1\<lparr>dp_view := dp_view dp + 1, dp_to_sm := dp_to_sm dp @ [PViewChange l (dp_view dp + 1) Gone]\<rparr>
     else dp1)"
proof -
  have "max (of_nat tick) (dp_tick dp) = of_nat tick"
    using assms(3,4) by (simp add: max_def word_le_nat_alt unat_of_nat)
  moreover have "(of_nat deadline :: u64) \<le> of_nat tick \<longleftrightarrow> deadline \<le> tick"
    using assms(4,5) by (simp add: word_le_nat_alt unat_of_nat)
  ultimately show ?thesis
    using assms(1,2) by (simp add: dp_on_tick_def view_change_def touch_deadline_def Let_def)
qed

lemma div_pred_Suc:
  "0 < s \<Longrightarrow> k div s = (k - 1) div s + (if 0 < k \<and> k mod s = 0 then 1 else 0)" for k s :: nat
  by (cases k) (auto simp: div_Suc)

lemma deadline_touch: "0 < s \<Longrightarrow> deadline_at s t \<le> t \<longleftrightarrow> 0 < t \<and> t mod s = 0"
proof (cases t)
  case (Suc u)
  assume "0 < s"
  then show ?thesis using deadline_reached [of s u] by (simp add: Suc less_Suc_eq_le)
qed (simp add: deadline_at_def)

text \<open>C40: the tick driven pacemaker changes views at the pace the timer is set to. Run on the first
  \<open>k\<close> ticks of a timer with step \<open>s\<close>, it does not panic, its view is 1 plus the number of
  completed steps, \<open>(k - 1) div s\<close>, and it has asked the machine for exactly the views 2, 3, ...
  up to its own, in order and each once.\<close>

theorem proto_view_pace:
  assumes "0 < unat step" and "unat lifetime + unat step < 2 ^ 64" and "k \<le> unat lifetime"
  shows "\<exists>dp. run_exec dp_on_tick (take k (default_timer lifetime step)) (DefaultPacemaker_new peers (Some l)) = Return dp
    \<and> unat (dp_view dp) = 1 + (k - 1) div unat step
    \<and> dp_to_sm dp = view_changes l ((k - 1) div unat step)"
proof -
  let ?s = "unat step" and ?dp0 = "DefaultPacemaker_new peers (Some l)"
  have "\<exists>dp. run_exec dp_on_tick (take k (default_timer lifetime step)) ?dp0 = Return dp
    \<and> dp_view dp = of_nat (1 + (k - 1) div ?s) \<and> dp_to_sm dp = view_changes l ((k - 1) div ?s)
    \<and> dp_sm dp = Listening \<and> dp_leader dp = Some l \<and> unat (dp_tick dp) \<le> k - 1"
    using assms(3)
  proof (induction k)
    case 0
    show ?case by (simp add: DefaultPacemaker_new_def view_changes_def)
  next
    case (Suc k)
    then obtain dp where dp: "run_exec dp_on_tick (take k (default_timer lifetime step)) ?dp0 = Return dp"
      "dp_view dp = of_nat (1 + (k - 1) div ?s)" "dp_to_sm dp = view_changes l ((k - 1) div ?s)"
      "dp_sm dp = Listening" "dp_leader dp = Some l" "unat (dp_tick dp) \<le> k - 1" by auto
    have small: "unat (dp_tick dp) \<le> k" "k < 2 ^ 64" "deadline_at ?s k < 2 ^ 64"
      using dp(6) Suc.prems assms(2) deadline_bound [of ?s k] by linarith+
    have "take (Suc k) (default_timer lifetime step)
        = take k (default_timer lifetime step) @ [(of_nat k, of_nat (deadline_at ?s k))]"
      using Suc.prems by (simp add: default_timer_ticks [OF assms(1,2)] take_Suc_conv_app_nth)
    then show ?case
      using dp small(2) dp_on_tick_eq [OF dp(4,5) small]
      by (auto simp: run_exec_append Let_def deadline_touch [OF assms(1)] div_pred_Suc [OF assms(1), of k]
          view_changes_Suc unat_of_nat)
  qed
  moreover have "1 + (k - 1) div ?s < 2 ^ 64" using assms div_le_dividend [of "k - 1" ?s] by linarith
  then have "unat (of_nat (1 + (k - 1) div ?s) :: u64) = 1 + (k - 1) div ?s"
    unfolding unat_of_nat by simp
  ultimately show ?thesis by auto
qed

subsection \<open>An example\<close>

text \<open>
  Five proposals of a leader, over the toy functions. The third names its own hash as its parent,
  and the last brings a second certificate under the hash of the first one: the machine commits
  the fourth.
\<close>

definition toy_pqc :: "u8 \<Rightarrow> u64 \<Rightarrow> PGenericQC" where
  "toy_pqc j h = \<lparr>pq_view = 1, pq_node = NodeHash (replicate 24 1 @ u64_to_be_bytes h),
     pq_combined_sign = Some (CombinedSign (replicate 96 j))\<rparr>"

definition toy_prop :: "u64 \<Rightarrow> u64 \<Rightarrow> u8 \<Rightarrow> PTreeNode" where
  "toy_prop h par j = \<lparr>pn_height = h, pn_cmds = [],
     pn_parent = NodeHash (replicate 24 1 @ u64_to_be_bytes par), pn_justify = QCHash (replicate 32 j)\<rparr>"

definition toy_propose :: "PTreeNode \<Rightarrow> PGenericQC \<Rightarrow> InternalMsg" where
  "toy_propose p qc = PRecvProposal \<lparr>px_from = ''node-0'', px_view = 1\<rparr> p qc Listening"

definition toy_proposals :: "InternalMsg list" where
  "toy_proposals =
     [toy_propose (toy_prop 1 0 0) (PGenericQC_genesis toy 0 PTreeNode_genesis),
      toy_propose (toy_prop 2 4 1) (toy_pqc 1 1),
      toy_propose (toy_prop 3 3 2) (toy_pqc 2 2),
      toy_propose (toy_prop 4 3 3) (toy_pqc 3 3),
      toy_propose (toy_prop 5 4 3) (toy_pqc 1 4)]"

definition toy_pmachine :: PMachine where
  "toy_pmachine = PMachine_new toy ''node-1'' 1 (PK [7]) (SK [7, 1]) []"

declare proto_walk.simps [code] proto_commit_walk.simps [code]

lemma toy_proposals_run:
  "\<exists>m rs. proto_run toy (\<lambda>_. []) toy_proposals toy_pmachine = Return (m, rs)
     \<and> mc_commit_height m = 4 \<and> map pn_height (voted rs) = [1, 2, 3, 4, 5]"
proof -
  have "case proto_run toy (\<lambda>_. []) toy_proposals toy_pmachine of
      Return (m, rs) \<Rightarrow> mc_commit_height m = 4 \<and> map pn_height (voted rs) = [1, 2, 3, 4, 5] | _ \<Rightarrow> False"
    by code_simp
  then show ?thesis by (auto split: exec.splits)
qed

lemma toy_pmachine_heights: "mc_commit_height toy_pmachine = 0" "mc_vheight toy_pmachine = 0"
  by (simp_all add: toy_pmachine_def PMachine_new_def Let_def)

theorem proto_votes_increase_witness:
  "\<exists>m rs. proto_run toy (\<lambda>_. []) toy_proposals toy_pmachine = Return (m, rs)
     \<and> map pn_height (voted rs) = [1, 2, 3, 4, 5]
     \<and> sorted_wrt (<) (mc_vheight toy_pmachine # map pn_height (voted rs))"
proof -
  obtain m rs where "proto_run toy (\<lambda>_. []) toy_proposals toy_pmachine = Return (m, rs)"
      "map pn_height (voted rs) = [1, 2, 3, 4, 5]"
    using toy_proposals_run by (elim exE conjE)
  with conjunct1 [OF proto_votes_increase [OF this(1)]] show ?thesis by (intro exI conjI)
qed

lemma proto_commit_needs_own_parent_example:
  "\<exists>k m rs. proto_run toy (\<lambda>_. []) (take k toy_proposals) toy_pmachine = Return (m, rs)
     \<and> (\<exists>n \<in> snd ` set (mc_node_pool m). pn_parent n = PTreeNode_hash toy n)"
proof -
  obtain m rs where "proto_run toy (\<lambda>_. []) toy_proposals toy_pmachine = Return (m, rs)" "mc_commit_height m = 4"
    using toy_proposals_run by blast
  then show ?thesis
    by (intro proto_commit_needs_own_parent [of toy "\<lambda>_. []" toy_proposals toy_pmachine m rs])
      (simp_all add: toy_pmachine_heights)
qed

text \<open>
  A second sequence: the second proposal names its own hash as its parent, and the third has the
  second as its parent. The walk from the third to the locked initial proposal does not end.
\<close>

definition toy_circle :: "InternalMsg list" where
  "toy_circle =
     [toy_propose (toy_prop 1 0 0) (PGenericQC_genesis toy 0 PTreeNode_genesis), toy_propose (toy_prop 2 2 1) (toy_pqc 1 1)]"

lemma proto_walk_circle: "bh < pn_height n \<Longrightarrow> hm_get (pn_parent n) pool = Some n \<Longrightarrow> proto_walk pool bh n = None"
proof (rule ccontr)
  assume "bh < pn_height n" "hm_get (pn_parent n) pool = Some n" "proto_walk pool bh n \<noteq> None"
  moreover have "\<not> (bh < pn_height n \<and> hm_get (pn_parent n) pool = Some n)" if "proto_walk pool bh n = Some r" for r
    using that by (induction rule: proto_walk.raw_induct [rotated, consumes 1]) (auto split: if_splits option.splits)
  ultimately show False by blast
qed

lemma proto_run_snoc:
  assumes "proto_run C b64 msgs m = Return (m1, rs)" and "PDown \<notin> set msgs" and "process_internal_msg C b64 msg m1 = Diverge"
    and "msg \<noteq> PDown"
  shows "proto_run C b64 (msgs @ [msg]) m = Diverge"
  using assms
  by (induction msgs arbitrary: m rs) (auto simp: exec_bind_eq_Return exec_bind_eq_Diverge simp del: process_internal_msg.simps)

lemma toy_circle_run:
  "case proto_run toy (\<lambda>_. []) toy_circle toy_pmachine of
     Return (m, rs) \<Rightarrow> hm_get (pn_parent (toy_prop 2 2 1)) (mc_node_pool m) = Some (toy_prop 2 2 1)
       \<and> mc_vheight m = 2 \<and> pn_height (mc_b_locked m) = 0 \<and> mc_leader_id m = Some ''node-0''
   | _ \<Rightarrow> False"
  by code_simp

lemma toy_circle_hangs: "proto_run toy (\<lambda>_. []) (toy_circle @ [toy_propose (toy_prop 3 2 2) (toy_pqc 2 2)]) toy_pmachine = Diverge"
proof -
  obtain m rs where run: "proto_run toy (\<lambda>_. []) toy_circle toy_pmachine = Return (m, rs)"
      and m: "hm_get (pn_parent (toy_prop 2 2 1)) (mc_node_pool m) = Some (toy_prop 2 2 1)" "mc_vheight m = 2"
        "pn_height (mc_b_locked m) = 0" "mc_leader_id m = Some ''node-0''"
    using toy_circle_run by (auto split: exec.splits)
  have walk: "proto_walk (mc_node_pool m) 0 (toy_prop 3 2 2) = None"
    using proto_walk_circle [OF _ m(1), of 0] m(1)
    by (subst proto_walk.simps) (simp add: toy_prop_def)
  have "process_internal_msg toy (\<lambda>_. []) (toy_propose (toy_prop 3 2 2) (toy_pqc 2 2)) m = Diverge"
    using m walk
    by (simp add: toy_propose_def proto_on_recv_proposal_def proto_append_new_qc_def proto_try_vote_def
        proto_find_node_by_qc_def map_simps PGenericQC_hash_def toy_pqc_def proto_safe_node_def proto_is_conflicting_def
        Let_def) (simp add: toy_prop_def proto_safe_node_def proto_is_conflicting_def Let_def)
  from proto_run_snoc [OF run _ this] show ?thesis by (simp add: toy_circle_def toy_propose_def)
qed

theorem proto_hangs_only_on_cycle_witness:
  "\<exists>k m rs ctx p just ch. proto_run toy (\<lambda>_. []) (take k (toy_circle @ [toy_propose (toy_prop 3 2 2) (toy_pqc 2 2)])) toy_pmachine
        = Return (m, rs)
    \<and> (toy_circle @ [toy_propose (toy_prop 3 2 2) (toy_pqc 2 2)]) ! k = PRecvProposal ctx p just ch
    \<and> (\<not> acyclic (pool_parents (mc_node_pool m)) \<or> \<not> acyclic (pool_parents (mc_node_pool (proto_append_new_node toy p m))))"
  using proto_hangs_only_on_cycle [OF toy_circle_hangs] by blast

text \<open>The first of the five proposals, from the leader's proxy to the vote at the leader.\<close>

lemma toy_first_vote:
  "\<exists>m rs. process_internal_msg toy (\<lambda>_. []) (hd toy_proposals) toy_pmachine = Return (m, rs) \<and> rs \<noteq> []"
proof -
  have "case process_internal_msg toy (\<lambda>_. []) (hd toy_proposals) toy_pmachine of
      Return (m, rs) \<Rightarrow> \<not> List.null rs | _ \<Rightarrow> False"
    by code_simp
  then show ?thesis by (auto simp: List.null_iff split: exec.splits)
qed

lemma proto_vote_delivery_example:
  "\<exists>rq m rs code resp. recv_new_proposal rq True (vote_answer rs)
       = Return ([hd toy_proposals], code, resp)
     \<and> process_internal_msg toy (\<lambda>_. []) (hd toy_proposals) toy_pmachine = Return (m, rs)
     \<and> broadcastor_on_response resp True = Return [PRecvSign \<lparr>px_from = ''node-1'', px_view = 1\<rparr>
         (toy_prop 1 0 0) \<lparr>pk_sign = Sign ([7, 1] @ PTreeNode_to_be_bytes (toy_prop 1 0 0)), pk_sign_id = 1\<rparr>]"
proof -
  let ?ctx = "\<lparr>px_from = ''node-0'', px_view = 1\<rparr>" and ?qc = "PGenericQC_genesis toy 0 PTreeNode_genesis"
  have hd: "hd toy_proposals = PRecvProposal ?ctx (toy_prop 1 0 0) ?qc Listening"
    by (simp add: toy_proposals_def toy_propose_def)
  obtain m rs where m: "process_internal_msg toy (\<lambda>_. []) (hd toy_proposals) toy_pmachine = Return (m, rs)" "rs \<noteq> []"
    using toy_first_vote by blast
  have "\<exists>rq. proxy_on_msg (PPropose ?ctx (toy_prop 1 0 0) ?qc) True = Return (Some rq, False)"
    by (simp add: proxy_on_msg_def)
  then obtain rq where rq: "proxy_on_msg (PPropose ?ctx (toy_prop 1 0 0) ?qc) True = Return (Some rq, False)" ..
  from proto_vote_delivery [OF rq m(1) [unfolded hd]] m show ?thesis
    by (auto simp: hd toy_pmachine_def PMachine_new_def Let_def)
qed

theorem proto_view_pace_witness:
  "\<exists>dp. run_exec dp_on_tick (take 25 (default_timer 100 10)) (DefaultPacemaker_new [] (Some ''node-0'')) = Return dp
    \<and> unat (dp_view dp) = 3
    \<and> dp_to_sm dp = [PViewChange ''node-0'' 2 Gone, PViewChange ''node-0'' 3 Gone]"
  using proto_view_pace [of 10 100 25 "[]" "''node-0''"]
  by (simp add: view_changes_def upt_rec numeral_3_eq_3)

end
