(* ===== verification/ProtoCluster.thy ===== *)
theory ProtoCluster
  imports ProtoProps
begin

section \<open>hs-prototype, main.rs: the cluster that \<open>main\<close> starts\<close>

text \<open>
  \<open>main\<close> starts four replicas in one process, each a machine, a pacemaker fed by a timer, and a
  proxy with an HTTP server and one broadcast task per peer. The tasks run concurrently and share
  nothing but channels; here they are the rules of the step relation \<open>proto_step\<close>, in any order and
  together with clients that send any request to any replica. Channels are the lists of what is in
  them; bounded channels only delay a sender. Requests and responses may get lost, which also
  covers the broadcast channel of capacity 1, whose slow receivers miss requests.

  Two properties hold along every run, whatever the clients send: every vote that is counted
  was signed by the replica under whose name it is filed, and nothing is committed short of a
  proposal that is its own parent.
\<close>

subsection \<open>Set-up\<close>

record HotStuffProxy =
  hp_peer_conf :: "(ReplicaID, string) hash_map"
  hp_self_id :: ReplicaID
  hp_self_addr :: string

text \<open>
  A replica: the channel to the machine holds messages, each with the replica whose broadcast task
  waits for the answer, if one does. The channel from the machine is \<open>mc_step_out\<close>. The
  proposals signed so far are recorded.
\<close>

record ProtoReplica =
  rp_proxy :: HotStuffProxy
  rp_machine :: PMachine
  rp_pacemaker :: DefaultPacemaker
  rp_timer :: "(u64 \<times> u64) list"
  rp_recvr :: "(InternalMsg \<times> (nat \<times> RpcRequest) option) list"
  rp_fan_out :: "(string \<times> RpcRequest) list"
  rp_responses :: "RpcResponse list"
  rp_stopped :: bool
  rp_signed :: "PTreeNode list"

definition HotStuffProxy_new :: "ReplicaID \<Rightarrow> string \<Rightarrow> (ReplicaID, string) hash_map \<Rightarrow> HotStuffProxy" where
  "HotStuffProxy_new self_id self_addr peer_conf =
     \<lparr>hp_peer_conf = peer_conf, hp_self_id = self_id, hp_self_addr = self_addr\<rparr>"

definition main_replica ::
    "crypto \<Rightarrow> PK \<Rightarrow> (ReplicaID, string) hash_map \<Rightarrow> (ReplicaID \<times> string) \<times> (usize \<times> SK) \<Rightarrow> ProtoReplica" where
  "main_replica C pks backup kit =
     (let ((k, v), (sign_id, sks)) = kit
      in \<lparr>rp_proxy = HotStuffProxy_new k v backup,
          rp_machine = PMachine_new C k (of_nat sign_id) pks sks backup,
          rp_pacemaker = DefaultPacemaker_new backup (Some ''node-0''),
          rp_timer = default_timer 1000 5, rp_recvr = [], rp_fan_out = [], rp_responses = [],
          rp_stopped = False, rp_signed = []\<rparr>)"

text \<open>\<open>order\<close> is the order in which the \<open>HashMap\<close> of the configuration is iterated.\<close>

definition proto_main :: "crypto \<Rightarrow> SecretKeySet \<Rightarrow> nat list \<Rightarrow> ProtoReplica list exec" where
  "proto_main C s order =
     (let f = 1; n = 3 * f + 1;
          peer_config = map (\<lambda>i. (''node-'' @ usize_to_string i, ''localhost:'' @ usize_to_string (8000 + i))) order
      in exec_bind (threshold_sign_kit C s n (2 * f)) (\<lambda>(_, pks, sk).
           Return (map (main_replica C pks peer_config) (zip peer_config sk))))"

subsection \<open>The routes of the server\<close>

datatype http_request =
    GetStatus
  | PostNewProposal RpcRequest
  | PostNewView RpcRequest
  | PostNewLeader RpcRequest
  | PostNewTx NewTransaction

text \<open>\<open>run_server\<close>: what a request makes its handler send to the machine.\<close>

fun run_server_route :: "ReplicaID \<Rightarrow> http_request \<Rightarrow> bool \<Rightarrow> InternalMsg list exec" where
  "run_server_route self_id GetStatus sent_ok =
     Return (fst (status_handler \<lparr>px_from = self_id, px_view = 0\<rparr> sent_ok None))"
| "run_server_route self_id (PostNewProposal data) sent_ok =
     exec_bind (recv_new_proposal data sent_ok None) (\<lambda>(msgs, _). Return msgs)"
| "run_server_route self_id (PostNewView data) sent_ok = Return (fst (on_recv_new_view data sent_ok))"
| "run_server_route self_id (PostNewLeader data) sent_ok =
     exec_bind (new_leader_handler data sent_ok) (\<lambda>(msgs, _). Return msgs)"
| "run_server_route self_id (PostNewTx data) sent_ok = Return (fst (new_tx_handler data sent_ok))"

subsection \<open>Steps\<close>

definition at_node :: "nat \<Rightarrow> (ProtoReplica \<Rightarrow> ProtoReplica) \<Rightarrow> ProtoReplica list \<Rightarrow> ProtoReplica list" where
  "at_node i f rs = rs[i := f (rs ! i)]"

definition deliver :: "InternalMsg list \<Rightarrow> (nat \<times> RpcRequest) option \<Rightarrow> ProtoReplica \<Rightarrow> ProtoReplica" where
  "deliver msgs waiter r = r\<lparr>rp_recvr := rp_recvr r @ map (\<lambda>msg. (msg, waiter)) msgs\<rparr>"

definition take_response :: "RpcResponse \<Rightarrow> ProtoReplica \<Rightarrow> ProtoReplica" where
  "take_response resp r = r\<lparr>rp_responses := rp_responses r @ [resp]\<rparr>"

text \<open>A machine's pass over one message.\<close>

definition machine_pass ::
    "PMachine \<Rightarrow> (InternalMsg \<times> (nat \<times> RpcRequest) option) list \<Rightarrow> reply list \<Rightarrow> ProtoReplica \<Rightarrow> ProtoReplica" where
  "machine_pass m q replies r = r\<lparr>rp_machine := m, rp_recvr := q, rp_signed := rp_signed r @ voted replies\<rparr>"

text \<open>The proxy loop on one message of the machine: its request goes to the broadcast task of every peer.\<close>

definition proxy_pass :: "InternalMsg list \<Rightarrow> RpcRequest option \<Rightarrow> bool \<Rightarrow> ProtoReplica \<Rightarrow> ProtoReplica" where
  "proxy_pass out rq quit r =
     r\<lparr>rp_machine := (rp_machine r)\<lparr>mc_step_out := out\<rparr>, rp_stopped := quit,
       rp_fan_out := rp_fan_out r
         @ (case rq of None \<Rightarrow> [] | Some q \<Rightarrow> map (\<lambda>(_, addr). (addr, q)) (hp_peer_conf (rp_proxy r)))\<rparr>"

inductive proto_step :: "crypto \<Rightarrow> (u8 list \<Rightarrow> string) \<Rightarrow> ProtoReplica list \<Rightarrow> ProtoReplica list \<Rightarrow> bool"
  for C b64 where
  tick: "i < length rs \<Longrightarrow> rp_timer (rs ! i) = td # tds \<Longrightarrow> dp_on_tick td (rp_pacemaker (rs ! i)) = Return dp
    \<Longrightarrow> proto_step C b64 rs (at_node i (\<lambda>r. deliver (dp_to_sm dp) None
          (r\<lparr>rp_timer := tds, rp_pacemaker := dp\<lparr>dp_to_sm := []\<rparr>\<rparr>)) rs)"
| machine: "i < length rs \<Longrightarrow> rp_recvr (rs ! i) = (msg, waiter) # q \<Longrightarrow> msg \<noteq> PDown
    \<Longrightarrow> process_internal_msg C b64 msg (rp_machine (rs ! i)) = Return (m, replies)
    \<Longrightarrow> rs1 = at_node i (machine_pass m q replies) rs
    \<Longrightarrow> rs2 = (case waiter of None \<Rightarrow> rs1 | Some (j, rq) \<Rightarrow>
          (case recv_new_proposal rq True (vote_answer replies) of
             Return (_, _, resp) \<Rightarrow> at_node j (take_response resp) rs1 | _ \<Rightarrow> rs1))
    \<Longrightarrow> proto_step C b64 rs rs2"
| proxy: "i < length rs \<Longrightarrow> \<not> rp_stopped (rs ! i) \<Longrightarrow> mc_step_out (rp_machine (rs ! i)) = msg # out
    \<Longrightarrow> proxy_on_msg msg (hp_peer_conf (rp_proxy (rs ! i)) \<noteq> []) = Return (rq, quit)
    \<Longrightarrow> proto_step C b64 rs (at_node i (proxy_pass out rq quit) rs)"
| post: "i < length rs \<Longrightarrow> (addr, rq) \<in> set (rp_fan_out (rs ! i))
    \<Longrightarrow> k < length rs \<Longrightarrow> hp_self_addr (rp_proxy (rs ! k)) = addr \<Longrightarrow> \<not> rp_stopped (rs ! k)
    \<Longrightarrow> run_server_route (hp_self_id (rp_proxy (rs ! k))) (PostNewProposal rq) True = Return msgs
    \<Longrightarrow> proto_step C b64 rs (at_node k (deliver msgs (Some (i, rq)))
          (at_node i (\<lambda>r. r\<lparr>rp_fan_out := remove1 (addr, rq) (rp_fan_out r)\<rparr>) rs))"
| response: "i < length rs \<Longrightarrow> resp \<in> set (rp_responses (rs ! i))
    \<Longrightarrow> broadcastor_on_response resp True = Return msgs
    \<Longrightarrow> proto_step C b64 rs (at_node i (\<lambda>r. deliver msgs None (r\<lparr>rp_responses := remove1 resp (rp_responses r)\<rparr>)) rs)"
| lost: "i < length rs
    \<Longrightarrow> proto_step C b64 rs (at_node i (\<lambda>r. r\<lparr>rp_fan_out := remove1 x (rp_fan_out r),
          rp_responses := remove1 resp (rp_responses r)\<rparr>) rs)"
| client: "i < length rs \<Longrightarrow> \<not> rp_stopped (rs ! i)
    \<Longrightarrow> run_server_route (hp_self_id (rp_proxy (rs ! i))) request True = Return msgs
    \<Longrightarrow> proto_step C b64 rs (at_node i (deliver msgs None) rs)"
| hang_up: "i < length rs \<Longrightarrow> rp_recvr (rs ! i) = q @ (PRecvProposal ctx p just Listening, None) # q'
    \<Longrightarrow> proto_step C b64 rs (at_node i (\<lambda>r. r\<lparr>rp_recvr := q @ (PRecvProposal ctx p just Gone, None) # q'\<rparr>) rs)"

subsection \<open>What a message leaves of a machine\<close>

definition own_kit :: "crypto \<Rightarrow> PMachine \<Rightarrow> PTreeNode \<Rightarrow> PSignKit" where
  "own_kit C m p = \<lparr>pk_sign = sk_sign C (mc_sks m) (PTreeNode_to_be_bytes p), pk_sign_id = mc_sign_id m\<rparr>"

text \<open>Names, keys and index are those the machine was made with; so is the leader, unless a view change brings another.\<close>

definition same_identity :: "PMachine \<Rightarrow> PMachine \<Rightarrow> bool" where
  "same_identity m m1 \<longleftrightarrow> mc_self_id m1 = mc_self_id m \<and> mc_sks m1 = mc_sks m \<and> mc_sign_id m1 = mc_sign_id m"

definition settled :: "PMachine \<Rightarrow> PMachine \<Rightarrow> bool" where
  "settled m m1 \<longleftrightarrow> same_identity m m1 \<and> mc_leader_id m1 = mc_leader_id m \<and> mc_voting_set m1 = mc_voting_set m"

lemma settled_refl [simp]: "settled m m"
  by (simp add: settled_def same_identity_def)

lemma settled_trans: "settled m m1 \<Longrightarrow> settled m1 m2 \<Longrightarrow> settled m m2"
  by (simp add: settled_def same_identity_def)

lemma settled_updates [simp]:
  "settled m (m1\<lparr>mc_commit_height := x\<rparr>) = settled m m1" "settled m (m1\<lparr>mc_b_locked := n\<rparr>) = settled m m1"
  "settled m (m1\<lparr>mc_qc_high := q\<rparr>) = settled m m1" "settled m (m1\<lparr>mc_leaf_high := x\<rparr>) = settled m m1"
  "settled m (m1\<lparr>mc_qc_map := k\<rparr>) = settled m m1" "settled m (m1\<lparr>mc_node_pool := pool\<rparr>) = settled m m1"
  "settled m (m1\<lparr>mc_vheight := x\<rparr>) = settled m m1" "settled m (m1\<lparr>mc_step_out := out\<rparr>) = settled m m1"
  "settled m (m1\<lparr>mc_leaf := n\<rparr>) = settled m m1"
  by (simp_all add: settled_def same_identity_def)

lemma settled_qc_high [simp]: "settled m (proto_update_qc_high C n qc m1) = settled m m1"
  by (simp add: proto_update_qc_high_eq split: option.split)

lemma settled_commit_walk: "proto_commit_walk n m = Some m1 \<Longrightarrow> settled m m1"
proof (induction rule: proto_commit_walk.raw_induct [rotated, consumes 1])
  case (1 walk n m m1)
  have "settled m x" if "(case hm_get (pn_parent n) (mc_node_pool m) of Some par \<Rightarrow> walk par m | None \<Rightarrow> Some m) = Some x" for x
    using that 1(1) by (auto split: option.splits)
  with 1(2) show ?case by (auto simp: Let_def bind_eq_Some_conv split: if_splits)
qed

lemma settled_update_nodes:
  assumes "proto_update_nodes C n m = Return m1"
  shows "settled m m1"
proof -
  have "settled m y" if "proto_on_commit b x = Return y" "settled m x" for b x y
    using that settled_commit_walk settled_trans by (fastforce simp: proto_on_commit_def split: option.splits)
  with assms show ?thesis
    by (fastforce simp: proto_update_nodes_def exec_bind_eq_Return proto_update_locked_node_def Let_def
        split: list.splits if_splits)
qed

lemma settled_recv_proposal:
  assumes "proto_on_recv_proposal C ctx p just sender m = Return (m1, rs)"
  shows "settled m m1"
proof -
  have "settled m x" if "proto_try_vote C p sender (proto_append_new_qc just m) = Return (x, rs)" for x
    using that by (auto simp: proto_try_vote_def exec_bind_eq_Return proto_append_new_node_def
        proto_append_new_qc_def Let_def split: option.splits if_splits)
  with assms show ?thesis
    by (auto simp: proto_on_recv_proposal_def exec_bind_eq_Return Let_def split: if_splits
        intro: settled_trans dest: settled_update_nodes)
qed

lemma recv_vote_counts:
  assumes "proto_on_recv_vote C ctx p kit m = Return m1"
  shows "same_identity m m1 \<and> mc_leader_id m1 = mc_leader_id m
    \<and> set (mc_voting_set m1) \<subseteq> insert (px_from ctx, kit) (set (mc_voting_set m))"
proof -
  let ?m = "m\<lparr>mc_voting_set := hm_insert (px_from ctx) kit (mc_voting_set m)\<rparr>"
  have "m1 = m \<or> settled ?m m1"
    using assms by (auto simp: proto_on_recv_vote_def proto_add_vote_def proto_append_new_qc_def exec_bind_eq_Return
        Let_def settled_def same_identity_def proto_update_qc_high_eq split: if_splits bool.splits option.splits)
  then show ?thesis using hm_insert_pairs [of "px_from ctx" kit "mc_voting_set m"]
    by (auto simp: settled_def same_identity_def)
qed

text \<open>What one message does to identity, leader and counted votes.\<close>

definition counted :: "InternalMsg \<Rightarrow> (ReplicaID \<times> PSignKit) set" where
  "counted msg = (case msg of PRecvSign ctx _ kit \<Rightarrow> {(px_from ctx, kit)} | _ \<Rightarrow> {})"

lemma process_internal_msg_frame:
  assumes "process_internal_msg C b64 msg m = Return (m1, rs)"
  shows "same_identity m m1" "set (mc_voting_set m1) \<subseteq> set (mc_voting_set m) \<union> counted msg"
    and "mc_leader_id m = Some l \<Longrightarrow> (\<forall>l' v c. msg = PViewChange l' v c \<longrightarrow> l' = l) \<Longrightarrow> mc_leader_id m1 = Some l"
proof -
  have "same_identity m m1 \<and> set (mc_voting_set m1) \<subseteq> set (mc_voting_set m) \<union> counted msg
    \<and> (mc_leader_id m = Some l \<and> (\<forall>l' v c. msg = PViewChange l' v c \<longrightarrow> l' = l) \<longrightarrow> mc_leader_id m1 = Some l)"
  proof (cases msg)
    case (PRecvProposal ctx p just sender)
    with assms show ?thesis by (auto dest!: settled_recv_proposal simp: settled_def)
  next
    case (PRecvSign ctx p kit)
    with assms show ?thesis by (auto simp: exec_bind_eq_Return counted_def dest!: recv_vote_counts)
  next
    case (PNewTx cmd)
    with assms have "settled m m1"
      by (auto simp: exec_bind_eq_Return proto_on_beat_def proto_propose_def proto_update_leaf_def Let_def
          PTreeNode_node_and_hash_def split: if_splits)
    then show ?thesis by (simp add: settled_def)
  next
    case (PRecvNewViewMsg c n q)
    with assms have "settled m m1" by (auto split: option.splits)
    then show ?thesis by (simp add: settled_def)
  qed (use assms in \<open>auto simp: same_identity_def proto_reset_def Let_def split: if_splits\<close>)
  then show "same_identity m m1" "set (mc_voting_set m1) \<subseteq> set (mc_voting_set m) \<union> counted msg"
    and "mc_leader_id m = Some l \<Longrightarrow> (\<forall>l' v c. msg = PViewChange l' v c \<longrightarrow> l' = l) \<Longrightarrow> mc_leader_id m1 = Some l"
    by blast+
qed

lemma process_internal_msg_kit:
  assumes "process_internal_msg C b64 msg m = Return (m1, rs)" and "VoteReply c p k \<in> set rs"
  shows "px_from c = mc_self_id m \<and> k = own_kit C m p \<and> p \<in> set (voted rs)"
  using assms
  by (cases msg) (auto simp: proto_on_recv_proposal_def proto_try_vote_def exec_bind_eq_Return proto_append_new_qc_def
      proto_sign_def own_kit_def Let_def split: option.splits if_splits)

text \<open>A client that hangs up before the answer to a proposal the machine votes for panics the machine.\<close>

lemma hang_up_panics:
  assumes "process_internal_msg C b64 (PRecvProposal ctx p just Listening) m = Return (m1, rs)" and "rs \<noteq> []"
  shows "process_internal_msg C b64 (PRecvProposal ctx p just Gone) m = Panic UnwrapNone"
  using assms
  by (auto simp: proto_on_recv_proposal_def proto_try_vote_def exec_bind_eq_Return Let_def split: option.splits if_splits)

subsection \<open>Genuine votes\<close>

text \<open>A vote is genuine if some replica of the cluster signed the proposal, under its own name and key.\<close>

definition genuine :: "crypto \<Rightarrow> ProtoReplica list \<Rightarrow> ReplicaID \<Rightarrow> PTreeNode \<Rightarrow> PSignKit \<Rightarrow> bool" where
  "genuine C rs from p kit \<longleftrightarrow> (\<exists>r \<in> set rs. from = mc_self_id (rp_machine r) \<and> kit = own_kit C (rp_machine r) p
     \<and> p \<in> set (rp_signed r))"

definition msg_ok :: "crypto \<Rightarrow> ProtoReplica list \<Rightarrow> InternalMsg \<Rightarrow> bool" where
  "msg_ok C rs msg = (case msg of PRecvSign ctx p kit \<Rightarrow> genuine C rs (px_from ctx) p kit
     | PViewChange l _ _ \<Rightarrow> l = ''node-0'' | _ \<Rightarrow> True)"

definition resp_ok :: "crypto \<Rightarrow> ProtoReplica list \<Rightarrow> RpcResponse \<Rightarrow> bool" where
  "resp_ok C rs resp \<longleftrightarrow> (\<forall>msg. from_rpc_response resp = Return (Some msg) \<longrightarrow> msg_ok C rs msg)"

text \<open>What holds of each replica: of itself, and of the votes that have reached it.\<close>

definition steady :: "ProtoReplica \<Rightarrow> bool" where
  "steady r \<longleftrightarrow> mc_leader_id (rp_machine r) = Some ''node-0'' \<and> dp_leader (rp_pacemaker r) = Some ''node-0''
     \<and> dp_to_sm (rp_pacemaker r) = []
     \<and> sorted_wrt (<) (map pn_height (rp_signed r)) \<and> (\<forall>p \<in> set (rp_signed r). pn_height p \<le> mc_vheight (rp_machine r))"

definition heard :: "crypto \<Rightarrow> ProtoReplica list \<Rightarrow> ProtoReplica \<Rightarrow> bool" where
  "heard C rs r \<longleftrightarrow> (\<forall>(msg, _) \<in> set (rp_recvr r). msg_ok C rs msg) \<and> (\<forall>resp \<in> set (rp_responses r). resp_ok C rs resp)
     \<and> (\<forall>(from, kit) \<in> set (mc_voting_set (rp_machine r)). \<exists>p. genuine C rs from p kit)"

definition cluster_ok :: "crypto \<Rightarrow> ProtoReplica list \<Rightarrow> bool" where
  "cluster_ok C rs \<longleftrightarrow> (\<forall>r \<in> set rs. steady r \<and> heard C rs r)"

text \<open>One replica changes and keeps its identity and what it has signed.\<close>

definition grows :: "ProtoReplica \<Rightarrow> ProtoReplica \<Rightarrow> bool" where
  "grows r r1 \<longleftrightarrow> same_identity (rp_machine r) (rp_machine r1) \<and> set (rp_signed r) \<subseteq> set (rp_signed r1)"

lemma length_at_node [simp]: "length (at_node i f rs) = length rs"
  by (simp add: at_node_def)

lemma nth_at_node [simp]: "j < length rs \<Longrightarrow> at_node i f rs ! j = (if i = j then f (rs ! j) else rs ! j)"
  by (simp add: at_node_def nth_list_update)

lemma set_at_node: "set (at_node i f rs) \<subseteq> insert (f (rs ! i)) (set rs)"
  by (simp add: at_node_def set_update_subset_insert)

lemma genuine_at_node:
  assumes "genuine C rs from p kit" and "grows (rs ! i) (f (rs ! i))"
  shows "genuine C (at_node i f rs) from p kit"
proof -
  obtain j where j: "j < length rs" "from = mc_self_id (rp_machine (rs ! j))" "kit = own_kit C (rp_machine (rs ! j)) p"
      "p \<in> set (rp_signed (rs ! j))"
    using assms(1) unfolding genuine_def by (metis in_set_conv_nth)
  then have "at_node i f rs ! j \<in> set (at_node i f rs)" by (intro nth_mem) simp
  then show ?thesis
    unfolding genuine_def
    by (rule bexI [rotated]) (use j assms(2) in \<open>auto simp: grows_def same_identity_def own_kit_def\<close>)
qed

lemma msg_ok_at_node: "msg_ok C rs msg \<Longrightarrow> grows (rs ! i) (f (rs ! i)) \<Longrightarrow> msg_ok C (at_node i f rs) msg"
  by (auto simp: msg_ok_def genuine_at_node split: InternalMsg.splits)

lemma heard_at_node: "heard C rs r \<Longrightarrow> grows (rs ! i) (f (rs ! i)) \<Longrightarrow> heard C (at_node i f rs) r"
  unfolding heard_def resp_ok_def by (blast intro: msg_ok_at_node genuine_at_node)

lemma cluster_ok_at_node:
  assumes "cluster_ok C rs" and "grows (rs ! i) (f (rs ! i))" and "steady (f (rs ! i))" and "heard C (at_node i f rs) (f (rs ! i))"
  shows "cluster_ok C (at_node i f rs)"
  using assms set_at_node [of i f rs] heard_at_node unfolding cluster_ok_def by blast

lemma same_step_out [simp]: "\<exists>out. m = m\<lparr>mc_step_out := out\<rparr>"
  by (rule exI [of _ "mc_step_out m"]) simp

text \<open>A change that leaves the machine alone and only brings messages and responses that are in order.\<close>

lemma cluster_ok_frame:
  assumes ok: "cluster_ok C rs" and i: "i < length rs"
    and machine: "\<exists>out. rp_machine (f (rs ! i)) = (rp_machine (rs ! i))\<lparr>mc_step_out := out\<rparr>"
    and kept: "rp_signed (f (rs ! i)) = rp_signed (rs ! i)"
      "dp_leader (rp_pacemaker (f (rs ! i))) = Some ''node-0''" "dp_to_sm (rp_pacemaker (f (rs ! i))) = []"
    and msgs: "\<And>msg. msg \<in> fst ` set (rp_recvr (f (rs ! i))) \<Longrightarrow> msg \<in> fst ` set (rp_recvr (rs ! i)) \<or> msg_ok C rs msg"
    and resps: "\<And>resp. resp \<in> set (rp_responses (f (rs ! i))) \<Longrightarrow> resp \<in> set (rp_responses (rs ! i)) \<or> resp_ok C rs resp"
  shows "cluster_ok C (at_node i f rs)"
proof -
  obtain out where m: "rp_machine (f (rs ! i)) = (rp_machine (rs ! i))\<lparr>mc_step_out := out\<rparr>" using machine by blast
  have g: "grows (rs ! i) (f (rs ! i))" by (simp add: grows_def kept m same_identity_def)
  have r: "steady (rs ! i)" "heard C rs (rs ! i)" using ok i by (simp_all add: cluster_ok_def)
  have "heard C rs (f (rs ! i))" unfolding heard_def
  proof (intro conjI ballI)
    fix x assume "x \<in> set (rp_recvr (f (rs ! i)))"
    then show "case x of (msg, _) \<Rightarrow> msg_ok C rs msg"
      using msgs [of "fst x"] r(2) by (auto simp: heard_def split_beta)
  next
    fix resp assume "resp \<in> set (rp_responses (f (rs ! i)))"
    then show "resp_ok C rs resp" using resps r(2) by (auto simp: heard_def)
  next
    fix x assume "x \<in> set (mc_voting_set (rp_machine (f (rs ! i))))"
    then show "case x of (from, kit) \<Rightarrow> \<exists>p. genuine C rs from p kit" using r(2) by (auto simp: heard_def m)
  qed
  moreover have "steady (f (rs ! i))" using r(1) by (simp add: steady_def kept m)
  ultimately show ?thesis using cluster_ok_at_node [of C rs i f] ok g heard_at_node [of C rs _ i f] by blast
qed

text \<open>No handler of the server makes a vote or a view change.\<close>

lemma route_msgs_ok:
  assumes "run_server_route self_id request sent = Return msgs"
  shows "\<forall>msg \<in> set msgs. msg_ok C rs msg"
  using assms
  by (cases request) (auto simp: status_handler_def recv_new_proposal_def on_recv_new_view_def new_leader_handler_def
      new_tx_handler_def exec_bind_eq_Return msg_ok_def split: option.splits if_splits)

lemma tick_effect:
  assumes "dp_on_tick td dp = Return dp1" and "dp_leader dp = Some l" and "dp_to_sm dp = []"
  shows "dp_leader dp1 = Some l \<and> (\<forall>msg \<in> set (dp_to_sm dp1). \<exists>v c. msg = PViewChange l v c)"
  using assms by (auto simp: dp_on_tick_def view_change_def exec_bind_eq_Return Let_def split: prod.splits if_splits)

lemma response_msgs_ok:
  assumes "broadcastor_on_response resp sent = Return msgs" and "resp_ok C rs resp"
  shows "\<forall>msg \<in> set msgs. msg_ok C rs msg"
  using assms by (auto simp: broadcastor_on_response_def resp_ok_def exec_bind_eq_Return split: option.splits if_splits)

lemma machine_pass_ok:
  assumes ok: "cluster_ok C rs" and i: "i < length rs" and q: "rp_recvr (rs ! i) = (msg, waiter) # q"
    and step: "process_internal_msg C b64 msg (rp_machine (rs ! i)) = Return (m, replies)"
  shows "cluster_ok C (at_node i (machine_pass m q replies) rs)"
    and "VoteReply c p k \<in> set replies \<Longrightarrow> genuine C (at_node i (machine_pass m q replies) rs) (px_from c) p k"
proof -
  let ?r = "rs ! i" and ?rs1 = "at_node i (machine_pass m q replies) rs"
  have r: "steady ?r" "heard C rs ?r" using ok i by (simp_all add: cluster_ok_def)
  have msg: "msg_ok C rs msg" using r(2) q by (simp add: heard_def)
  note frame = process_internal_msg_frame [OF step]
  have g: "grows ?r (machine_pass m q replies ?r)" using frame(1) by (simp add: grows_def machine_pass_def)
  have lead: "mc_leader_id m = Some ''node-0''"
    using frame(3) [of "''node-0''"] r(1) msg by (cases msg) (simp_all add: steady_def msg_ok_def)
  have heights: "sorted_wrt (<) (map pn_height (rp_signed ?r @ voted replies))
      \<and> (\<forall>p \<in> set (rp_signed ?r @ voted replies). pn_height p \<le> mc_vheight m)"
    using process_internal_msg_votes [OF step] r(1)
    by (fastforce simp: step_votes_def steady_def sorted_wrt_append)
  have "heard C ?rs1 (machine_pass m q replies ?r)" unfolding heard_def
  proof (intro conjI ballI)
    fix x assume "x \<in> set (rp_recvr (machine_pass m q replies ?r))"
    then show "case x of (msg, _) \<Rightarrow> msg_ok C ?rs1 msg"
      using r(2) q msg_ok_at_node [of C rs _ i "machine_pass m q replies"] g by (auto simp: heard_def machine_pass_def)
  next
    fix resp assume "resp \<in> set (rp_responses (machine_pass m q replies ?r))"
    then show "resp_ok C ?rs1 resp"
      using r(2) msg_ok_at_node [of C rs _ i "machine_pass m q replies"] g by (auto simp: heard_def resp_ok_def machine_pass_def)
  next
    fix x assume "x \<in> set (mc_voting_set (rp_machine (machine_pass m q replies ?r)))"
    then consider "x \<in> set (mc_voting_set (rp_machine ?r))" | ctx p kit where "msg = PRecvSign ctx p kit" "x = (px_from ctx, kit)"
      using frame(2) by (auto simp: machine_pass_def counted_def split: InternalMsg.splits)
    then have "\<exists>p. genuine C rs (fst x) p (snd x)"
      using r(2) msg by cases (fastforce simp: heard_def msg_ok_def)+
    then show "case x of (from, kit) \<Rightarrow> \<exists>p. genuine C ?rs1 from p kit"
      using genuine_at_node [of C rs _ _ _ i "machine_pass m q replies"] g by (auto simp: split_beta)
  qed
  moreover have "steady (machine_pass m q replies ?r)" using lead heights r(1) by (simp add: steady_def machine_pass_def)
  ultimately show "cluster_ok C ?rs1" using cluster_ok_at_node [of C rs i] ok g by blast
  show "genuine C ?rs1 (px_from c) p k" if "VoteReply c p k \<in> set replies"
  proof -
    have "?rs1 ! i \<in> set ?rs1" using i by (intro nth_mem) simp
    moreover have "px_from c = mc_self_id m \<and> k = own_kit C m p \<and> p \<in> set (voted replies)"
      using process_internal_msg_kit [OF step that] frame(1) by (simp add: same_identity_def own_kit_def)
    ultimately show ?thesis using i unfolding genuine_def by (intro bexI [of _ "?rs1 ! i"]) (simp_all add: machine_pass_def)
  qed
qed

lemma answer_ok:
  assumes "recv_new_proposal rq True (vote_answer replies) = Return (msgs, code, resp)"
    and "\<And>c p k. VoteReply c p k \<in> set replies \<Longrightarrow> genuine C rs (px_from c) p k"
  shows "resp_ok C rs resp"
proof -
  have "VoteReply c p k \<in> set replies" if "vote_answer replies = Some (c, p, k)" for c p k
    using that by (cases replies rule: vote_answer.cases) auto
  with assms show ?thesis
    by (auto simp: recv_new_proposal_def exec_bind_eq_Return resp_ok_def msg_ok_def from_rpc_response_cases
        RpcResponse_accept_def RpcResponse_reject_def split: option.splits)
qed

lemma take_response_ok:
  assumes "cluster_ok C rs" and "resp_ok C rs resp"
  shows "cluster_ok C (at_node j (take_response resp) rs)"
proof (cases "j < length rs")
  case True
  then have "steady (rs ! j)" using assms(1) by (simp add: cluster_ok_def)
  then show ?thesis
    using True assms by (intro cluster_ok_frame) (auto simp: take_response_def steady_def image_iff)
next
  case False
  then show ?thesis using assms(1) by (simp add: at_node_def list_update_beyond)
qed

lemma deliver_ok:
  assumes "cluster_ok C rs" and "\<forall>msg \<in> set msgs. msg_ok C rs msg" and "k < length rs"
  shows "cluster_ok C (at_node k (deliver msgs waiter) rs)"
proof -
  have "steady (rs ! k)" using assms(1,3) by (simp add: cluster_ok_def)
  then show ?thesis using assms by (intro cluster_ok_frame) (auto simp: deliver_def steady_def image_iff)
qed

lemma proto_step_ok:
  assumes "proto_step C b64 rs rs1" and "cluster_ok C rs"
  shows "cluster_ok C rs1"
  using assms
proof (induction rule: proto_step.induct)
  case (tick i rs td tds dp)
  then have r: "steady (rs ! i)" by (simp add: cluster_ok_def)
  then have "dp_leader dp = Some ''node-0'' \<and> (\<forall>msg \<in> set (dp_to_sm dp). \<exists>v c. msg = PViewChange ''node-0'' v c)"
    using tick_effect tick.hyps(3) by (simp add: steady_def)
  then show ?case
    using tick by (intro cluster_ok_frame) (auto simp: deliver_def msg_ok_def image_iff)
next
  case (machine i rs msg waiter q m replies rs1 rs2)
  note pass = machine_pass_ok [OF machine.prems machine.hyps(1,2,4)]
  have "cluster_ok C (at_node j (take_response resp) rs1)"
    if "recv_new_proposal rq True (vote_answer replies) = Return (ms, code, resp)" for j rq ms code resp
    unfolding machine.hyps(5) using take_response_ok [OF pass(1) answer_ok [OF that]] pass(2) by blast
  then show ?case using pass(1) by (auto simp: machine.hyps(5,6) split: option.split prod.split exec.split)
next
  case (proxy i rs msg out rq quit)
  then have "steady (rs ! i)" by (simp add: cluster_ok_def)
  then show ?case using proxy by (intro cluster_ok_frame) (auto simp: proxy_pass_def steady_def image_iff)
next
  case (post i rs addr rq k msgs)
  let ?rs = "at_node i (\<lambda>r. r\<lparr>rp_fan_out := remove1 (addr, rq) (rp_fan_out r)\<rparr>) rs"
  have "steady (rs ! i)" using post by (simp add: cluster_ok_def)
  then have ok: "cluster_ok C ?rs" using post by (intro cluster_ok_frame) (auto simp: steady_def image_iff)
  show ?case using deliver_ok [OF ok route_msgs_ok [OF post.hyps(6)]] post.hyps(3) by simp
next
  case (response i rs resp msgs)
  then have r: "steady (rs ! i)" "resp_ok C rs resp" by (auto simp: cluster_ok_def heard_def)
  then show ?case
    using response response_msgs_ok [OF response.hyps(3) r(2)]
    by (intro cluster_ok_frame) (auto simp: deliver_def steady_def image_iff dest: set_remove1_subset [THEN subsetD])
next
  case (lost i rs x resp)
  then have "steady (rs ! i)" by (simp add: cluster_ok_def)
  then show ?case using lost by (intro cluster_ok_frame) (auto simp: steady_def image_iff dest: set_remove1_subset [THEN subsetD])
next
  case (client i rs request msgs)
  then show ?case using deliver_ok route_msgs_ok by blast
next
  case (hang_up i rs q ctx p just q')
  then have "steady (rs ! i)" by (simp add: cluster_ok_def)
  then show ?case using hang_up by (intro cluster_ok_frame) (auto simp: steady_def image_iff msg_ok_def)
qed

subsection \<open>Every run of the cluster\<close>

lemma proto_main_replicas:
  assumes "proto_main C s order = Return rs"
  shows "\<forall>r \<in> set rs. steady r \<and> rp_recvr r = [] \<and> rp_responses r = [] \<and> mc_voting_set (rp_machine r) = []
    \<and> mc_commit_height (rp_machine r) = 0"
  using assms
  by (auto simp: proto_main_def threshold_sign_kit_def main_replica_def steady_def PMachine_new_def
      DefaultPacemaker_new_def Let_def)

lemma proto_reaches_ok:
  assumes "proto_main C s order = Return rs0" and "(proto_step C b64)\<^sup>*\<^sup>* rs0 rs"
  shows "cluster_ok C rs"
proof -
  have "cluster_ok C rs0"
    using proto_main_replicas [OF assms(1)] unfolding cluster_ok_def heard_def by simp
  with assms(2) show ?thesis by (induction rule: rtranclp_induct) (auto intro: proto_step_ok)
qed

text \<open>The keys and names of \<open>main\<close>: replica \<open>i\<close> has the \<open>i\<close>th key share and the \<open>i\<close>th name of the map's order.\<close>

lemma proto_step_identity:
  assumes "proto_step C b64 rs rs1" and "i < length rs"
  shows "length rs1 = length rs \<and> same_identity (rp_machine (rs ! i)) (rp_machine (rs1 ! i))"
  using assms
  by (induction rule: proto_step.induct)
    (auto simp: same_identity_def deliver_def proxy_pass_def take_response_def machine_pass_def
      dest!: process_internal_msg_frame(1) split: option.split exec.split)

lemma proto_reaches_identity:
  assumes "(proto_step C b64)\<^sup>*\<^sup>* rs0 rs" and "i < length rs0"
  shows "length rs = length rs0 \<and> same_identity (rp_machine (rs0 ! i)) (rp_machine (rs ! i))"
  using assms
proof (induction rule: rtranclp_induct)
  case (step rs rs1)
  then show ?case using proto_step_identity [OF step.hyps(2), of i] by (simp add: same_identity_def)
qed (simp add: same_identity_def)

lemma proto_main_identity:
  assumes "proto_main C s order = Return rs" and "length order = 4" and "i < 4"
  shows "length rs = 4 \<and> mc_self_id (rp_machine (rs ! i)) = ''node-'' @ usize_to_string (order ! i)
    \<and> mc_sks (rp_machine (rs ! i)) = secret_key_share C s i \<and> mc_sign_id (rp_machine (rs ! i)) = of_nat i"
  using assms by (auto simp: proto_main_def threshold_sign_kit_def main_replica_def PMachine_new_def Let_def simp del: upt.simps)

lemma proto_step_commit:
  assumes "proto_step C b64 rs rs1" and "i < length rs"
  shows "mc_commit_height (rp_machine (rs1 ! i)) = mc_commit_height (rp_machine (rs ! i)) \<or> own_parent C (rp_machine (rs1 ! i))"
  using assms
  by (induction rule: proto_step.induct)
    (auto simp: deliver_def proxy_pass_def take_response_def machine_pass_def dest: process_internal_msg_commit
      split: option.split exec.split)

text \<open>C36: the votes a replica of the prototype counts are genuine, although clients may send any request to
  any replica at any time and nothing checks a signature. In every state that the four replicas
  started by \<open>main\<close> reach, whatever the iteration order of the configuration, the leader is
  \<open>node-0\<close> at every replica, every replica has signed proposals of strictly rising heights only, and
  every entry of a voting set stands under the name of a replica and is that replica's signature,
  with its own key share and index, of a proposal it signed.\<close>

theorem proto_cluster_votes_genuine:
  assumes "proto_main C s order = Return rs0" and "distinct order" and "set order = {0..<4}"
    and "(proto_step C b64)\<^sup>*\<^sup>* rs0 rs" and "i < 4"
  shows "mc_leader_id (rp_machine (rs ! i)) = Some ''node-0'' \<and> sorted_wrt (<) (map pn_height (rp_signed (rs ! i)))
    \<and> (\<forall>from kit. (from, kit) \<in> set (mc_voting_set (rp_machine (rs ! i))) \<longrightarrow>
         (\<exists>j < 4. from = ''node-'' @ usize_to_string (order ! j)
           \<and> (\<exists>p \<in> set (rp_signed (rs ! j)). kit = \<lparr>pk_sign = sk_sign C (secret_key_share C s j) (PTreeNode_to_be_bytes p),
                pk_sign_id = of_nat j\<rparr>)))"
proof -
  have len: "length order = 4" using distinct_card [OF assms(2)] assms(3) by simp
  have id: "length rs = 4 \<and> mc_self_id (rp_machine (rs ! j)) = ''node-'' @ usize_to_string (order ! j)
      \<and> own_kit C (rp_machine (rs ! j)) p = \<lparr>pk_sign = sk_sign C (secret_key_share C s j) (PTreeNode_to_be_bytes p),
           pk_sign_id = of_nat j\<rparr>" if "j < 4" for j p
    using proto_main_identity [OF assms(1) len that] proto_reaches_identity [OF assms(4), of j] that
    by (simp add: same_identity_def own_kit_def)
  have ok: "cluster_ok C rs" using proto_reaches_ok [OF assms(1,4)] .
  have r: "steady (rs ! i)" "heard C rs (rs ! i)" using ok id [OF assms(5)] assms(5) by (simp_all add: cluster_ok_def)
  have "\<exists>j < 4. from = ''node-'' @ usize_to_string (order ! j) \<and> (\<exists>p \<in> set (rp_signed (rs ! j)).
      kit = \<lparr>pk_sign = sk_sign C (secret_key_share C s j) (PTreeNode_to_be_bytes p), pk_sign_id = of_nat j\<rparr>)"
    if "(from, kit) \<in> set (mc_voting_set (rp_machine (rs ! i)))" for "from" kit
  proof -
    from r(2) that obtain p where "genuine C rs from p kit" by (fastforce simp: heard_def)
    then obtain x where "x \<in> set rs" and x: "from = mc_self_id (rp_machine x)" "kit = own_kit C (rp_machine x) p" "p \<in> set (rp_signed x)"
      by (auto simp: genuine_def)
    moreover have "length rs = 4" using id [OF assms(5)] by blast
    ultimately obtain j where j: "j < 4" "x = rs ! j" by (metis in_set_conv_nth)
    show ?thesis using x id [OF j(1), of p] unfolding j(2) by (intro exI [of _ j] conjI j(1) bexI [of _ p]) simp_all
  qed
  then show ?thesis using r(1) by (simp add: steady_def)
qed

text \<open>C37: the cluster of the prototype commits nothing. If a replica's committed height is not 0 in a
  state that the four replicas started by \<open>main\<close> reach, whatever clients send, then in an
  earlier state of the run that replica had stored a proposal that names its own hash as its
  parent: the check for a three chain compares the first proposal's parent with that proposal's
  own hash instead of the second's.\<close>

theorem proto_cluster_commits_nothing:
  assumes "proto_main C s order = Return rs0" and "(proto_step C b64)\<^sup>*\<^sup>* rs0 rs" and "i < length rs0"
    and "mc_commit_height (rp_machine (rs ! i)) \<noteq> 0"
  shows "\<exists>rs'. (proto_step C b64)\<^sup>*\<^sup>* rs0 rs' \<and> (proto_step C b64)\<^sup>*\<^sup>* rs' rs
    \<and> (\<exists>n \<in> snd ` set (mc_node_pool (rp_machine (rs' ! i))). pn_parent n = PTreeNode_hash C n)"
  using assms(2,4)
proof (induction rule: rtranclp_induct)
  case base
  then show ?case using proto_main_replicas [OF assms(1)] assms(3) by simp
next
  case (step rs rs1)
  have "i < length rs" using proto_reaches_identity [OF step.hyps(1) assms(3)] assms(3) by simp
  from proto_step_commit [OF step.hyps(2) this] show ?case
  proof
    assume "mc_commit_height (rp_machine (rs1 ! i)) = mc_commit_height (rp_machine (rs ! i))"
    then show ?thesis using step by (metis (no_types, lifting) rtranclp.rtrancl_into_rtrancl)
  next
    assume "own_parent C (rp_machine (rs1 ! i))"
    then show ?thesis
      using step.hyps unfolding own_parent_def by (intro exI [of _ rs1]) (auto intro: rtranclp.rtrancl_into_rtrancl)
  qed
qed

subsection \<open>A schedule of steps, for examples\<close>

datatype action = Serve nat http_request | Handle nat | Forward nat | Post nat nat | Answer nat

text \<open>One step as a function; a broadcast task posts its oldest request, a response is the oldest.\<close>

fun perform :: "crypto \<Rightarrow> (u8 list \<Rightarrow> string) \<Rightarrow> action \<Rightarrow> ProtoReplica list \<Rightarrow> ProtoReplica list option" where
  "perform C b64 (Serve i request) rs =
     (if i < length rs \<and> \<not> rp_stopped (rs ! i)
      then (case run_server_route (hp_self_id (rp_proxy (rs ! i))) request True of
              Return msgs \<Rightarrow> Some (at_node i (deliver msgs None) rs) | _ \<Rightarrow> None)
      else None)"
| "perform C b64 (Handle i) rs =
     (if i < length rs
      then (case rp_recvr (rs ! i) of
              (msg, waiter) # q \<Rightarrow> if msg = PDown then None
                else (case process_internal_msg C b64 msg (rp_machine (rs ! i)) of
                  Return (m, replies) \<Rightarrow> let rs1 = at_node i (machine_pass m q replies) rs
                    in Some (case waiter of None \<Rightarrow> rs1 | Some (j, rq) \<Rightarrow>
                         (case recv_new_proposal rq True (vote_answer replies) of
                            Return (_, _, resp) \<Rightarrow> at_node j (take_response resp) rs1 | _ \<Rightarrow> rs1))
                | _ \<Rightarrow> None)
            | [] \<Rightarrow> None)
      else None)"
| "perform C b64 (Forward i) rs =
     (if i < length rs \<and> \<not> rp_stopped (rs ! i)
      then (case mc_step_out (rp_machine (rs ! i)) of
              msg # out \<Rightarrow> (case proxy_on_msg msg (hp_peer_conf (rp_proxy (rs ! i)) \<noteq> []) of
                  Return (rq, quit) \<Rightarrow> Some (at_node i (proxy_pass out rq quit) rs) | _ \<Rightarrow> None)
            | [] \<Rightarrow> None)
      else None)"
| "perform C b64 (Post i k) rs =
     (if i < length rs \<and> k < length rs \<and> \<not> rp_stopped (rs ! k)
      then (case filter (\<lambda>(addr, _). hp_self_addr (rp_proxy (rs ! k)) = addr) (rp_fan_out (rs ! i)) of
              (addr, rq) # _ \<Rightarrow> (case run_server_route (hp_self_id (rp_proxy (rs ! k))) (PostNewProposal rq) True of
                  Return msgs \<Rightarrow> Some (at_node k (deliver msgs (Some (i, rq)))
                    (at_node i (\<lambda>r. r\<lparr>rp_fan_out := remove1 (addr, rq) (rp_fan_out r)\<rparr>) rs)) | _ \<Rightarrow> None)
            | [] \<Rightarrow> None)
      else None)"
| "perform C b64 (Answer i) rs =
     (if i < length rs
      then (case rp_responses (rs ! i) of
              resp # _ \<Rightarrow> (case broadcastor_on_response resp True of
                  Return msgs \<Rightarrow> Some (at_node i (\<lambda>r. deliver msgs None (r\<lparr>rp_responses := remove1 resp (rp_responses r)\<rparr>)) rs)
                | _ \<Rightarrow> None)
            | [] \<Rightarrow> None)
      else None)"

fun performs :: "crypto \<Rightarrow> (u8 list \<Rightarrow> string) \<Rightarrow> action list \<Rightarrow> ProtoReplica list \<Rightarrow> ProtoReplica list option" where
  "performs C b64 [] rs = Some rs"
| "performs C b64 (a # acts) rs = Option.bind (perform C b64 a rs) (performs C b64 acts)"

lemma perform_step: "perform C b64 a rs = Some rs1 \<Longrightarrow> proto_step C b64 rs rs1"
proof (cases a)
  case (Post i k)
  assume "perform C b64 a rs = Some rs1"
  with Post obtain addr rq xs msgs where "i < length rs" "k < length rs" "\<not> rp_stopped (rs ! k)"
      and f: "filter (\<lambda>(addr, _). hp_self_addr (rp_proxy (rs ! k)) = addr) (rp_fan_out (rs ! i)) = (addr, rq) # xs"
      and m: "run_server_route (hp_self_id (rp_proxy (rs ! k))) (PostNewProposal rq) True = Return msgs"
      and "rs1 = at_node k (deliver msgs (Some (i, rq))) (at_node i (\<lambda>r. r\<lparr>rp_fan_out := remove1 (addr, rq) (rp_fan_out r)\<rparr>) rs)"
    by (auto simp del: run_server_route.simps split: if_splits list.splits exec.splits)
  moreover from f have "(addr, rq) \<in> set (rp_fan_out (rs ! i))" "hp_self_addr (rp_proxy (rs ! k)) = addr"
    by (auto simp: filter_eq_Cons_iff)
  ultimately show ?thesis using proto_step.post by blast
qed (auto simp: Let_def simp del: process_internal_msg.simps run_server_route.simps
    split: if_splits list.splits exec.splits option.splits prod.splits intro: proto_step.intros)

lemma performs_steps: "performs C b64 acts rs = Some rs1 \<Longrightarrow> (proto_step C b64)\<^sup>*\<^sup>* rs rs1"
  by (induction acts arbitrary: rs) (auto simp: bind_eq_Some_conv dest: perform_step intro: converse_rtranclp_into_rtranclp)

text \<open>
  Two runs on the example scheme. In the first a client submits a transaction, \<open>node-0\<close> proposes it
  and counts the vote of \<open>node-1\<close>; in the second a client poses as the leader and sends \<open>node-1\<close> the
  five proposals that make it commit. The ticks to come, which no step looks at, are left open.
\<close>

definition toy_peers :: "(ReplicaID, string) hash_map" where
  "toy_peers = [(''node-0'', ''localhost:8000''), (''node-1'', ''localhost:8001''), (''node-2'', ''localhost:8002''),
     (''node-3'', ''localhost:8003'')]"

definition toy_cluster :: "(u64 \<times> u64) list \<Rightarrow> ProtoReplica list" where
  "toy_cluster ticks = map (\<lambda>((k, v), (sign_id, sks)).
     \<lparr>rp_proxy = HotStuffProxy_new k v toy_peers,
      rp_machine = PMachine_new toy k (of_nat sign_id) (public_keys toy toy_keys) sks toy_peers,
      rp_pacemaker = DefaultPacemaker_new toy_peers (Some ''node-0''),
      rp_timer = ticks, rp_recvr = [], rp_fan_out = [], rp_responses = [], rp_stopped = False, rp_signed = []\<rparr>)
     (zip toy_peers (map (\<lambda>i. (i, secret_key_share toy toy_keys i)) [0, 1, 2, 3]))"

lemma toy_cluster_main: "proto_main toy toy_keys [0, 1, 2, 3] = Return (toy_cluster (default_timer 1000 5))"
proof -
  have "map (\<lambda>i. (''node-'' @ usize_to_string i, ''localhost:'' @ usize_to_string (8000 + i))) [0, 1, 2, 3] = toy_peers"
    by (simp add: toy_peers_def usize_to_string.simps) code_simp
  moreover have "[0..<3 * 1 + 1] = [0, 1, 2, 3::nat]" by (simp add: upt_rec)
  ultimately show ?thesis
    unfolding proto_main_def threshold_sign_kit_def Let_def toy_cluster_def main_replica_def by (simp add: split_beta)
qed

lemma toy_cluster_vote:
  "case performs toy (\<lambda>_. []) [Serve 0 (PostNewTx \<lparr>nt_client_id = ''c'', nt_cmd = ''tx''\<rparr>), Handle 0, Forward 0, Post 0 1,
      Handle 1, Answer 0] (toy_cluster ticks) of
    None \<Rightarrow> False | Some rs \<Rightarrow> length rs = 4 \<and> map pn_cmds (rp_signed (rs ! 1)) = [[''tx'']]
      \<and> mc_voting_set (rp_machine (rs ! 0)) = [] \<and> \<not> mc_decided (rp_machine (rs ! 0))
      \<and> mc_peer_conf (rp_machine (rs ! 0)) = toy_peers
      \<and> (case rp_recvr (rs ! 0) of [(PRecvSign ctx p kit, None)] \<Rightarrow> px_from ctx = ''node-1'' | _ \<Rightarrow> False)"
  by code_simp

lemma first_vote_counted:
  assumes "mc_voting_set m = []" and "\<not> mc_decided m" and "mc_peer_conf m = toy_peers"
  shows "process_internal_msg C b64 (PRecvSign ctx p kit) m = Return (m\<lparr>mc_voting_set := [(px_from ctx, kit)]\<rparr>, [])"
  using assms by (simp add: proto_on_recv_vote_def proto_add_vote_def proto_vote_set_size_def proto_threshold_def
      toy_peers_def hm_get_def hm_insert_def)

theorem proto_cluster_votes_genuine_witness:
  "\<exists>rs kit. (proto_step toy (\<lambda>_. []))\<^sup>*\<^sup>* (toy_cluster (default_timer 1000 5)) rs
    \<and> mc_voting_set (rp_machine (rs ! 0)) = [(''node-1'', kit)]
    \<and> (\<exists>p \<in> set (rp_signed (rs ! 1)). kit = \<lparr>pk_sign = sk_sign toy (secret_key_share toy toy_keys 1) (PTreeNode_to_be_bytes p),
          pk_sign_id = 1\<rparr>)"
proof -
  let ?rs0 = "toy_cluster (default_timer 1000 5)"
  obtain rs ctx p kit where run: "(proto_step toy (\<lambda>_. []))\<^sup>*\<^sup>* ?rs0 rs" and rs: "length rs = 4"
      "mc_voting_set (rp_machine (rs ! 0)) = []" "\<not> mc_decided (rp_machine (rs ! 0))" "mc_peer_conf (rp_machine (rs ! 0)) = toy_peers"
      "rp_recvr (rs ! 0) = [(PRecvSign ctx p kit, None)]" "px_from ctx = ''node-1''"
    using toy_cluster_vote [of "default_timer 1000 5"]
    by (auto split: option.splits list.splits prod.splits InternalMsg.splits dest!: performs_steps simp del: performs.simps)
  define rs1 where "rs1 = at_node 0 (machine_pass ((rp_machine (rs ! 0))\<lparr>mc_voting_set := [(''node-1'', kit)]\<rparr>) [] []) rs"
  have "proto_step toy (\<lambda>_. []) rs rs1"
    using proto_step.machine [OF _ rs(5) _ first_vote_counted [OF rs(2-4)] refl refl] rs(1,6) by (simp add: rs1_def)
  with run have run1: "(proto_step toy (\<lambda>_. []))\<^sup>*\<^sup>* ?rs0 rs1" by simp
  have vs: "mc_voting_set (rp_machine (rs1 ! 0)) = [(''node-1'', kit)]" using rs(1) by (simp add: rs1_def machine_pass_def)
  then have entry: "(''node-1'', kit) \<in> set (mc_voting_set (rp_machine (rs1 ! 0)))" by simp
  have order: "distinct [0, 1, 2, 3::nat]" "set [0, 1, 2, 3::nat] = {0..<4}" "(0::nat) < 4" by auto
  from proto_cluster_votes_genuine [OF toy_cluster_main order(1,2) run1 order(3)] entry
  obtain j where j: "j < 4" "''node-1'' = ''node-'' @ usize_to_string ([0, 1, 2, 3] ! j)"
      "\<exists>p \<in> set (rp_signed (rs1 ! j)). kit = \<lparr>pk_sign = sk_sign toy (secret_key_share toy toy_keys j) (PTreeNode_to_be_bytes p),
          pk_sign_id = of_nat j\<rparr>" by blast
  have "usize_to_string 1 = ''1''" by (simp add: usize_to_string.simps) code_simp
  then have "usize_to_string ([0, 1, 2, 3] ! j) = usize_to_string 1" using j(2) by simp
  moreover have j': "j = 0 \<or> j = 1 \<or> j = 2 \<or> j = 3" using j(1) by linarith
  ultimately have "[0, 1, 2, 3] ! j = (1::nat)"
    using usize_to_string_inject [of "[0, 1, 2, 3] ! j" 1] by (elim disjE) simp_all
  with j' have "j = 1" by (elim disjE) simp_all
  with run1 vs j(3) show ?thesis by auto
qed

definition toy_posts :: "action list" where
  "toy_posts = concat (map (\<lambda>(p, qc). [Serve 1 (PostNewProposal \<lparr>rq_ctx = \<lparr>px_from = ''node-0'', px_view = 1\<rparr>,
       rq_msg_type = RpcNewProposal, rq_leader = None, rq_prop = Some p, rq_qc = Some qc\<rparr>), Handle 1])
     [(toy_prop 1 0 0, PGenericQC_genesis toy 0 PTreeNode_genesis), (toy_prop 2 4 1, toy_pqc 1 1),
      (toy_prop 3 3 2, toy_pqc 2 2), (toy_prop 4 3 3, toy_pqc 3 3), (toy_prop 5 4 3, toy_pqc 1 4)])"

lemma toy_cluster_commit:
  "case performs toy (\<lambda>_. []) toy_posts (toy_cluster ticks) of
    None \<Rightarrow> False | Some rs \<Rightarrow> mc_commit_height (rp_machine (rs ! 1)) = 4"
  by code_simp

theorem proto_cluster_commits_nothing_witness:
  "\<exists>rs rs'. (proto_step toy (\<lambda>_. []))\<^sup>*\<^sup>* (toy_cluster (default_timer 1000 5)) rs' \<and> (proto_step toy (\<lambda>_. []))\<^sup>*\<^sup>* rs' rs
    \<and> mc_commit_height (rp_machine (rs ! 1)) = 4
    \<and> (\<exists>n \<in> snd ` set (mc_node_pool (rp_machine (rs' ! 1))). pn_parent n = PTreeNode_hash toy n)"
proof -
  obtain rs where "(proto_step toy (\<lambda>_. []))\<^sup>*\<^sup>* (toy_cluster (default_timer 1000 5)) rs" "mc_commit_height (rp_machine (rs ! 1)) = 4"
    using toy_cluster_commit [of "default_timer 1000 5"]
    by (auto split: option.splits dest!: performs_steps simp del: performs.simps)
  moreover have "1 < length (toy_cluster (default_timer 1000 5))" by (simp add: toy_cluster_def toy_peers_def)
  ultimately show ?thesis using proto_cluster_commits_nothing [OF toy_cluster_main] by fastforce
qed

end
