(* ===== verification/DemoProps.thy ===== *)
theory DemoProps
  imports DemoNode PmProps PersistProps
begin

section \<open>examples/demo: properties\<close>

text \<open>
  Which configurations start a node, what a started node never does, what its transaction server
  answers, and that the generated keys are accepted. The last two groups show that the
  transactions clients submit are neither proposed nor ever reported as committed.
\<close>

subsection \<open>What a node proposes\<close>

lemma on_beat_proposal:
  assumes "snd (on_beat C S cmds m) = Inr ready"
  shows "\<exists>ctx p. ready = NewProposal ctx p \<and> txs p = cmds"
  using assms by (auto simp: on_beat_def make_leaf_def TreeNode_node_and_hash_def Let_def case_prod_unfold)

text \<open>Filler: one transaction of \<open>proposal_size\<close> zero bytes.\<close>

definition filler :: "NodeSettings \<Rightarrow> Txn list" where
  "filler ns = [Txn (replicate (ns_block_size ns) 0)]"

lemma demo_proposes_filler:
  assumes "propose_if_fetched C S L (demo_hooks ns) pm = Return pm1"
  shows "pm_ready_queue pm1 = pm_ready_queue pm
    \<or> (\<exists>ctx p. pm_ready_queue pm1 = pm_ready_queue pm @ [NewProposal ctx p] \<and> txs p = filler ns)"
  using assms
  by (auto simp: propose_if_fetched_def demo_hooks_def demo_fetch_def filler_def make_new_proposal_def Let_def exec_bind_eq_Return
      case_prod_unfold dest!: on_beat_proposal split: if_splits sum.splits)

subsection \<open>The transaction server\<close>

text \<open>A request to submit whose payload decodes.\<close>

definition valid_submission :: "codec \<Rightarrow> demo_event \<Rightarrow> string option" where
  "valid_submission K ev = (case ev of
     Http req \<Rightarrow> (case tx_summit req of
         Some r \<Rightarrow> if b64_decode K (nr_tx r) \<noteq> None then Some (nr_tx_hash r) else None | None \<Rightarrow> None)
   | _ \<Rightarrow> None)"

definition submissions :: "codec \<Rightarrow> demo_event list \<Rightarrow> string list" where
  "submissions K evs = List.map_filter (valid_submission K) evs"

lemma submissions_snoc [simp]:
  "submissions K [] = []"
  "submissions K (evs @ [ev])
     = submissions K evs @ (case valid_submission K ev of Some h \<Rightarrow> [h] | None \<Rightarrow> [])"
  by (simp_all add: submissions_def List.map_filter_def split: option.split)

lemma valid_submission_simps [simp]:
  "valid_submission K Round = None" "valid_submission K Fire = None"
  by (simp_all add: valid_submission_def)

text \<open>The server's state is a function of the submissions: nothing else touches it.\<close>

definition server_state_of :: "string list \<Rightarrow> ServerSharedState \<Rightarrow> bool" where
  "server_state_of hs sss \<longleftrightarrow> tx_queue sss = map (Txn \<circ> as_bytes) hs
     \<and> (\<forall>h. hm_get h (tx_pool sss) = (if h \<in> set hs
          then Some \<lparr>tw_tx_hash = h, tw_tx = Txn (as_bytes h), tw_state = TX_STATE_PENDING\<rparr> else None))"

lemma tx_server_state:
  assumes "server_state_of hs sss" and "tx_server K req sss = (sss1, resp)"
  shows "server_state_of (hs @ (case valid_submission K (Http req) of Some h \<Rightarrow> [h] | None \<Rightarrow> [])) sss1"
  using assms
  by (auto simp: server_state_of_def tx_server_def valid_submission_def process_new_tx_def Let_def map_simps
      split: option.splits if_splits)

lemma demo_run_state:
  assumes "demo_run K E C ns d evs d1" and "server_state_of [] (dn_sss d)"
  shows "server_state_of (submissions K evs) (dn_sss d1) \<and> dn_stat d1 = dn_stat d"
  using assms
proof (induction rule: demo_run.induct)
  case (demo_run_step evs d1 ev d2)
  then show ?case by (cases ev) (auto dest: tx_server_state)
qed simp

lemma node_admin_start_server:
  assumes "node_admin_start H K C na now config E d = Return (ns, dn, d1)"
  shows "dn_sss dn = ServerSharedState_default" "dn_stat dn = HotStuffNodeStat_default now now"
  using assms by (auto simp: node_admin_start_def HotStuffNodeStat_default_def Let_def exec_bind_eq_Return)

text \<open>The request for the state of a transaction.\<close>

definition get_tx :: "string \<Rightarrow> tx_request" where
  "get_tx h = \<lparr>hq_method = GET, hq_path = [''tx'', h], hq_content_length = None, hq_json = None\<rparr>"

lemma tx_server_get_tx: "h \<noteq> [] \<Longrightarrow> tx_server K (get_tx h) sss = (sss, Some (query_tx h sss))"
  by (simp add: tx_server_def tx_summit_def tx_query_def get_tx_def)

text \<open>C27: a client's transaction is never reported as committed. Whatever happens to a started node,
  the server answers a query with pending exactly if a valid submission with that hash came
  before by its route, within its limit of two megabytes, and with invalid otherwise; its queue holds every transaction submitted so far, since
  nothing ever takes one out; the statistics stay empty; and what the node itself proposes is
  one transaction of \<open>proposal_size\<close> zero bytes. The event loop drops the hook that would
  inform the server of a commit.\<close>

theorem demo_tx_stays_pending:
  assumes "node_admin_start H K C na now config E d = Return (ns, dn, d1)"
    and "demo_run K (node_env config E) C ns dn evs dn1"
  shows "(h \<noteq> [] \<longrightarrow> tx_server K (get_tx h) (dn_sss dn1) = (dn_sss dn1, Some \<lparr>np_tx_hash = h,
        np_state = (if h \<in> set (submissions K evs) then TX_STATE_PENDING else TX_STATE_INVALID)\<rparr>))
    \<and> tx_queue (dn_sss dn1) = map (Txn \<circ> as_bytes) (submissions K evs)
    \<and> committed_prop_list (dn_stat dn1) = []
    \<and> (\<forall>pm1. propose_if_fetched C (hss_safety_storage C) (hss_liveness_storage C) (demo_hooks ns) (dn_pm dn1) = Return pm1
          \<longrightarrow> pm_ready_queue pm1 = pm_ready_queue (dn_pm dn1)
            \<or> (\<exists>ctx p. pm_ready_queue pm1 = pm_ready_queue (dn_pm dn1) @ [NewProposal ctx p]
                 \<and> txs p = [Txn (replicate (ns_block_size ns) 0)]))"
proof -
  have "server_state_of [] (dn_sss dn)"
    by (simp add: node_admin_start_server [OF assms(1)] ServerSharedState_default_def server_state_of_def hm_get_def)
  from demo_run_state [OF assms(2) this] show ?thesis
    using demo_proposes_filler [of C "hss_safety_storage C" "hss_liveness_storage C" ns "dn_pm dn1"]
    by (simp add: server_state_of_def query_tx_def tx_server_get_tx node_admin_start_server [OF assms(1)]
        HotStuffNodeStat_default_def filler_def)
qed

subsection \<open>Starting a node\<close>

lemma hm_get_fold_insert:
  "hm_get k (fold (\<lambda>x. hm_insert (f x) (g x)) xs m) \<noteq> None \<longleftrightarrow> k \<in> f ` set xs \<or> hm_get k m \<noteq> None"
  by (induction xs arbitrary: m) (auto simp: map_simps)

lemma peers_known:
  "hm_get k (fold (\<lambda>pi. hm_insert (pi_node_id pi) (pi_addr pi)) peers []) = Some a
   \<Longrightarrow> k \<in> pi_node_id ` set peers"
  using hm_get_fold_insert [of k pi_node_id pi_addr peers "[]"] by simp

lemma init_storage_returns:
  "(\<exists>x. init_hotstuff_storage K C token n node nh i ps db sg d = Return x) \<longleftrightarrow> hm_get i ps \<noteq> None"
  by (cases "hm_get i ps") (auto simp: init_hotstuff_storage_def hss_init_def HotstuffStorage_new_def
      MySQLStorage_init_def MySQLStorage_new_def persist_other_msg_def Let_def exec_bind_eq_Return)

lemma init_storage_inv:
  assumes "init_hotstuff_storage K C token n (INIT_NODE C) (INIT_NODE_HASH C) i ps db sg d = Return (s, d1)"
  shows "hss_inv_qc C s" "hss_get_view s = 0"
  using assms
  by (auto simp: init_hotstuff_storage_def hss_init_def HotstuffStorage_new_def MySQLStorage_init_def
      MySQLStorage_new_def Let_def exec_bind_eq_Return hss_inv_qc_def hss_inv_def filed_def hss_get_def hm_get_def
      hm_wf_def views_wf_def hm_insert_def INIT_NODE_HASH_def hss_get_view_def split: if_splits)

text \<open>The pacemaker of a node is sound and its invariant holds before the first view.\<close>

lemma init_node_ok:
  assumes "init_hotstuff_node K C na token n i db ps sg d = Return (pm, d1)"
  shows "pm_ok (hss_safety_storage C) (hss_inv C) pm" "ps \<noteq> [] \<Longrightarrow> pm_sound pm"
proof -
  obtain s where s: "init_hotstuff_storage K C token n (INIT_NODE C) (INIT_NODE_HASH C) i ps db sg d = Return (s, d1)"
      and pm: "pm = Pacemaker_new i (elector_init (map fst ps) elector_default)
        (Machine_new (Voter_new (bft_threshold n) sg) i n None s) (na i ps) sg"
    using assms by (auto simp: init_hotstuff_node_def Let_def exec_bind_eq_Return)
  show "pm_ok (hss_safety_storage C) (hss_inv C) pm"
    using init_storage_inv [OF s]
    by (auto simp: pm pm_ok_def Pacemaker_new_def Machine_new_def Let_def machine_ok_def hss_inv_qcD voter_wf_new)
  show "pm_sound pm" if "ps \<noteq> []"
    using that by (simp add: pm Pacemaker_new_def DefaultTimer_new_def Let_def pm_sound_def votes_addressed_def
        timers_sound_def roster_nonempty)
qed

lemma node_env_set: "FLUSH_INTERVAL (node_env config E) \<noteq> None" "DUR_REPLICA_WAIT (node_env config E) \<noteq> None"
  by (simp_all add: node_env_def get_or_init_def split: option.split)

lemma run_start_returns:
  assumes "pm_sound pm" and "FLUSH_INTERVAL E \<noteq> None"
  shows "\<exists>pm1. run_start E S L pm = Return pm1"
proof -
  obtain r where "get_leader E (max (pm_view pm) 1) (pm_elector pm) = Return r"
    using assms(1) get_leader_returns unfolding pm_sound_def by blast
  then show ?thesis using assms(2) by (auto simp: run_start_def goto_new_view_def Let_def case_prod_unfold)
qed

lemma init_node_returns:
  "(\<exists>x. init_hotstuff_node K C na token n i db ps sg d = Return x) \<longleftrightarrow> hm_get i ps \<noteq> None"
  by (subst init_storage_returns [of K C token n "INIT_NODE C" "INIT_NODE_HASH C" i ps db sg d, symmetric])
    (auto simp: init_hotstuff_node_def Let_def exec_bind_eq_Return)

text \<open>A configuration that \<open>main\<close> accepts.\<close>

definition config_accepted :: "host \<Rightarrow> codec \<Rightarrow> crypto \<Rightarrow> NodeConfig \<Rightarrow> bool" where
  "config_accepted H K C config \<longleftrightarrow>
     socket_addr_ok H (nc_server_addr config)
     \<and> list_all (os_create H) (log_files (bc_token (nc_bootstrap_conf config)) (nc_node_name config))
     \<and> (case nc_test_config config of SingleNode _ _ \<Rightarrow> True | _ \<Rightarrow> False)
     \<and> nc_persistor config \<noteq> NoPersistor
     \<and> nc_node_name config \<in> pi_node_id ` set (bc_peer_addrs (nc_bootstrap_conf config))
     \<and> (\<exists>sg. build_signaturer_from_string K C (unat (sc_sk_id (nc_secret config)))
          (sc_sk_share (nc_secret config)) (sc_pk_set (nc_secret config)) = Return sg)"

lemma node_settings_returns:
  "node_settings addr_ok config = Return ns \<longleftrightarrow>
     addr_ok \<and> (\<exists>s n db. nc_test_config config = SingleNode s n \<and> nc_persistor config = MySQL db
       \<and> ns = \<lparr>ns_replica_id = nc_node_name config, ns_sk_id = unat (sc_sk_id (nc_secret config)),
           ns_sk_share = sc_sk_share (nc_secret config), ns_pk_set = sc_pk_set (nc_secret config),
           ns_num = bc_total (nc_bootstrap_conf config), ns_token = bc_token (nc_bootstrap_conf config),
           ns_block_size = s, ns_block_num = n, ns_db = db,
           ns_peer_addrs = fold (\<lambda>pi. hm_insert (pi_node_id pi) (pi_addr pi))
             (bc_peer_addrs (nc_bootstrap_conf config)) []\<rparr>)"
  by (cases "nc_test_config config"; cases "nc_persistor config") (auto simp: node_settings_def Let_def)

lemma node_start_init:
  assumes "node_admin_start H K C na now config E d = Return (ns, dn, d1)"
  obtains sg pm where "node_settings (socket_addr_ok H (nc_server_addr config)) config = Return ns"
    and "init_logger H ns = Return ()"
    and "init_hotstuff_node K C na (ns_token ns) (ns_num ns) (ns_replica_id ns) (ns_db ns) (ns_peer_addrs ns) sg d
        = Return (pm, d1)"
    and "run_start (node_env config E) (hss_safety_storage C) (hss_liveness_storage C) pm = Return (dn_pm dn)"
    and "build_signaturer_from_string K C (ns_sk_id ns) (ns_sk_share ns) (ns_pk_set ns) = Return sg"
    and "hm_get (ns_replica_id ns) (ns_peer_addrs ns) \<noteq> None"
proof -
  from assms obtain sg pm where "node_settings (socket_addr_ok H (nc_server_addr config)) config = Return ns"
      "init_logger H ns = Return ()"
      "build_signaturer_from_string K C (ns_sk_id ns) (ns_sk_share ns) (ns_pk_set ns) = Return sg"
      and n: "init_hotstuff_node K C na (ns_token ns) (ns_num ns) (ns_replica_id ns) (ns_db ns) (ns_peer_addrs ns) sg d
        = Return (pm, d1)"
      and "run_start (node_env config E) (hss_safety_storage C) (hss_liveness_storage C) pm = Return (dn_pm dn)"
    by (auto simp: node_admin_start_def Let_def exec_bind_eq_Return)
  with that init_node_returns show thesis by (metis (no_types))
qed

text \<open>A started node runs as a replica does.\<close>

lemma demo_step_pm:
  assumes "demo_step K E C ns d ev d1"
  shows "dn_pm d1 = dn_pm d \<or> pm_step E C (hss_safety_storage C) (hss_liveness_storage C) (dn_pm d) (dn_pm d1)"
  using assms by cases (auto intro: pm_step.fires dest: pm_step.loop_round)

lemma demo_run_reaches:
  assumes "demo_run K E C ns dn evs dn1" and "replica_reaches E C pm0 (dn_pm dn)"
  shows "replica_reaches E C pm0 (dn_pm dn1)"
  using assms
proof (induction rule: demo_run.induct)
  case (demo_run_step evs d1 ev d2)
  with demo_run_step.IH [OF demo_run_step.prems] show ?case
    using demo_step_pm [of K E C ns d1 ev d2] reaches_step [of E C pm0 "dn_pm d1" "dn_pm d2"] by auto
qed simp

lemma node_start_returns:
  "(\<exists>x. node_admin_start H K C na now config E d = Return x) \<longleftrightarrow> config_accepted H K C config" (is "?l \<longleftrightarrow> ?r")
proof
  assume ?l
  then obtain ns dn d1 where "node_admin_start H K C na now config E d = Return (ns, dn, d1)" by auto
  then obtain sg pm where "node_settings (socket_addr_ok H (nc_server_addr config)) config = Return ns" "init_logger H ns = Return ()"
      "build_signaturer_from_string K C (ns_sk_id ns) (ns_sk_share ns) (ns_pk_set ns) = Return sg"
      "hm_get (ns_replica_id ns) (ns_peer_addrs ns) \<noteq> None" by (rule node_start_init)
  then show ?r by (auto simp: node_settings_returns init_logger_def config_accepted_def dest: peers_known split: if_splits)
next
  assume ?r
  then obtain ns where ns: "node_settings (socket_addr_ok H (nc_server_addr config)) config = Return ns"
      and log: "init_logger H ns = Return ()"
      and peer: "hm_get (ns_replica_id ns) (ns_peer_addrs ns) \<noteq> None"
      and "\<exists>sg. build_signaturer_from_string K C (ns_sk_id ns) (ns_sk_share ns) (ns_pk_set ns) = Return sg"
    by (cases "nc_test_config config"; cases "nc_persistor config")
      (auto simp: config_accepted_def init_logger_def node_settings_returns hm_get_fold_insert simp del: not_None_eq)
  then obtain sg where sg: "build_signaturer_from_string K C (ns_sk_id ns) (ns_sk_share ns) (ns_pk_set ns) = Return sg"
    by blast
  obtain pm d1 where pm: "init_hotstuff_node K C na (ns_token ns) (ns_num ns) (ns_replica_id ns) (ns_db ns)
      (ns_peer_addrs ns) sg d = Return (pm, d1)"
    using peer init_node_returns by (metis surj_pair)
  have "pm_sound pm" using init_node_ok(2) [OF pm] peer by (cases "ns_peer_addrs ns") auto
  then obtain pm1 where
      "run_start (node_env config E) (hss_safety_storage C) (hss_liveness_storage C) pm = Return pm1"
    using run_start_returns node_env_set(1) by blast
  then show ?l using ns log sg pm by (auto simp: node_admin_start_def Let_def)
qed

lemma started_node_ok:
  assumes start: "node_admin_start H K C na now config E d = Return (ns, dn, d1)"
    and run: "demo_run K (node_env config E) C ns dn evs dn1"
  shows "pm_sound (dn_pm dn1)" "pm_ok (hss_safety_storage C) (hss_inv C) (dn_pm dn1)"
proof -
  from start obtain sg pm where pm: "init_hotstuff_node K C na (ns_token ns) (ns_num ns) (ns_replica_id ns) (ns_db ns)
        (ns_peer_addrs ns) sg d = Return (pm, d1)"
      and rs: "run_start (node_env config E) (hss_safety_storage C) (hss_liveness_storage C) pm = Return (dn_pm dn)"
      and peer: "hm_get (ns_replica_id ns) (ns_peer_addrs ns) \<noteq> None"
    by (rule node_start_init)
  have sound: "pm_sound pm" using init_node_ok(2) [OF pm] peer by (cases "ns_peer_addrs ns") auto
  have "replica_reaches (node_env config E) C pm (dn_pm dn)"
    using rs by (auto simp: replica_reaches_def)
  with run have reach: "replica_reaches (node_env config E) C pm (dn_pm dn1)" by (rule demo_run_reaches)
  then show "pm_sound (dn_pm dn1)" using replica_reaches_sound sound node_env_set(2) by blast
  show "pm_ok (hss_safety_storage C) (hss_inv C) (dn_pm dn1)"
    using replica_reaches_advanced [OF reach init_node_ok(1) [OF pm]] by (rule pm_advanced_ok)
qed

lemma started_stat:
  assumes "node_admin_start H K C na now config E d = Return (ns, dn, d1)" and "demo_run K (node_env config E) C ns dn evs dn1"
  shows "dn_stat dn1 = HotStuffNodeStat_default now now"
  using demo_run_state [OF assms(2)] node_admin_start_server [OF assms(1)]
  by (simp add: server_state_of_def ServerSharedState_default_def hm_get_def)

lemma node_ends:
  assumes "pm_sound (dn_pm dn)" and "dn_stat dn = HotStuffNodeStat_default now now" and "now \<le> later"
  shows "no_panic (node_admin_end C later dn)"
proof -
  have "no_panic (flush_unwrap (hss_liveness_storage C) (dn_pm dn))"
    using flush_unwrap_sound [OF assms(1)] by (rule sound_no_panic)
  then show ?thesis
    using assms(2,3) unfolding node_admin_end_def event_loop_end_def
    by (intro no_panic_bind) (auto simp: demo_finilizer_def total_time_def duration_since_def HotStuffNodeStat_default_def no_panic_def)
qed

lemma node_main_start:
  "node_admin_main H K C na now arg E d = Return (config, r) \<longleftrightarrow>
     load_config H arg = Return config \<and> node_admin_start H K C na now config E d = Return r"
  by (cases r) (auto simp: node_admin_main_def exec_bind_eq_Return)

lemma node_main_returns:
  "(\<exists>x. node_admin_main H K C na now arg E d = Return x) \<longleftrightarrow>
     (\<exists>config. load_config H arg = Return config \<and> config_accepted H K C config)"
  by (simp add: split_paired_Ex node_main_start flip: node_start_returns [of H K C na now _ E d])


subsection \<open>Generated keys\<close>

lemma build_signaturer_key:
  assumes "codec_ok K" and "share_sound C s"
  shows "build_signaturer_from_string K C i (from_utf8_unchecked (sk_to_json K (secret_key_share C s i)))
      (from_utf8_unchecked (pk_to_json K (public_keys C s))) = Return (key_of C s i)"
  using assms by (simp add: build_signaturer_from_string_def codec_ok_def share_sound_def key_of_def Let_def)

text \<open>The names of the key files differ, in any directory.\<close>

lemma path_join_inject [simp]: "path_join path a = path_join path b \<longleftrightarrow> a = b"
  by (simp add: path_join_def)

lemma key_file_inj: "inj_on key_file {n. n < 2 ^ 64}"
  by (auto simp: inj_on_def key_file_def usize_to_string_inject)

lemma peer_number_bound: "peer_number arg = Some num \<Longrightarrow> num < 2 ^ 64"
  by (auto simp: peer_number_def dest: parse_usize_bound split: option.splits)

text \<open>A directory in which every key file can be created and takes a content in one write.\<close>

definition writable_dir :: "host \<Rightarrow> string \<Rightarrow> bool" where
  "writable_dir H path \<longleftrightarrow> os_is_dir H path
     \<and> (\<forall>i n. os_create H (path_join path (key_file i)) \<and> os_write H (path_join path (key_file i)) n = Some n)"

lemma write_keys_completes:
  assumes "writable_dir H path"
  shows "write_keys H path conts files = Return (Completed,
    fold (\<lambda>(i, cont). hm_insert (path_join path (key_file i)) cont) conts files)"
  using assms
  by (induction H path conts files rule: write_keys.induct) (simp_all add: writable_dir_def as_bytes_def Let_def)

lemma written_contents:
  assumes "inj_on key_file (fst ` set conts)" and "distinct (map fst conts)" and "(i, cont) \<in> set conts"
  shows "hm_get (path_join path (key_file i))
    (fold (\<lambda>(i, cont). hm_insert (path_join path (key_file i)) cont) conts files) = Some cont"
  using assms
proof (induction conts rule: rev_induct)
  case (snoc x conts)
  show ?case
  proof (cases "(i, cont) = x")
    case False
    with snoc.prems have mem: "(i, cont) \<in> set conts" by auto
    then have "i \<in> fst ` set conts" by force
    with snoc.prems(2) have "fst x \<noteq> i" by auto
    with snoc.prems(1) mem have "key_file (fst x) \<noteq> key_file i" by (force simp: inj_on_def)
    with snoc.IH snoc.prems mem show ?thesis
      by (auto simp: case_prod_unfold map_simps intro: inj_on_subset)
  qed (auto simp: map_simps)
qed simp


subsection \<open>Statistics\<close>

text \<open>The distances between neighbours of a list of heights.\<close>

fun gaps :: "u64 list \<Rightarrow> u64 list" where
  "gaps (v # w # vs) = (w - v) # gaps (w # vs)"
| "gaps _ = []"

lemma gaps_snoc: "gaps (vs @ [w]) = gaps vs @ (if vs = [] then [] else [w - last vs])"
  by (induction vs rule: gaps.induct) auto

lemma duration_since_Return: "duration_since now earlier = Return dur \<longleftrightarrow> earlier \<le> now \<and> dur = now - earlier"
  by (auto simp: duration_since_def)

lemma sorted_le_last: "sorted xs \<Longrightarrow> x \<in> set xs \<Longrightarrow> x \<le> last xs" for x :: nat
  by (induction xs) (auto split: if_splits)

text \<open>What \<open>take_new_committed_prop\<close> records, for proposals with the times they arrive at.\<close>

definition stat_of :: "nat \<Rightarrow> (nat \<times> TreeNode) list \<Rightarrow> HotStuffNodeStat \<Rightarrow> bool" where
  "stat_of t0 ps stat \<longleftrightarrow> committed_prop_list stat = map (height \<circ> snd) ps
     \<and> t0 + sum_list (interval_list stat) = ts_last_prop stat
     \<and> ts_last_prop stat = (if ps = [] then t0 else fst (last ps))
     \<and> max_gap stat = fold max (gaps (map (height \<circ> snd) ps)) 0"

lemma take_new_committed_prop_stat:
  assumes "stat_of t0 ps stat" and "take_new_committed_prop now p stat = Return stat1"
  shows "stat_of t0 (ps @ [(now, p)]) stat1"
proof -
  let ?hs = "map (height \<circ> snd) ps"
  have gap: "(case ?hs of [] \<Rightarrow> 0 | vs \<Rightarrow> height p - last vs) = (if ?hs = [] then 0 else height p - last ?hs)"
    by (cases ?hs) simp_all
  from assms(2) have le: "ts_last_prop stat \<le> now"
      and stat1: "stat1 = stat\<lparr>ts_last_prop := now,
        max_gap := max (max_gap stat) (case committed_prop_list stat of [] \<Rightarrow> 0 | vs \<Rightarrow> height p - last vs),
        committed_prop_list := committed_prop_list stat @ [height p],
        interval_list := interval_list stat @ [now - ts_last_prop stat]\<rparr>"
    by (auto simp: take_new_committed_prop_def exec_bind_eq_Return duration_since_Return Let_def)
  from assms(1) have "committed_prop_list stat = ?hs" "t0 + sum_list (interval_list stat) = ts_last_prop stat"
      "max_gap stat = fold max (gaps ?hs) 0"
    by (simp_all add: stat_of_def)
  with le show ?thesis by (simp add: stat_of_def stat1 gap gaps_snoc max.commute)
qed

text \<open>The statistics are right. From a fresh record, after any number of committed proposals the list
  holds their heights in order, the intervals add up to the time since the start, and the
  largest gap is the largest distance between neighbouring heights; a clock that runs back is
  a panic.\<close>

lemma demo_statistics:
  assumes "run_exec (\<lambda>(now, p). take_new_committed_prop now p) ps (HotStuffNodeStat_default t t) = Return stat"
  shows "committed_prop_list stat = map (height \<circ> snd) ps
    \<and> t + sum_list (interval_list stat) = (if ps = [] then t else fst (last ps))
    \<and> max_gap stat = fold max (gaps (map (height \<circ> snd) ps)) 0
    \<and> sorted (t # map fst ps)"
proof -
  have "stat_of t ps stat \<and> sorted (t # map fst ps)"
    using assms
  proof (induction ps arbitrary: stat rule: rev_induct)
    case Nil
    then show ?case by (auto simp: stat_of_def HotStuffNodeStat_default_def)
  next
    case (snoc x ps)
    obtain now p where x: "x = (now, p)" by (cases x)
    from snoc.prems obtain st where st: "run_exec (\<lambda>(now, p). take_new_committed_prop now p) ps
          (HotStuffNodeStat_default t t) = Return st" and p: "take_new_committed_prop now p st = Return stat"
      by (auto simp: run_exec_append exec_bind_eq_Return x)
    from snoc.IH [OF st] have so: "stat_of t ps st" "sorted (t # map fst ps)" by simp_all
    from p have "ts_last_prop st \<le> now"
      by (auto simp: take_new_committed_prop_def exec_bind_eq_Return duration_since_Return)
    then have "last (t # map fst ps) \<le> now"
      using so(1) by (auto simp: stat_of_def last_map split: if_splits)
    with sorted_le_last [OF so(2)] have "\<forall>x \<in> set (t # map fst ps). x \<le> now" by (blast intro: le_trans)
    with so(2) have "sorted ((t # map fst ps) @ [now])" by (auto simp: sorted_append)
    with take_new_committed_prop_stat [OF so(1) p] show ?case by (simp add: x)
  qed
  then show ?thesis by (simp add: stat_of_def)
qed

subsection \<open>Examples\<close>

text \<open>A configuration with keys of the example scheme, and the node it starts.\<close>

definition toy_key_config :: NodeConfig where
  "toy_key_config = NodeConfig_default\<lparr>nc_secret := \<lparr>sc_sk_id = 0,
     sc_sk_share = from_utf8_unchecked (sk_to_json toy_codec (secret_key_share toy toy_keys 0)),
     sc_pk_set = from_utf8_unchecked (pk_to_json toy_codec (public_keys toy toy_keys))\<rparr>\<rparr>"

definition toy_host :: host where
  "toy_host = \<lparr>os_read = (\<lambda>_. Some ''name: Alice''), os_create = (\<lambda>_. True), os_is_dir = (\<lambda>_. True),
     os_write = (\<lambda>_ n. Some n), socket_addr_ok = (\<lambda>_. True), yaml_config = (\<lambda>_. Some toy_key_config)\<rparr>"

definition toy_submission :: demo_event where
  "toy_submission = Http \<lparr>hq_method = POST, hq_path = [''new-tx''], hq_content_length = Some 40,
     hq_json = Some \<lparr>nr_tx_hash = ''abc'', nr_tx = b64_encode toy_codec [1, 2]\<rparr>\<rparr>"

lemma toy_config_accepted: "config_accepted toy_host toy_codec toy toy_key_config"
proof -
  have "\<exists>sg. build_signaturer_from_string toy_codec toy 0
      (from_utf8_unchecked (sk_to_json toy_codec (secret_key_share toy toy_keys 0)))
      (from_utf8_unchecked (pk_to_json toy_codec (public_keys toy toy_keys))) = Return sg"
    using build_signaturer_key [OF toy_codec_ok toy_share_sound] by blast
  then show ?thesis by (simp add: config_accepted_def toy_host_def toy_key_config_def NodeConfig_default_def log_files_def)
qed

lemma toy_load_config: "load_config toy_host (Some ''alice.yaml'') = Return toy_key_config"
  by (simp add: load_config_def toy_host_def)

lemma toy_node_starts:
  "\<exists>ns dn d1. node_admin_start toy_host toy_codec toy (\<lambda>_ _. toy_net) 5 toy_key_config toy_env create_tables
     = Return (ns, dn, d1)"
  using node_start_returns [of toy_host toy_codec toy "\<lambda>_ _. toy_net" 5 toy_key_config toy_env create_tables]
    toy_config_accepted by auto

lemma toy_submission_run:
  "\<exists>dn1. demo_run toy_codec (node_env toy_key_config toy_env) toy ns dn [toy_submission] dn1"
  using demo_run_step [OF demo_run_start demo_step.http [OF surjective_pairing]]
  by (fastforce simp: toy_submission_def)

lemma toy_submissions [simp]: "submissions toy_codec [toy_submission] = [''abc'']"
  using submissions_snoc(2) [of toy_codec "[]" toy_submission] toy_codec_ok
  by (simp add: toy_submission_def valid_submission_def tx_summit_def codec_ok_def)

theorem demo_tx_stays_pending_witness:
  "\<exists>ns dn dn1. demo_run toy_codec (node_env toy_key_config toy_env) toy ns dn [toy_submission] dn1
     \<and> tx_server toy_codec (get_tx ''abc'') (dn_sss dn1)
         = (dn_sss dn1, Some \<lparr>np_tx_hash = ''abc'', np_state = ''pending''\<rparr>)
     \<and> tx_server toy_codec (get_tx ''xyz'') (dn_sss dn1)
         = (dn_sss dn1, Some \<lparr>np_tx_hash = ''xyz'', np_state = ''invalid''\<rparr>)"
proof -
  obtain ns dn d1 where start:
      "node_admin_start toy_host toy_codec toy (\<lambda>_ _. toy_net) 5 toy_key_config toy_env create_tables = Return (ns, dn, d1)"
    using toy_node_starts by blast
  obtain dn1 where run: "demo_run toy_codec (node_env toy_key_config toy_env) toy ns dn [toy_submission] dn1"
    using toy_submission_run by blast
  note t = demo_tx_stays_pending [OF start run]
  show ?thesis
    using t [of "''abc''"] t [of "''xyz''"] run by (auto simp: TX_STATE_PENDING_def TX_STATE_INVALID_def)
qed



text \<open>The generator does not look at how much of a content was written: with a write that takes five
  bytes of what it is given it still completes, and the node with that file has no key set to read.\<close>

lemma key_file_cut:
  "\<exists>files1. generate_sk_main (toy_host\<lparr>os_write := \<lambda>_ n. Some (min n 5)\<rparr>) K C s (Some ''1'') (Some ''keys'') []
     = Return ([], Completed, files1) \<and> hm_get ''keys/crypto-0'' files1 = Some ''num=1''"
proof -
  have "peer_number (Some ''1'') = Some 1" by (simp add: peer_number_def parse_usize_def digit_value_def)
  moreover have "usize_to_string 1 = ''1''" "usize_to_string 0 = ''0''" by code_simp+
  ultimately show ?thesis
    by (simp add: generate_sk_main_def generate_sk_def threshold_sign_kit_def bft_threshold_le toy_host_def key_content_def
        key_text_def key_file_def path_join_def as_bytes_def map_simps)
qed

lemma demo_statistics_example:
  "\<exists>stat. run_exec (\<lambda>(now, p). take_new_committed_prop now p)
       [(12, toy_block 1 (toy_hash_of 0) 0), (15, toy_block 4 (toy_hash_of 1) 1)] (HotStuffNodeStat_default 10 10)
       = Return stat \<and> committed_prop_list stat = [1, 4] \<and> max_gap stat = 3"
proof -
  let ?ps = "[(12, toy_block 1 (toy_hash_of 0) 0), (15, toy_block 4 (toy_hash_of 1) 1)] :: (nat \<times> TreeNode) list"
  obtain stat where st: "run_exec (\<lambda>(now, p). take_new_committed_prop now p) ?ps (HotStuffNodeStat_default 10 10) = Return stat"
    by (simp add: take_new_committed_prop_def duration_since_def HotStuffNodeStat_default_def Let_def)
  from demo_statistics [OF this] have "committed_prop_list stat = [1, 4]" "max_gap stat = 3"
    by (simp_all add: toy_block_def max_def)
  with st show ?thesis by blast
qed

end
